(* ===== verification/Prelude.thy ===== *)
theory Prelude
  imports Main "HOL-Library.Sublist"
begin

text \<open>
  The shared vocabulary of the development.

  \<^item> The exceptions and faults a C++ member function of the client can end in
    (\<open>cxx_fail\<close>), with one constructor of \<open>io_cause\<close> per \<open>throw IOException\<close> site.
  \<^item> A state-and-exception monad \<open>('s, 'a) io\<close>: a method is a function from the object state
    to a result and the state it leaves behind, so that what a method changed before it threw
    stays changed, as in the code.
  \<^item> A weakest-precondition calculus \<open>wp\<close> for that monad, whose rules are collected in
    \<open>wp_rules\<close>.
  \<^item> The part of \<open>std::string\<close> and of \<open>std::unordered_map\<close> that the sources use, with
    \<open>size_t\<close> arithmetic modulo \<open>2 ^ 64\<close> and \<open>npos\<close> as the largest \<open>size_t\<close>.
\<close>

named_theorems io_simps \<open>one-step execution rules of the monad\<close>
named_theorems wp_rules \<open>weakest precondition rules\<close>
named_theorems str_simps \<open>closed forms of the std::string searches\<close>

section \<open>Exceptions and faults\<close>

datatype io_cause =
    UnknownURI string
  | UnknownConfiguration string
  | UnknownHost string
  | UnableToConnect string
  | UnableToTalkHost string
  | UnableToTalk
  | NoOpenSocket
  | NotConnected
  | PeerClosed
  | NodeNotOpen string

datatype rt_cause =
    AlreadyConnected
  | NoAtomSpace
  | AtomSpaceReadOnly
  | UnableToConnectDB
  | NotConnectedToServer

datatype cxx_fail =
    IOException io_cause
  | SyntaxException string
  | RuntimeException rt_cause
  | LibraryThrow string       \<comment> \<open>an exception raised inside a called library\<close>
  | OutOfRange                \<comment> \<open>\<open>std::out_of_range\<close>\<close>
  | Sigpipe                   \<comment> \<open>\<open>send\<close> without \<open>MSG_NOSIGNAL\<close> on a broken connection\<close>
  | Blocked                   \<comment> \<open>a \<open>recv\<close> that never returns\<close>
  | NullHandle                \<comment> \<open>a null \<open>Handle\<close> or pointer is dereferenced\<close>
  | OutOfBounds               \<comment> \<open>an array is read outside its bounds\<close>
  | StackOverflow             \<comment> \<open>a recursion deeper than the stack\<close>
  | Diverges                  \<comment> \<open>a loop that never ends\<close>
  | UseAfterFree              \<comment> \<open>a method of an object that has been destroyed is called\<close>
  | Terminate                 \<comment> \<open>\<open>std::terminate\<close>: an exception leaves a destructor\<close>

section \<open>The state-and-exception monad\<close>

type_synonym ('s, 'a) io = "'s \<Rightarrow> (cxx_fail + 'a) \<times> 's"

definition ret :: "'a \<Rightarrow> ('s, 'a) io" where
  "ret x s = (Inr x, s)"

definition throw :: "cxx_fail \<Rightarrow> ('s, 'a) io" where
  "throw e s = (Inl e, s)"

definition bnd :: "('s, 'a) io \<Rightarrow> ('a \<Rightarrow> ('s, 'b) io) \<Rightarrow> ('s, 'b) io" where
  "bnd m f s = (case m s of (Inl e, s') \<Rightarrow> (Inl e, s') | (Inr x, s') \<Rightarrow> f x s')"

definition seq :: "('s, 'a) io \<Rightarrow> ('s, 'b) io \<Rightarrow> ('s, 'b) io" where
  "seq m k = bnd m (\<lambda>_. k)"

definition gets :: "('s \<Rightarrow> 'a) \<Rightarrow> ('s, 'a) io" where
  "gets f s = (Inr (f s), s)"

definition modify :: "('s \<Rightarrow> 's) \<Rightarrow> ('s, unit) io" where
  "modify f s = (Inr (), f s)"

definition lift_res :: "cxx_fail + 'a \<Rightarrow> ('s, 'a) io" where
  "lift_res r s = (r, s)"

definition cond_do :: "bool \<Rightarrow> ('s, unit) io \<Rightarrow> ('s, unit) io" where
  "cond_do b m = (if b then m else ret ())"

text \<open>\<open>try { m } catch (const IOException&) { h }\<close>: only I/O exceptions are caught, and the
  state the body left is the state the handler starts from.\<close>

definition catch_io :: "('s, 'a) io \<Rightarrow> (io_cause \<Rightarrow> ('s, 'a) io) \<Rightarrow> ('s, 'a) io" where
  "catch_io m h s =
     (case m s of
        (Inl (IOException c), s') \<Rightarrow> h c s'
      | r \<Rightarrow> r)"

text \<open>Running a method of a component inside a larger state.\<close>

definition zoom :: "('s \<Rightarrow> 't) \<Rightarrow> (('t \<Rightarrow> 't) \<Rightarrow> 's \<Rightarrow> 's) \<Rightarrow> ('t, 'a) io \<Rightarrow> ('s, 'a) io" where
  "zoom get upd m s = (case m (get s) of (r, t) \<Rightarrow> (r, upd (\<lambda>_. t) s))"

text \<open>A destructor is \<open>noexcept\<close>: an exception that would leave it ends the program.\<close>

fun is_exception :: "cxx_fail \<Rightarrow> bool" where
  "is_exception (IOException c) = True"
| "is_exception (SyntaxException t) = True"
| "is_exception (RuntimeException c) = True"
| "is_exception (LibraryThrow t) = True"
| "is_exception OutOfRange = True"
| "is_exception _ = False"

definition noexcept :: "('s, 'a) io \<Rightarrow> ('s, 'a) io" where
  "noexcept m s = (case m s of (Inl e, s') \<Rightarrow> (Inl (if is_exception e then Terminate else e), s') | r \<Rightarrow> r)"

text \<open>A range-based \<open>for\<close> loop whose body is a method call.\<close>

fun for_each :: "('x \<Rightarrow> ('s, unit) io) \<Rightarrow> 'x list \<Rightarrow> ('s, unit) io" where
  "for_each f [] = ret ()"
| "for_each f (x # xs) = seq (f x) (for_each f xs)"

lemma ret_run [io_simps]: "ret x s = (Inr x, s)"
  by (simp add: ret_def)

lemma throw_run [io_simps]: "throw e s = (Inl e, s)"
  by (simp add: throw_def)

lemma gets_run [io_simps]: "gets f s = (Inr (f s), s)"
  by (simp add: gets_def)

lemma modify_run [io_simps]: "modify f s = (Inr (), f s)"
  by (simp add: modify_def)

lemma lift_res_run [io_simps]: "lift_res r s = (r, s)"
  by (simp add: lift_res_def)

lemma bnd_run [io_simps]:
  "m s = (Inr x, s') \<Longrightarrow> bnd m f s = f x s'"
  "m s = (Inl e, s') \<Longrightarrow> bnd m f s = (Inl e, s')"
  by (simp_all add: bnd_def)

lemma seq_run [io_simps]:
  "m s = (Inr x, s') \<Longrightarrow> seq m k s = k s'"
  "m s = (Inl e, s') \<Longrightarrow> seq m k s = (Inl e, s')"
  by (simp_all add: seq_def bnd_def)

lemma cond_do_run [io_simps]:
  "b \<Longrightarrow> cond_do b m s = m s"
  "\<not> b \<Longrightarrow> cond_do b m s = (Inr (), s)"
  by (simp_all add: cond_do_def ret_def)

lemma zoom_run [io_simps]:
  "m (get s) = (r, t) \<Longrightarrow> zoom get upd m s = (r, upd (\<lambda>_. t) s)"
  by (simp add: zoom_def)

lemma bnd_assoc: "bnd (bnd m f) g = bnd m (\<lambda>x. bnd (f x) g)"
  by (rule ext) (simp add: bnd_def split: prod.splits sum.splits)

lemma bnd_ret_left: "bnd (ret x) f = f x"
  by (rule ext) (simp add: bnd_def ret_def)

lemma bnd_ret_right: "bnd m ret = m"
  by (rule ext) (simp add: bnd_def ret_def split: prod.splits sum.splits)

lemma for_each_append: "for_each f (xs @ ys) = seq (for_each f xs) (for_each f ys)"
  by (induction xs)
     (simp_all add: seq_def bnd_assoc bnd_ret_left)

section \<open>Weakest preconditions\<close>

text \<open>\<open>wp m Q E s\<close>: started in \<open>s\<close>, \<open>m\<close> ends normally in a state that satisfies \<open>Q\<close>
  or with a failure in a state that satisfies \<open>E\<close>.\<close>

definition wp :: "('s, 'a) io \<Rightarrow> ('a \<Rightarrow> 's \<Rightarrow> bool) \<Rightarrow> (cxx_fail \<Rightarrow> 's \<Rightarrow> bool) \<Rightarrow> 's \<Rightarrow> bool" where
  "wp m Q E s = (case m s of (Inr x, s') \<Rightarrow> Q x s' | (Inl e, s') \<Rightarrow> E e s')"

lemma wp_ret [wp_rules]: "wp (ret x) Q E s = Q x s"
  by (simp add: wp_def ret_def)

lemma wp_throw [wp_rules]: "wp (throw e) Q E s = E e s"
  by (simp add: wp_def throw_def)

lemma wp_bnd [wp_rules]: "wp (bnd m f) Q E s = wp m (\<lambda>x s'. wp (f x) Q E s') E s"
  by (simp add: wp_def bnd_def split: prod.splits sum.splits)

lemma wp_seq [wp_rules]: "wp (seq m k) Q E s = wp m (\<lambda>_ s'. wp k Q E s') E s"
  by (simp add: seq_def wp_bnd)

lemma wp_gets [wp_rules]: "wp (gets f) Q E s = Q (f s) s"
  by (simp add: wp_def gets_def)

lemma wp_modify [wp_rules]: "wp (modify f) Q E s = Q () (f s)"
  by (simp add: wp_def modify_def)

lemma wp_lift_res [wp_rules]:
  "wp (lift_res r) Q E s = (case r of Inl e \<Rightarrow> E e s | Inr x \<Rightarrow> Q x s)"
  by (simp add: wp_def lift_res_def split: sum.splits)

lemma wp_cond_do [wp_rules]: "wp (cond_do b m) Q E s = (if b then wp m Q E s else Q () s)"
  by (simp add: cond_do_def wp_ret)

lemma wp_if [wp_rules]: "wp (if b then m else k) Q E s = (if b then wp m Q E s else wp k Q E s)"
  by simp

lemma wp_zoom [wp_rules]:
  "wp (zoom get upd m) Q E s =
     wp m (\<lambda>x t. Q x (upd (\<lambda>_. t) s)) (\<lambda>e t. E e (upd (\<lambda>_. t) s)) (get s)"
  by (simp add: wp_def zoom_def split: prod.splits sum.splits)

lemma wp_catch_io [wp_rules]:
  "wp (catch_io m h) Q E s =
     wp m Q (\<lambda>e s'. case e of IOException c \<Rightarrow> wp (h c) Q E s' | _ \<Rightarrow> E e s') s"
  by (simp add: wp_def catch_io_def split: prod.splits sum.splits cxx_fail.splits)

lemma wp_mono:
  assumes "wp m Q E s"
    and "\<And>x s'. Q x s' \<Longrightarrow> Q' x s'" and "\<And>e s'. E e s' \<Longrightarrow> E' e s'"
  shows "wp m Q' E' s"
  using assms by (auto simp: wp_def split: prod.splits sum.splits)

lemma wp_returns: "wp m Q (\<lambda>_ _. False) s \<Longrightarrow> \<exists>x s'. m s = (Inr x, s') \<and> Q x s'"
  by (auto simp: wp_def split: prod.splits sum.splits)

text \<open>\<open>keeps I K m\<close>: started in a state that satisfies the invariant \<open>I\<close>, the method ends in one,
  however it ends, and if it fails then with a failure in \<open>K\<close>.\<close>

definition keeps :: "('s \<Rightarrow> bool) \<Rightarrow> (cxx_fail \<Rightarrow> bool) \<Rightarrow> ('s, 'a) io \<Rightarrow> bool" where
  "keeps I K m \<longleftrightarrow> (\<forall>s. I s \<longrightarrow> wp m (\<lambda>_. I) (\<lambda>e s'. I s' \<and> K e) s)"

lemma keepsI: "(\<And>s. I s \<Longrightarrow> wp m (\<lambda>_. I) (\<lambda>e s'. I s' \<and> K e) s) \<Longrightarrow> keeps I K m"
  by (simp add: keeps_def)

lemma keepsD: "keeps I K m \<Longrightarrow> I s \<Longrightarrow> wp m (\<lambda>_. I) (\<lambda>e s'. I s' \<and> K e) s"
  by (simp add: keeps_def)

lemma keeps_state: "keeps I K m \<Longrightarrow> I s \<Longrightarrow> I (snd (m s))"
  by (cases "m s"; cases "fst (m s)") (auto simp: keeps_def wp_def)

lemma keeps_fail: "keeps I K m \<Longrightarrow> I s \<Longrightarrow> fst (m s) = Inl e \<Longrightarrow> K e"
  by (cases "m s") (auto simp: keeps_def wp_def)

lemma keeps_ret [intro]: "keeps I K (ret x)"
  by (simp add: keeps_def wp_ret)

lemma keeps_throw [intro]: "K e \<Longrightarrow> keeps I K (throw e)"
  by (simp add: keeps_def wp_throw)

lemma keeps_gets [intro]: "keeps I K (gets f)"
  by (simp add: keeps_def wp_gets)

lemma keeps_gets_bnd: "(\<And>s. keeps I K (f (g s))) \<Longrightarrow> keeps I K (bnd (gets g) f)"
  by (simp add: keeps_def wp_gets wp_bnd)

lemma keeps_bnd: "keeps I K m \<Longrightarrow> (\<And>x. keeps I K (f x)) \<Longrightarrow> keeps I K (bnd m f)"
  by (auto simp: keeps_def wp_bnd elim!: wp_mono)

lemma keeps_seq: "keeps I K m \<Longrightarrow> keeps I K k \<Longrightarrow> keeps I K (seq m k)"
  by (auto simp: seq_def intro: keeps_bnd)

lemma keeps_cond_do [intro]: "keeps I K m \<Longrightarrow> keeps I K (cond_do b m)"
  by (auto simp: cond_do_def)

lemma keeps_if: "(b \<Longrightarrow> keeps I K m) \<Longrightarrow> (\<not> b \<Longrightarrow> keeps I K k) \<Longrightarrow> keeps I K (if b then m else k)"
  by simp

lemma keeps_modify: "(\<And>s. I s \<Longrightarrow> I (f s)) \<Longrightarrow> keeps I K (modify f)"
  by (simp add: keeps_def wp_modify)

lemma keeps_for_each: "(\<And>x. keeps I K (f x)) \<Longrightarrow> keeps I K (for_each f xs)"
  by (induction xs) (auto intro: keeps_seq)

lemma keeps_option:
  "(x = None \<Longrightarrow> keeps I K m) \<Longrightarrow> (\<And>y. x = Some y \<Longrightarrow> keeps I K (k y)) \<Longrightarrow>
     keeps I K (case x of None \<Rightarrow> m | Some y \<Rightarrow> k y)"
  by (cases x) auto

lemma keeps_pair: "(\<And>x y. keeps I K (f x y)) \<Longrightarrow> keeps I K (case p of (x, y) \<Rightarrow> f x y)"
  by (cases p) auto

text \<open>A method of a part of the state that the invariant does not look at.\<close>

lemma keeps_zoom:
  "(\<And>s t. I s \<Longrightarrow> I (upd (\<lambda>_. t) s)) \<Longrightarrow> keeps (\<lambda>_. True) K m \<Longrightarrow> keeps I K (zoom get upd m)"
  by (auto simp: keeps_def wp_zoom elim!: wp_mono)

lemma keeps_any: "keeps (\<lambda>_. True) (\<lambda>_. True) m"
  by (simp add: keeps_def wp_def split: prod.split sum.split)

lemmas keeps_rules = keeps_ret keeps_throw keeps_gets_bnd keeps_gets keeps_bnd keeps_seq
  keeps_cond_do keeps_if keeps_for_each keeps_option keeps_pair

section \<open>std::string\<close>

text \<open>\<open>size_t\<close> is unsigned and 64 bits wide; every string is shorter than \<open>npos\<close>.\<close>

definition npos :: nat where
  "npos = 2 ^ 64 - 1"

definition size_add :: "nat \<Rightarrow> nat \<Rightarrow> nat" where
  "size_add a b = (a + b) mod 2 ^ 64"

text \<open>Subtraction of \<open>size_t\<close> values, for arguments that are themselves \<open>size_t\<close> values.\<close>

definition size_sub :: "nat \<Rightarrow> nat \<Rightarrow> nat" where
  "size_sub a b = (a + 2 ^ 64 - b) mod 2 ^ 64"

definition SYN :: char where "SYN = CHR 0x16"
definition NUL :: char where "NUL = CHR 0x00"
definition NL :: char where "NL = CHR 0x0A"
definition TAB :: char where "TAB = CHR 0x09"
definition DQ :: char where "DQ = CHR 0x22"

text \<open>What a C string function sees of a buffer: the bytes before the first NUL.\<close>

definition c_str :: "string \<Rightarrow> string" where
  "c_str s = takeWhile (\<lambda>c. c \<noteq> NUL) s"

text \<open>The first position at or after \<open>pos\<close> whose character satisfies \<open>P\<close>; the common part of
  \<open>find(char)\<close>, \<open>find_first_of\<close> and \<open>find_first_not_of\<close>.\<close>

definition find_if :: "(char \<Rightarrow> bool) \<Rightarrow> string \<Rightarrow> nat \<Rightarrow> nat" where
  "find_if P s pos =
     (let k = pos + length (takeWhile (\<lambda>c. \<not> P c) (drop pos s))
      in if k < length s then k else npos)"

definition find_char :: "char \<Rightarrow> string \<Rightarrow> nat \<Rightarrow> nat" where
  "find_char c = find_if (\<lambda>x. x = c)"

definition find_first_of :: "string \<Rightarrow> string \<Rightarrow> nat \<Rightarrow> nat" where
  "find_first_of cs = find_if (\<lambda>x. x \<in> set cs)"

definition find_first_not_of :: "string \<Rightarrow> string \<Rightarrow> nat \<Rightarrow> nat" where
  "find_first_not_of cs = find_if (\<lambda>x. x \<notin> set cs)"

text \<open>\<open>find(const char*, pos)\<close>: the first position at which the whole pattern occurs.\<close>

definition find_str :: "string \<Rightarrow> string \<Rightarrow> nat \<Rightarrow> nat" where
  "find_str pat s pos =
     (case List.find (\<lambda>i. prefix pat (drop i s)) [pos..<Suc (length s)] of
        None \<Rightarrow> npos | Some i \<Rightarrow> i)"

definition rfind_char :: "char \<Rightarrow> string \<Rightarrow> nat" where
  "rfind_char c s =
     (let k = length (takeWhile (\<lambda>x. x \<noteq> c) (rev s))
      in if k < length s then length s - 1 - k else npos)"

text \<open>\<open>s.substr(pos, n)\<close> throws when \<open>pos\<close> is past the end.\<close>

definition substr :: "string \<Rightarrow> nat \<Rightarrow> nat \<Rightarrow> cxx_fail + string" where
  "substr s pos n = (if pos \<le> length s then Inr (take n (drop pos s)) else Inl OutOfRange)"

text \<open>\<open>s.compare(0, n, lit) == 0\<close>.\<close>

definition compare0_eq :: "nat \<Rightarrow> string \<Rightarrow> string \<Rightarrow> bool" where
  "compare0_eq n s lit \<longleftrightarrow> take n s = lit"

text \<open>\<open>strncmp(s, lit, n) == 0\<close> on C strings.\<close>

definition strncmp_eq :: "nat \<Rightarrow> string \<Rightarrow> string \<Rightarrow> bool" where
  "strncmp_eq n s lit \<longleftrightarrow> take n (c_str s) = take n (c_str lit)"

lemma prefix_iff_take: "prefix p s \<longleftrightarrow> take (length p) s = p"
  by (metis append_eq_conv_conj prefix_def take_is_prefix)

lemma dropWhile_to [simp]: "c \<notin> set v \<Longrightarrow> dropWhile (\<lambda>x. x \<noteq> c) (v @ c # w) = c # w"
  by (induction v) auto

lemma takeWhile_to [simp]: "c \<notin> set v \<Longrightarrow> takeWhile (\<lambda>x. x \<noteq> c) (v @ c # w) = v"
  by (induction v) auto

lemma find_if_found:
  assumes "pos \<le> length s" and "drop pos s = u @ c # v" and "\<forall>x\<in>set u. \<not> P x" and "P c"
  shows "find_if P s pos = pos + length u"
proof -
  have tw: "takeWhile (\<lambda>c. \<not> P c) (drop pos s) = u"
    using assms(2-4) by (simp add: takeWhile_append2)
  have "length (drop pos s) = length u + Suc (length v)"
    by (simp add: assms(2))
  with assms(1) have "pos + length u < length s" by simp
  with tw show ?thesis by (simp add: find_if_def Let_def)
qed

lemma find_if_none:
  "\<forall>x\<in>set (drop pos s). \<not> P x \<Longrightarrow> find_if P s pos = npos"
  by (auto simp: find_if_def Let_def takeWhile_eq_all_conv [THEN iffD2])

lemma find_if_cases:
  "find_if P s pos = npos \<or> (pos \<le> find_if P s pos \<and> find_if P s pos < length s)"
  by (auto simp: find_if_def Let_def)

lemma find_if_hit:
  assumes "find_if P s pos \<noteq> npos"
  shows "pos \<le> find_if P s pos \<and> find_if P s pos < length s \<and> P (s ! find_if P s pos)"
proof -
  let ?k = "length (takeWhile (\<lambda>c. \<not> P c) (drop pos s))"
  from assms have eq: "find_if P s pos = pos + ?k" and lt: "pos + ?k < length s"
    by (auto simp: find_if_def Let_def split: if_splits)
  then have "?k < length (drop pos s)" by simp
  then have "P (drop pos s ! ?k)"
    using nth_length_takeWhile [of "\<lambda>c. \<not> P c" "drop pos s"] by simp
  with eq lt show ?thesis by simp
qed

lemma find_if_npos_iff:
  "length s < npos \<Longrightarrow> pos \<le> length s \<Longrightarrow>
     find_if P s pos = npos \<longleftrightarrow> (\<forall>x\<in>set (drop pos s). \<not> P x)"
proof
  assume len: "length s < npos" "pos \<le> length s" and "find_if P s pos = npos"
  then have "length (drop pos s) \<le> length (takeWhile (\<lambda>c. \<not> P c) (drop pos s))"
    by (auto simp: find_if_def Let_def split: if_splits)
  then have "takeWhile (\<lambda>c. \<not> P c) (drop pos s) = drop pos s"
    by (metis length_takeWhile_le le_antisym takeWhile_eq_take take_all)
  then show "\<forall>x\<in>set (drop pos s). \<not> P x" by (metis takeWhile_eq_all_conv)
qed (rule find_if_none)

lemma find_char_found:
  "pos \<le> length s \<Longrightarrow> drop pos s = u @ c # v \<Longrightarrow> c \<notin> set u \<Longrightarrow> find_char c s pos = pos + length u"
  unfolding find_char_def by (rule find_if_found) auto

lemma find_char_none: "c \<notin> set (drop pos s) \<Longrightarrow> find_char c s pos = npos"
  unfolding find_char_def by (rule find_if_none) auto

text \<open>The idiom \<open>if (npos != (p = s.find...)) s = s.substr(0, p)\<close> keeps what precedes the match.\<close>

lemma cut_find_if:
  assumes "length s < npos"
  shows "(if find_if P s 0 \<noteq> npos then g (take (find_if P s 0) s) else g s) = g (takeWhile (\<lambda>c. \<not> P c) s)"
proof (cases "\<exists>c\<in>set s. P c")
  case True
  then obtain u c v where s: "s = u @ c # v" "P c" "\<forall>x\<in>set u. \<not> P x"
    by (metis split_list_first_prop)
  then have "find_if P s 0 = length u" using find_if_found [of 0 s u c v P] by simp
  moreover have "takeWhile (\<lambda>c. \<not> P c) s = u" using s by (simp add: takeWhile_append2)
  moreover have "length u \<noteq> npos" using assms s(1) by simp
  ultimately show ?thesis using s(1) by simp
next
  case False
  then have "find_if P s 0 = npos" "takeWhile (\<lambda>c. \<not> P c) s = s"
    using find_if_none [of 0 s P] by (auto simp: takeWhile_eq_all_conv)
  then show ?thesis by (simp only: simp_thms if_False)
qed

lemma cut_find_char:
  "length s < npos \<Longrightarrow>
     (if find_char c s 0 \<noteq> npos then g (take (find_char c s 0) s) else g s) = g (takeWhile (\<lambda>x. x \<noteq> c) s)"
  unfolding find_char_def by (rule cut_find_if)

lemma c_str_id: "NUL \<notin> set s \<Longrightarrow> c_str s = s"
  by (auto simp: c_str_def)

lemma c_str_prefix: "prefix (c_str s) s"
  by (simp add: c_str_def takeWhile_is_prefix)

section \<open>std::unordered_map\<close>

text \<open>A map as an association list with distinct keys; the list order stands for one order of
  iteration. \<open>insert\<close> leaves an existing entry alone.\<close>

type_synonym ('k, 'v) umap = "('k \<times> 'v) list"

definition umap_insert :: "'k \<Rightarrow> 'v \<Rightarrow> ('k, 'v) umap \<Rightarrow> ('k, 'v) umap" where
  "umap_insert k v m = (case map_of m k of None \<Rightarrow> (k, v) # m | Some _ \<Rightarrow> m)"

locale insert_once =
  fixes empty :: "'m"
    and insert_in :: "'k \<Rightarrow> 'v \<Rightarrow> 'm \<Rightarrow> 'm"
    and lookup :: "'m \<Rightarrow> 'k \<Rightarrow> 'v option"
  assumes lookup_empty: "lookup empty k = None"
    and lookup_insert:
      "lookup (insert_in k v m) k' =
         (if k = k' \<and> lookup m k = None then Some v else lookup m k')"
begin

lemma lookup_insert_same: "lookup (insert_in k v m) k = Some (case lookup m k of None \<Rightarrow> v | Some w \<Rightarrow> w)"
  by (simp add: lookup_insert split: option.splits)

lemma lookup_stable: "lookup m k = Some v \<Longrightarrow> lookup (insert_in k' v' m) k = Some v"
  by (auto simp: lookup_insert)

end

interpretation um: insert_once "[]" umap_insert map_of
  by unfold_locales (auto simp: umap_insert_def split: option.splits)

end
