(* ===== verification/Sockets.thy ===== *)
theory Sockets
  imports Prelude
begin

text \<open>
  The operating system as the client sees it: stream sockets with a receive queue per file
  descriptor, and the system calls the sources make (\<open>getaddrinfo\<close>, \<open>socket\<close>, \<open>connect\<close>,
  \<open>send\<close>, \<open>recv\<close>, \<open>close\<close>).

  The CogServer at the other end is not part of the repository. It is the parameter \<open>env\<close>: how
  names resolve, which addresses accept a connection, and what arrives on a connection after it
  is accepted or after bytes are sent to it. Arrivals are events on a queue: a segment of bytes,
  the end of the stream, or a receive error. TCP does not keep message boundaries, so a reply may
  be cut into segments in any way, and a receive takes at most the buffer's size out of the first
  segment.
\<close>

datatype recv_ev = Seg string | Eof | RxErr

type_synonym addrinfo = nat

record 'srv net =
  srv :: 'srv
  rx :: "int \<Rightarrow> recv_ev list"      \<comment> \<open>what has arrived and is not yet read\<close>
  open_fds :: "int list"
  fd_pool :: "int list"             \<comment> \<open>what the next \<open>socket\<close> calls return; then \<open>-1\<close>\<close>
  tx :: "(int \<times> string) list"       \<comment> \<open>what was sent, oldest first\<close>

record 'srv env =
  getaddrinfo :: "string \<Rightarrow> string \<Rightarrow> addrinfo list option"
  accepts :: "addrinfo \<Rightarrow> 'srv \<Rightarrow> bool"
  on_accept :: "addrinfo \<Rightarrow> int \<Rightarrow> 'srv \<Rightarrow> 'srv \<times> recv_ev list"
  on_data :: "int \<Rightarrow> string \<Rightarrow> 'srv \<Rightarrow> 'srv \<times> recv_ev list"
  broken :: "int \<Rightarrow> 'srv \<Rightarrow> bool"

definition sys_socket :: "('srv net, int) io" where
  "sys_socket n =
     (case fd_pool n of
        [] \<Rightarrow> (Inr (-1), n)
      | fd # fds \<Rightarrow>
          (Inr fd, n\<lparr>fd_pool := fds, open_fds := (if fd < 0 then open_fds n else fd # open_fds n)\<rparr>))"

definition sys_connect :: "'srv env \<Rightarrow> int \<Rightarrow> addrinfo \<Rightarrow> ('srv net, int) io" where
  "sys_connect E fd a n =
     (if accepts E a (srv n)
      then (case on_accept E a fd (srv n) of
              (s', evs) \<Rightarrow> (Inr 0, n\<lparr>srv := s', rx := (rx n)(fd := evs)\<rparr>))
      else (Inr (-1), n))"

definition sys_close :: "int \<Rightarrow> ('srv net, unit) io" where
  "sys_close fd n =
     (Inr (), n\<lparr>open_fds := removeAll fd (open_fds n), rx := (rx n)(fd := [])\<rparr>)"

text \<open>\<open>send(fd, msg, len, flags)\<close>; \<open>nosignal\<close> is the flag \<open>MSG_NOSIGNAL\<close>. On a broken connection
  a send without the flag raises \<open>SIGPIPE\<close>.\<close>

definition sys_send :: "'srv env \<Rightarrow> bool \<Rightarrow> int \<Rightarrow> string \<Rightarrow> ('srv net, int) io" where
  "sys_send E nosignal fd msg n =
     (if fd \<notin> set (open_fds n) then (Inr (-1), n)
      else if broken E fd (srv n) then (if nosignal then (Inr (-1), n) else (Inl Sigpipe, n))
      else (case on_data E fd msg (srv n) of
              (s', evs) \<Rightarrow>
                (Inr (int (length msg)),
                 n\<lparr>srv := s', rx := (rx n)(fd := rx n fd @ evs), tx := tx n @ [(fd, msg)]\<rparr>)))"

text \<open>What a blocking \<open>recv\<close> with a buffer of \<open>k\<close> bytes takes off the queue. A receive of zero
  bytes returns 0, which is what the end of the stream returns too.\<close>

datatype recv_result = RecvData string | RecvEof | RecvError | RecvBlocks

fun rx_next :: "nat \<Rightarrow> recv_ev list \<Rightarrow> recv_result \<times> recv_ev list" where
  "rx_next k [] = (RecvBlocks, [])"
| "rx_next k (Seg bs # evs) =
     (if bs = [] then rx_next k evs
      else if k = 0 then (RecvEof, Seg bs # evs)
      else (RecvData (take k bs), if drop k bs = [] then evs else Seg (drop k bs) # evs))"
| "rx_next k (Eof # evs) = (RecvEof, Eof # evs)"
| "rx_next k (RxErr # evs) = (RecvError, evs)"

text \<open>The queue behind a descriptor; a descriptor that is not open can only report an error.\<close>

definition rx_of :: "int \<Rightarrow> 'srv net \<Rightarrow> recv_ev list" where
  "rx_of fd n = (if fd \<in> set (open_fds n) then rx n fd else [RxErr])"

definition set_rx :: "int \<Rightarrow> recv_ev list \<Rightarrow> 'srv net \<Rightarrow> 'srv net" where
  "set_rx fd evs n = (if fd \<in> set (open_fds n) then n\<lparr>rx := (rx n)(fd := evs)\<rparr> else n)"

fun ev_size :: "recv_ev \<Rightarrow> nat" where
  "ev_size (Seg bs) = Suc (length bs)"
| "ev_size Eof = 1"
| "ev_size RxErr = 1"

definition rx_size :: "recv_ev list \<Rightarrow> nat" where
  "rx_size evs = sum_list (map ev_size evs)"

lemma rx_size_simps [simp]:
  "rx_size [] = 0" "rx_size (e # evs) = ev_size e + rx_size evs"
  "rx_size (xs @ ys) = rx_size xs + rx_size ys"
  by (simp_all add: rx_size_def)

lemma rx_next_data:
  "rx_next k evs = (RecvData bs, evs') \<Longrightarrow> bs \<noteq> [] \<and> length bs \<le> k \<and> rx_size evs' < rx_size evs"
  by (induction k evs rule: rx_next.induct) (auto split: if_splits simp: take_eq_Nil)

section \<open>Execution rules of the calls\<close>

lemma sys_send_closed [simp]: "fd \<notin> set (open_fds n) \<Longrightarrow> sys_send E ns fd msg n = (Inr (-1), n)"
  by (simp add: sys_send_def)

lemma wp_sys_close [wp_rules]:
  "wp (sys_close fd) Q F n = Q () (n\<lparr>open_fds := removeAll fd (open_fds n), rx := (rx n)(fd := [])\<rparr>)"
  by (simp add: wp_def sys_close_def)

lemma set_rx_fields [simp]:
  "open_fds (set_rx fd evs n) = open_fds n" "srv (set_rx fd evs n) = srv n"
  "tx (set_rx fd evs n) = tx n" "fd_pool (set_rx fd evs n) = fd_pool n"
  by (simp_all add: set_rx_def)

lemma rx_of_set_rx [simp]: "fd \<in> set (open_fds n) \<Longrightarrow> rx_of fd (set_rx fd evs n) = evs"
  by (simp add: rx_of_def set_rx_def)

lemma set_rx_same [simp]: "fd \<in> set (open_fds n) \<Longrightarrow> set_rx fd (rx n fd) n = n"
  by (simp add: set_rx_def)

end
