(* ===== verification/Framing.thy ===== *)
theory Framing
  imports Sockets
begin

text \<open>
  The receive loop that both storage nodes contain (\<open>CogSimpleStorage::do_recv\<close> and
  \<open>CogChannel::do_recv\<close>): read buffers until one of them ends in a newline, dropping the
  synchronous-idle bytes (\<open>0x16\<close>) that a congested server puts around its replies.

  The index arithmetic on the buffer is kept: \<open>skip_syn\<close> and \<open>trim_syn\<close> are the two inner
  \<open>while\<close> loops, and a read of \<open>buf[-1]\<close> is the explicit outcome \<open>None\<close> of \<open>trim_syn\<close>. The
  lemmas show that this read never happens, that the two loops compute a two-sided strip, and
  that a reply is reassembled exactly, for every way the network may have cut it into segments.
\<close>

section \<open>One buffer\<close>

text \<open>\<open>buf\<close> holds the bytes received; the byte after them is the NUL the code stores there.\<close>

definition buf_at :: "string \<Rightarrow> nat \<Rightarrow> char" where
  "buf_at buf i = (if i < length buf then buf ! i else NUL)"

text \<open>\<open>while (0x16 == pbf[0] and (pbf-buf < len)) pbf++;\<close>\<close>

function skip_syn :: "string \<Rightarrow> nat \<Rightarrow> nat" where
  "skip_syn buf i = (if buf_at buf i = SYN \<and> i < length buf then skip_syn buf (Suc i) else i)"
  by pat_completeness auto
termination
  by (relation "measure (\<lambda>(buf, i). length buf - i)") auto

declare skip_syn.simps [simp del]

text \<open>The trailing loop, entered with \<open>len\<close> bytes: it tests \<open>buf[len-1]\<close> before it tests
  \<open>0 < len\<close>, so at \<open>len = 0\<close> it reads before the buffer.\<close>

fun trim_syn :: "string \<Rightarrow> nat \<Rightarrow> nat option" where
  "trim_syn buf 0 = None"
| "trim_syn buf (Suc k) = (if buf_at buf k = SYN then trim_syn buf k else Some (Suc k))"

datatype chunk = AllIdle | BadRead | Chunk nat nat

definition scan_chunk :: "string \<Rightarrow> chunk" where
  "scan_chunk buf =
     (let pbf = (if buf_at buf 0 = SYN then skip_syn buf 1 else 0)
      in if buf_at buf 0 = SYN \<and> pbf = length buf then AllIdle
         else (case trim_syn buf (length buf) of
                 None \<Rightarrow> BadRead
               | Some len \<Rightarrow> if len = 0 then AllIdle else Chunk pbf len))"

text \<open>The C string at \<open>pbf\<close> once \<open>buf[len]\<close> is NUL.\<close>

definition chunk_text :: "string \<Rightarrow> nat \<Rightarrow> nat \<Rightarrow> string" where
  "chunk_text buf pbf len = c_str (drop pbf (take len buf))"

section \<open>The loop\<close>

datatype rx_outcome = RxReply string | RxError | RxClosed | RxBlocked | RxBadRead

function recv_loop ::
  "nat \<Rightarrow> bool \<Rightarrow> bool \<Rightarrow> string \<Rightarrow> recv_ev list \<Rightarrow> rx_outcome \<times> recv_ev list" where
  "recv_loop k garbage first_time rb evs =
     (case rx_next k evs of
        (RecvBlocks, evs') \<Rightarrow> (RxBlocked, evs')
      | (RecvError, evs') \<Rightarrow> (RxError, evs')
      | (RecvEof, evs') \<Rightarrow> (RxClosed, evs')
      | (RecvData buf, evs') \<Rightarrow>
          (case scan_chunk buf of
             AllIdle \<Rightarrow> recv_loop k garbage first_time rb evs'
           | BadRead \<Rightarrow> (RxBadRead, evs')
           | Chunk pbf len \<Rightarrow>
               if first_time \<and> (buf_at buf (len - 1) = NL \<or> garbage)
               then (RxReply (chunk_text buf pbf len), evs')
               else if buf_at buf (len - 1) = NL
               then (RxReply (rb @ chunk_text buf pbf len), evs')
               else recv_loop k garbage False (rb @ chunk_text buf pbf len) evs'))"
  by pat_completeness auto
termination
  by (relation "measure (\<lambda>(k, garbage, first_time, rb, evs). rx_size evs)")
     (auto dest: rx_next_data [OF sym])

declare recv_loop.simps [simp del]

section \<open>The inner loops compute a two-sided strip\<close>

definition lstrip :: "string \<Rightarrow> string" where
  "lstrip = dropWhile (\<lambda>c. c = SYN)"

definition rstrip :: "string \<Rightarrow> string" where
  "rstrip s = rev (lstrip (rev s))"

definition strip :: "string \<Rightarrow> string" where
  "strip s = rstrip (lstrip s)"

lemma skip_syn_eq:
  "i \<le> length buf \<Longrightarrow> skip_syn buf i = i + length (takeWhile (\<lambda>c. c = SYN) (drop i buf))"
proof (induction buf i rule: skip_syn.induct)
  case (1 buf i)
  show ?case
  proof (cases "i < length buf")
    case True
    then have d: "drop i buf = buf ! i # drop (Suc i) buf"
      by (rule Cons_nth_drop_Suc [symmetric])
    from True 1 show ?thesis
      by (auto simp: skip_syn.simps [of buf i] buf_at_def d)
  next
    case False
    with "1.prems" show ?thesis by (subst skip_syn.simps) simp
  qed
qed

lemma trim_syn_eq:
  "trim_syn buf k =
     (if \<forall>c\<in>set (take k buf). c = SYN then None
      else Some (length (rstrip (take k buf))))" if "k \<le> length buf"
  using that
proof (induction k)
  case 0
  show ?case by simp
next
  case (Suc k)
  then have t: "take (Suc k) buf = take k buf @ [buf ! k]"
    by (simp add: take_Suc_conv_app_nth)
  from Suc show ?case
    by (auto simp: t buf_at_def rstrip_def lstrip_def)
qed

lemma rstrip_prefix: "prefix (rstrip s) s"
proof -
  have "suffix (lstrip (rev s)) (rev s)"
    by (simp add: lstrip_def suffix_dropWhile)
  then show ?thesis by (simp add: rstrip_def suffix_to_prefix)
qed

lemma lstrip_idle [simp]: "\<forall>c\<in>set s. c = SYN \<Longrightarrow> lstrip s = []"
  by (simp add: lstrip_def)

lemma rstrip_idle [simp]: "\<forall>c\<in>set s. c = SYN \<Longrightarrow> rstrip s = []"
  by (simp add: rstrip_def)

lemma idle_or_pad:
  obtains (idle) "\<forall>c\<in>set s. c = SYN"
    | (pad) a p b where "s = replicate a SYN @ p @ replicate b SYN"
        "p \<noteq> []" "hd p \<noteq> SYN" "last p \<noteq> SYN"
proof (cases "\<forall>c\<in>set s. c = SYN")
  case False
  let ?l = "lstrip s" and ?p = "rstrip (lstrip s)"
  have s: "s = takeWhile (\<lambda>c. c = SYN) s @ ?l"
    by (simp add: lstrip_def)
  have tw: "takeWhile (\<lambda>c. c = SYN) s = replicate (length (takeWhile (\<lambda>c. c = SYN) s)) SYN"
    by (auto intro!: replicate_eqI dest: set_takeWhileD)
  from False have l: "?l \<noteq> []" "hd ?l \<noteq> SYN"
    using hd_dropWhile [of "\<lambda>c. c = SYN" s] by (auto simp: lstrip_def dropWhile_eq_Nil_conv)
  let ?q = "takeWhile (\<lambda>c. c = SYN) (rev ?l)"
  have rl: "rev ?l = ?q @ lstrip (rev ?l)" by (simp add: lstrip_def)
  then have lq: "?l = ?p @ rev ?q"
    by (metis rev_append rev_rev_ident rstrip_def)
  have q: "?q = replicate (length ?q) SYN"
    by (auto intro!: replicate_eqI dest: set_takeWhileD)
  have ex: "\<exists>c\<in>set (rev ?l). c \<noteq> SYN" using l by (metis hd_in_set set_rev)
  then have nz: "lstrip (rev ?l) \<noteq> []" by (auto simp: lstrip_def dropWhile_eq_Nil_conv)
  then have p1: "?p \<noteq> []" by (simp add: rstrip_def)
  have "hd (lstrip (rev ?l)) \<noteq> SYN"
    using nz hd_dropWhile [of "\<lambda>c. c = SYN" "rev ?l"] by (auto simp: lstrip_def)
  then have p2: "last ?p \<noteq> SYN" using nz by (simp add: rstrip_def last_rev)
  have p3: "hd ?p \<noteq> SYN" using l p1 lq by (metis hd_append2)
  have "s = replicate (length (takeWhile (\<lambda>c. c = SYN) s)) SYN @ ?p @ replicate (length ?q) SYN"
    using s tw lq q by (metis append_assoc rev_replicate)
  with p1 p2 p3 show ?thesis by (rule_tac pad)
qed (rule idle)

lemma strip_pad:
  assumes "p \<noteq> []" and "hd p \<noteq> SYN" and "last p \<noteq> SYN"
  shows "lstrip (replicate a SYN @ p @ t) = p @ t"
    and "rstrip (u @ p @ replicate b SYN) = u @ p"
    and "strip (replicate a SYN @ p @ replicate b SYN) = p"
proof -
  obtain x xs where x: "p = x # xs" "x \<noteq> SYN" using assms by (cases p) auto
  obtain ys y where y: "p = ys @ [y]" "y \<noteq> SYN" using assms by (cases p rule: rev_cases) auto
  have r: "dropWhile (\<lambda>c. c = SYN) (replicate n SYN @ w) = dropWhile (\<lambda>c. c = SYN) w" for n w
    by (induction n) auto
  show l: "lstrip (replicate a SYN @ p @ t) = p @ t" for t
    by (simp add: lstrip_def r x)
  show rs: "rstrip (u @ p @ replicate b SYN) = u @ p" for u
    by (simp add: rstrip_def lstrip_def r y)
  show "strip (replicate a SYN @ p @ replicate b SYN) = p"
    using rs [of "[]"] by (simp add: strip_def l)
qed

text \<open>The scan of one buffer: idle buffers are skipped, and otherwise the reported window is the
  stripped buffer. The read before the buffer never happens.\<close>

lemma scan_chunk_idle: "buf \<noteq> [] \<Longrightarrow> \<forall>c\<in>set buf. c = SYN \<Longrightarrow> scan_chunk buf = AllIdle"
proof -
  assume ne: "buf \<noteq> []" and idle: "\<forall>c\<in>set buf. c = SYN"
  then have "buf_at buf 0 = SYN" by (simp add: buf_at_def)
  moreover have "skip_syn buf 1 = length buf"
    using ne idle by (cases buf) (simp_all add: skip_syn_eq takeWhile_eq_all_conv [THEN iffD2])
  ultimately show ?thesis by (simp add: scan_chunk_def)
qed

lemma scan_chunk_pad:
  assumes "buf = replicate a SYN @ p @ replicate b SYN"
    and "p \<noteq> []" and "hd p \<noteq> SYN" and "last p \<noteq> SYN"
  shows "scan_chunk buf = Chunk a (a + length p)"
proof -
  obtain x xs where x: "p = x # xs" "x \<noteq> SYN" using assms by (cases p) auto
  have tw: "takeWhile (\<lambda>c. c = SYN) (replicate n SYN @ p @ t) = replicate n SYN" for n t
    by (induction n) (auto simp: x)
  have "\<not> (\<forall>c\<in>set (take (length buf) buf). c = SYN)" using x by (auto simp: assms(1))
  then have "trim_syn buf (length buf) = Some (length (rstrip buf))"
    using trim_syn_eq [of "length buf" buf] by (simp del: trim_syn.simps)
  moreover have "rstrip buf = replicate a SYN @ p"
    unfolding assms(1) by (rule strip_pad) (use assms in auto)
  ultimately have tr: "trim_syn buf (length buf) = Some (a + length p)" by simp
  show ?thesis
  proof (cases a)
    case 0
    with tr x assms(1) show ?thesis by (simp add: scan_chunk_def buf_at_def)
  next
    case (Suc n)
    have "drop 1 buf = replicate n SYN @ p @ replicate b SYN" by (simp add: assms(1) Suc)
    then have "skip_syn buf 1 = a"
      using Suc assms(1) by (simp add: skip_syn_eq tw)
    moreover have "buf_at buf 0 = SYN" by (simp add: buf_at_def assms(1) Suc)
    moreover have "a \<noteq> length buf" using x by (simp add: assms(1))
    ultimately show ?thesis using tr x by (simp add: scan_chunk_def)
  qed
qed

lemma scan_chunk_text:
  assumes "scan_chunk buf = Chunk pbf len" and "buf \<noteq> []"
  shows "pbf < len \<and> len \<le> length buf \<and> drop pbf (take len buf) = strip buf
    \<and> buf_at buf (len - 1) = last (strip buf) \<and> strip buf \<noteq> []"
proof (cases buf rule: idle_or_pad)
  case idle
  with assms show ?thesis by (simp add: scan_chunk_idle)
next
  case (pad a p b)
  from scan_chunk_pad [OF pad] assms(1) have eq: "pbf = a" "len = a + length p" by auto
  have st: "strip buf = p" unfolding pad(1) by (rule strip_pad) (use pad in auto)
  have "buf = replicate a SYN @ butlast p @ last p # replicate b SYN" using pad(1,2) by simp
  moreover have "a + length p - 1 = length (replicate a SYN @ butlast p)" using pad(2) by (cases p) auto
  ultimately have "buf_at buf (a + length p - 1) = last p"
    by (metis append_assoc buf_at_def length_append less_add_same_cancel1 list.size(4)
          nth_append_length zero_less_Suc add_Suc_right add.right_neutral)
  with eq st pad show ?thesis by simp
qed

lemma scan_chunk_safe: "buf \<noteq> [] \<Longrightarrow> scan_chunk buf \<noteq> BadRead"
proof (cases buf rule: idle_or_pad)
  case (pad a p b)
  from scan_chunk_pad [OF pad] show ?thesis by simp
qed (simp add: scan_chunk_idle)

lemma scan_chunk_cases:
  assumes "buf \<noteq> []"
  obtains (idle) "scan_chunk buf = AllIdle" "\<forall>c\<in>set buf. c = SYN" "strip buf = []"
    | (chunk) pbf len where "scan_chunk buf = Chunk pbf len"
        "chunk_text buf pbf len = c_str (strip buf)"
        "buf_at buf (len - 1) = last (strip buf)" "strip buf \<noteq> []"
proof (cases buf rule: idle_or_pad)
  case idle
  have "strip buf = []" using idle by (simp add: strip_def rstrip_def)
  with assms idle show ?thesis by (intro that(1)) (simp_all add: scan_chunk_idle)
next
  case (pad a p b)
  from scan_chunk_pad [OF pad] have sc: "scan_chunk buf = Chunk a (a + length p)" .
  from scan_chunk_text [OF this assms] sc show ?thesis
    by (intro that(2)) (auto simp: chunk_text_def)
qed

section \<open>Replies and how the network may deliver them\<close>

text \<open>A segment is \<open>clean\<close> when its idle bytes are at its two ends only.\<close>

definition clean :: "string \<Rightarrow> bool" where
  "clean bs \<longleftrightarrow> SYN \<notin> set (strip bs)"

abbreviation payload :: "string \<Rightarrow> string" where
  "payload bs \<equiv> filter (\<lambda>c. c \<noteq> SYN) bs"

lemma clean_iff: "clean bs \<longleftrightarrow> (\<exists>a p b. bs = replicate a SYN @ p @ replicate b SYN \<and> SYN \<notin> set p)"
proof (cases bs rule: idle_or_pad)
  case idle
  then have "bs = replicate (length bs) SYN" by (intro replicate_eqI) auto
  then have "bs = replicate (length bs) SYN @ [] @ replicate 0 SYN" by simp
  then have "\<exists>a p b. bs = replicate a SYN @ p @ replicate b SYN \<and> SYN \<notin> set p"
    by (metis empty_iff empty_set)
  with idle show ?thesis by (simp add: clean_def strip_def rstrip_def)
next
  case (pad a p b)
  have st: "strip bs = p" unfolding pad(1) by (rule strip_pad) (use pad in auto)
  show ?thesis
  proof
    assume "clean bs"
    with st pad(1) show "\<exists>a p b. bs = replicate a SYN @ p @ replicate b SYN \<and> SYN \<notin> set p"
      by (auto simp: clean_def)
  next
    assume "\<exists>a p b. bs = replicate a SYN @ p @ replicate b SYN \<and> SYN \<notin> set p"
    then obtain a' p' b' where *: "bs = replicate a' SYN @ p' @ replicate b' SYN" "SYN \<notin> set p'"
      by blast
    from pad have "\<exists>c\<in>set bs. c \<noteq> SYN" by (metis hd_in_set in_set_conv_decomp append_assoc
        Un_iff set_append)
    with * have "p' \<noteq> []" by auto
    moreover from * this have "hd p' \<noteq> SYN" "last p' \<noteq> SYN"
      by (metis hd_in_set, metis last_in_set)
    ultimately have "strip bs = p'" unfolding *(1) by (rule strip_pad)
    with * show "clean bs" by (simp add: clean_def)
  qed
qed

lemma clean_take_drop: "clean bs \<Longrightarrow> clean (take n bs) \<and> clean (drop n bs)"
proof -
  assume "clean bs"
  then obtain a p b where bs: "bs = replicate a SYN @ p @ replicate b SYN" "SYN \<notin> set p"
    by (auto simp: clean_iff)
  have "take n bs = replicate (min n a) SYN @ take (n - a) p @ replicate (min (n - a - length p) b) SYN"
    by (simp add: bs(1))
  moreover have "drop n bs = replicate (a - n) SYN @ drop (n - a) p @ replicate (b - (n - a - length p)) SYN"
    by (simp add: bs(1))
  moreover have "SYN \<notin> set (take (n - a) p)" "SYN \<notin> set (drop (n - a) p)"
    using bs(2) by (auto dest: in_set_takeD in_set_dropD)
  ultimately show ?thesis unfolding clean_iff by blast
qed

lemma strip_clean: "clean bs \<Longrightarrow> strip bs = payload bs"
proof (cases bs rule: idle_or_pad)
  case idle
  then show ?thesis by (simp add: strip_def rstrip_def)
next
  case (pad a p b)
  assume "clean bs"
  moreover have st: "strip bs = p" unfolding pad(1) by (rule strip_pad) (use pad in auto)
  ultimately have "SYN \<notin> set p" by (simp add: clean_def)
  then have "filter (\<lambda>c. c \<noteq> SYN) p = p" by (auto simp: filter_id_conv)
  with st pad(1) show ?thesis by simp
qed

fun is_seg :: "recv_ev \<Rightarrow> bool" where
  "is_seg (Seg bs) = True" | "is_seg _ = False"

fun seg_bytes :: "recv_ev \<Rightarrow> string" where
  "seg_bytes (Seg bs) = bs" | "seg_bytes _ = []"

lemma map_Seg_bytes: "list_all is_seg evs \<Longrightarrow> map Seg (map seg_bytes evs) = evs"
  by (induction evs) (auto elim!: is_seg.elims(2))

text \<open>Nothing but idle bytes is waiting: the stream is in step with the requests.\<close>

definition idle_only :: "recv_ev list \<Rightarrow> bool" where
  "idle_only evs \<longleftrightarrow> list_all (\<lambda>e. is_seg e \<and> list_all (\<lambda>c. c = SYN) (seg_bytes e)) evs"

text \<open>The arrivals carry exactly the one-line reply \<open>m\<close>, newline included, cut anywhere and with
  idle bytes at the ends of the segments.\<close>

definition is_reply :: "recv_ev list \<Rightarrow> string \<Rightarrow> bool" where
  "is_reply evs m \<longleftrightarrow>
     evs \<noteq> [] \<and> list_all is_seg evs \<and> list_all (\<lambda>e. clean (seg_bytes e)) evs \<and>
     payload (concat (map seg_bytes evs)) = m \<and> NL \<in> set (seg_bytes (last evs)) \<and>
     m \<noteq> [] \<and> last m = NL \<and> NL \<notin> set (butlast m) \<and> NUL \<notin> set m"

lemma idle_only_simps [simp]:
  "idle_only []" "idle_only (xs @ ys) \<longleftrightarrow> idle_only xs \<and> idle_only ys"
  "idle_only (Seg bs # evs) \<longleftrightarrow> (\<forall>c\<in>set bs. c = SYN) \<and> idle_only evs"
  "\<not> idle_only (Eof # evs)" "\<not> idle_only (RxErr # evs)"
  by (auto simp: idle_only_def list_all_iff)

lemma idle_only_segs: "payload (concat segs) = [] \<Longrightarrow> idle_only (map Seg segs)"
  by (induction segs) (auto simp: filter_empty_conv)

section \<open>The reply is reassembled, whatever the segmentation\<close>

lemma recv_loop_skip_empty:
  "recv_loop k g ft rb (Seg [] # evs) = recv_loop k g ft rb evs"
  by (simp add: recv_loop.simps [of k g ft rb "Seg [] # evs"] recv_loop.simps [of k g ft rb evs])

lemma recv_loop_ends [simp]:
  "recv_loop k g ft rb [] = (RxBlocked, [])"
  "recv_loop k g ft rb (Eof # evs) = (RxClosed, Eof # evs)"
  "recv_loop k g ft rb (RxErr # evs) = (RxError, evs)"
  by (simp_all add: recv_loop.simps)

lemma recv_loop_safe: "recv_loop k g ft rb evs = (out, evs') \<Longrightarrow> out \<noteq> RxBadRead"
proof (induction k g ft rb evs arbitrary: out evs' rule: recv_loop.induct)
  case (1 k g ft rb evs)
  obtain r evs1 where n: "rx_next k evs = (r, evs1)" by (cases "rx_next k evs")
  show ?case
  proof (cases r)
    case (RecvData buf)
    with n have ne: "buf \<noteq> []" by (auto dest: rx_next_data)
    from ne show ?thesis
    proof (cases rule: scan_chunk_cases)
      case idle
      with 1 n RecvData show ?thesis by (auto simp: recv_loop.simps [of k g ft rb evs])
    next
      case (chunk pbf len)
      with 1 n RecvData show ?thesis
        by (auto simp: recv_loop.simps [of k g ft rb evs] split: if_splits)
    qed
  qed (use 1 n in \<open>auto simp: recv_loop.simps [of k g ft rb evs]\<close>)
qed

locale framing =
  fixes k :: nat
  assumes bufsize_pos: "0 < k"
begin

text \<open>What is left of a segment after one receive.\<close>

definition rest_of :: "string \<Rightarrow> recv_ev list" where
  "rest_of v = (if drop k v = [] then [] else [Seg (drop k v)])"

lemma take_ne: "v \<noteq> [] \<Longrightarrow> take k v \<noteq> []"
  using bufsize_pos by simp

lemma rx_next_rest: "v \<noteq> [] \<Longrightarrow> rx_next k (Seg v # evs) = (RecvData (take k v), rest_of v @ evs)"
  using bufsize_pos by (simp add: rest_of_def)

lemma recv_loop_idle:
  assumes "v \<noteq> []" and "\<forall>c\<in>set (take k v). c = SYN"
  shows "recv_loop k g ft rb (Seg v # evs) = recv_loop k g ft rb (rest_of v @ evs)"
  using rx_next_rest [OF assms(1)] scan_chunk_idle [OF take_ne [OF assms(1)] assms(2)]
  by (simp add: recv_loop.simps [of k g ft rb "Seg v # evs"] del: rx_next.simps)

lemma recv_loop_chunk:
  assumes "v \<noteq> []" and "strip (take k v) \<noteq> []"
  shows "recv_loop k g ft rb (Seg v # evs) =
    (let t = c_str (strip (take k v)); nl = (last (strip (take k v)) = NL)
     in if ft \<and> (nl \<or> g) then (RxReply t, rest_of v @ evs)
        else if nl then (RxReply (rb @ t), rest_of v @ evs)
        else recv_loop k g False (rb @ t) (rest_of v @ evs))"
  using take_ne [OF assms(1)]
proof (cases rule: scan_chunk_cases)
  case idle
  with assms(2) show ?thesis by simp
next
  case (chunk pbf len)
  with rx_next_rest [OF assms(1)] show ?thesis
    by (simp add: recv_loop.simps [of k g ft rb "Seg v # evs"] Let_def del: rx_next.simps)
qed

definition rest_segs :: "string \<Rightarrow> string list" where
  "rest_segs v = (if drop k v = [] then [] else [drop k v])"

lemma rest_of_segs: "rest_of v = map Seg (rest_segs v)"
  by (simp add: rest_of_def rest_segs_def)

lemma rest_segs_concat: "concat (rest_segs v) = drop k v"
  by (simp add: rest_segs_def)

lemma rest_segs_size: "v \<noteq> [] \<Longrightarrow> rx_size (map Seg (rest_segs v)) < ev_size (Seg v)"
  using bufsize_pos by (auto simp: rest_segs_def)

lemma rest_segs_clean: "clean v \<Longrightarrow> bs \<in> set (rest_segs v) \<Longrightarrow> clean bs"
  using clean_take_drop [of v k] by (auto simp: rest_segs_def split: if_splits)

lemma payload_split: "payload v = payload (take k v) @ payload (drop k v)"
  by (metis append_take_drop_id filter_append)

lemma last_rest_segs:
  assumes "NL \<in> set (last (v # ws))" and "NL \<notin> set (take k v)"
  shows "rest_segs v @ ws \<noteq> [] \<and> NL \<in> set (last (rest_segs v @ ws))"
proof (cases "ws = []")
  case True
  with assms have "NL \<in> set (drop k v)" by (metis Un_iff append_take_drop_id last.simps set_append)
  with True show ?thesis by (auto simp: rest_segs_def)
qed (use assms in auto)

text \<open>One receive of a clean segment.\<close>

lemma recv_loop_clean:
  assumes "w \<noteq> []" and "clean w" and "ft \<Longrightarrow> rb = []"
  shows "recv_loop k False ft rb (Seg w # evs) =
    (let c = payload (take k w)
     in if c = [] then recv_loop k False ft rb (rest_of w @ evs)
        else if last c = NL then (RxReply (rb @ c_str c), rest_of w @ evs)
        else recv_loop k False False (rb @ c_str c) (rest_of w @ evs))"
proof -
  have c: "strip (take k w) = payload (take k w)"
    using assms(2) clean_take_drop by (intro strip_clean) simp
  show ?thesis
  proof (cases "payload (take k w) = []")
    case True
    then have "\<forall>c\<in>set (take k w). c = SYN" by (simp add: filter_empty_conv)
    from recv_loop_idle [OF assms(1) this] True show ?thesis by (simp add: Let_def)
  next
    case False
    with recv_loop_chunk [OF assms(1)] c assms(3) show ?thesis by (simp add: Let_def)
  qed
qed

lemma NL_payload: "NL \<in> set (payload bs) \<longleftrightarrow> NL \<in> set bs"
  by (auto simp: NL_def SYN_def)

text \<open>One reply, delivered in arbitrary clean segments, is returned whole; what stays on the queue
  in front of later arrivals is idle bytes only.\<close>

lemma recv_reply:
  assumes "segs \<noteq> []" and "\<forall>bs\<in>set segs. clean bs" and "payload (concat segs) = body @ [NL]"
    and "NL \<in> set (last segs)" and "NL \<notin> set body" and "NUL \<notin> set body" and "ft \<Longrightarrow> rb = []"
  shows "\<exists>idle. recv_loop k False ft rb (map Seg segs @ evs) = (RxReply (rb @ body @ [NL]), idle @ evs)
    \<and> idle_only idle"
  using assms
proof (induction "rx_size (map Seg segs)" arbitrary: segs ft rb body rule: less_induct)
  case less
  obtain w ws where w: "segs = w # ws" using less.prems(1) by (cases segs) auto
  let ?ss = "rest_segs w @ ws" and ?c = "payload (take k w)"
  have pl: "?c @ payload (concat ?ss) = body @ [NL]"
    using less.prems(3) w payload_split [of w] by (simp add: rest_segs_concat)
  have clean: "\<forall>bs\<in>set ?ss. clean bs" using less.prems(2) w rest_segs_clean by auto
  show ?case
  proof (cases "w = []")
    case True
    have "ws \<noteq> []" using less.prems(4) w True by auto
    then have "\<exists>idle. recv_loop k False ft rb (map Seg ws @ evs) = (RxReply (rb @ body @ [NL]), idle @ evs)
        \<and> idle_only idle"
      using less.prems w True by (intro less.hyps) auto
    with w True show ?thesis by (simp add: recv_loop_skip_empty)
  next
    case False
    have size: "rx_size (map Seg ?ss) < rx_size (map Seg segs)"
      using rest_segs_size [OF False] w by simp
    have step: "recv_loop k False ft rb (map Seg segs @ evs) =
      (if ?c = [] then recv_loop k False ft rb (map Seg ?ss @ evs)
       else if last ?c = NL then (RxReply (rb @ c_str ?c), map Seg ?ss @ evs)
       else recv_loop k False False (rb @ c_str ?c) (map Seg ?ss @ evs))"
      using recv_loop_clean [OF False, of ft rb "map Seg ws @ evs"] less.prems(2,7) w
      by (simp add: rest_of_segs Let_def)
    from pl consider (fin) "payload (concat ?ss) = []" "?c = body @ [NL]"
      | (more) body' where "body = ?c @ body'" "payload (concat ?ss) = body' @ [NL]"
      by (cases "payload (concat ?ss)" rule: rev_cases) auto
    then show ?thesis
    proof cases
      case fin
      have "idle_only (map Seg ?ss)" using fin(1) by (rule idle_only_segs)
      moreover have "c_str (body @ [NL]) = body @ [NL]"
        using less.prems(6) by (intro c_str_id) (simp add: NL_def NUL_def)
      ultimately show ?thesis unfolding step fin(2) by auto
    next
      case more
      have "NL \<notin> set ?c" "NUL \<notin> set ?c" using less.prems(5,6) more(1) by (metis Un_iff set_append)+
      then have l: "?c \<noteq> [] \<Longrightarrow> last ?c \<noteq> NL" and cs: "c_str ?c = ?c" and nl: "NL \<notin> set (take k w)"
        using last_in_set NL_payload c_str_id by metis+
      from nl have ss: "?ss \<noteq> []" "NL \<in> set (last ?ss)"
        using last_rest_segs less.prems(4) w by auto
      have IH: "\<exists>idle. recv_loop k False ft' rb' (map Seg ?ss @ evs) = (RxReply (rb' @ body' @ [NL]), idle @ evs)
          \<and> idle_only idle" if "ft' \<Longrightarrow> rb' = []" for ft' rb'
        using less.prems(5,6) more that by (intro less.hyps [OF size ss(1) clean _ ss(2)]) auto
      show ?thesis
        using IH [of ft rb] IH [of False "rb @ ?c"] less.prems(7) more(1)
        by (auto simp: step cs l)
    qed
  qed
qed

lemma recv_is_reply:
  assumes "idle_only pre" and "is_reply rs m"
  shows "\<exists>idle. recv_loop k False True [] (pre @ rs @ evs) = (RxReply m, idle @ evs) \<and> idle_only idle"
proof -
  let ?segs = "map seg_bytes (pre @ rs)"
  have "list_all is_seg (pre @ rs)"
    using assms by (auto simp: idle_only_def is_reply_def list_all_iff)
  then have seg: "map Seg ?segs = pre @ rs" by (rule map_Seg_bytes)
  have pre: "clean (seg_bytes e) \<and> payload (seg_bytes e) = []" if "e \<in> set pre" for e
    using assms(1) that
    by (auto simp: idle_only_def list_all_iff clean_def strip_def rstrip_def filter_empty_conv)
  then have "payload (concat (map seg_bytes pre)) = []" by (induction pre) auto
  moreover obtain body where m: "m = body @ [NL]"
    using assms(2) by (metis append_butlast_last_id is_reply_def)
  ultimately have "\<exists>idle. recv_loop k False True [] (map Seg ?segs @ evs) = (RxReply ([] @ body @ [NL]), idle @ evs)
      \<and> idle_only idle"
    using assms(2) pre by (intro recv_reply) (auto simp: is_reply_def list_all_iff last_map)
  then show ?thesis unfolding seg m by simp
qed

text \<open>Before the newline has arrived nothing is returned: the loop is where it was, with the text
  so far in \<open>rb\<close>. What happens then (end of stream, error, waiting) is up to the next arrivals.\<close>

lemma recv_partial:
  assumes "\<forall>bs\<in>set segs. clean bs" and "NL \<notin> set (concat segs)" and "ft \<Longrightarrow> rb = []"
  shows "\<exists>ft' rb'. recv_loop k False ft rb (map Seg segs @ evs) = recv_loop k False ft' rb' evs
    \<and> (ft' \<longrightarrow> rb' = [])"
  using assms
proof (induction "rx_size (map Seg segs)" arbitrary: segs ft rb rule: less_induct)
  case less
  show ?case
  proof (cases segs)
    case Nil
    with less.prems show ?thesis by auto
  next
    case w: (Cons w ws)
    let ?ss = "rest_segs w @ ws" and ?c = "payload (take k w)"
    show ?thesis
    proof (cases "w = []")
      case True
      with less w show ?thesis by (auto simp: recv_loop_skip_empty)
    next
      case False
      have size: "rx_size (map Seg ?ss) < rx_size (map Seg segs)"
        using rest_segs_size [OF False] w by simp
      have "NL \<notin> set ?c" using less.prems(2) w by (auto dest: in_set_takeD)
      then have l: "?c \<noteq> [] \<Longrightarrow> last ?c \<noteq> NL" by (metis last_in_set)
      have ss: "\<forall>bs\<in>set ?ss. clean bs" "NL \<notin> set (concat ?ss)"
        using less.prems(1,2) w rest_segs_clean
        by (auto, auto simp: rest_segs_def dest: in_set_dropD split: if_splits)
      have step: "recv_loop k False ft rb (map Seg segs @ evs) =
        (if ?c = [] then recv_loop k False ft rb (map Seg ?ss @ evs)
         else recv_loop k False False (rb @ c_str ?c) (map Seg ?ss @ evs))"
        using recv_loop_clean [OF False, of ft rb "map Seg ws @ evs"] less.prems(1,3) w l
        by (simp add: rest_of_segs Let_def)
      show ?thesis
        using less.hyps [OF size ss, of ft rb] less.hyps [OF size ss, of False "rb @ c_str ?c"] less.prems(3)
        by (simp add: step)
    qed
  qed
qed

text \<open>A prompt read takes the first buffer that is not all idle, newline or not.\<close>

lemma recv_prompt:
  assumes "v \<noteq> []" and "strip (take k v) \<noteq> []"
  shows "recv_loop k True True [] (Seg v # evs) = (RxReply (c_str (strip (take k v))), rest_of v @ evs)"
  using recv_loop_chunk [OF assms, of True True "[]" evs] by (simp add: Let_def)

text \<open>A buffer that ends in a newline ends the reply, whatever is still to come.\<close>

lemma recv_stops_at_newline:
  assumes "length v \<le> k" and "v \<noteq> []" and "last v = NL" and "SYN \<notin> set v" and "NUL \<notin> set v"
  shows "recv_loop k False True [] (Seg v # evs) = (RxReply v, evs)"
proof -
  have "clean v" by (auto simp: clean_iff assms(4) intro!: exI [of _ 0] exI [of _ v])
  then have st: "strip v = v"
    using assms(4) by (simp add: strip_clean) (metis (mono_tags) filter_id_conv)
  with recv_loop_chunk [of v False True "[]" evs] assms show ?thesis
    by (simp add: Let_def rest_of_def c_str_id)
qed

end

end
