(* ===== verification/AtomLib.thy ===== *)
theory AtomLib
  imports Prelude
begin

text \<open>
  The libraries the client calls and the repository does not contain: the AtomSpace (atoms, values,
  atomspaces) and the \<open>Sexpr\<close> coder of atomspace-storage. They are one parameter \<open>L\<close> of every
  definition that uses them. \<open>'h\<close> stands for \<open>Handle\<close> (and for \<open>AtomSpace*\<close>, which the code casts
  to and from \<open>Handle\<close>), with \<open>None\<close> for a null pointer where the code allows one; \<open>'v\<close> for
  \<open>ValuePtr\<close>; \<open>'t\<close> for \<open>Type\<close>; \<open>'w\<close> for the state of the client's atomspaces.

  Positions in strings are \<open>size_t\<close>. A decoder that moves its \<open>size_t&\<close> argument returns the new
  position, and one that throws returns the text of the exception.
\<close>

record ('h, 'v, 't, 'w) atomlib =
  get_type :: "'h \<Rightarrow> 't"
  getTypeName :: "'t \<Rightarrow> string"
  is_node :: "'h \<Rightarrow> bool"
  get_name :: "'h \<Rightarrow> string"
  getOutgoingSet :: "'h \<Rightarrow> 'h list"
  getAtomSpace :: "'w \<Rightarrow> 'h \<Rightarrow> 'h option"
  haveValues :: "'w \<Rightarrow> 'h \<Rightarrow> bool"
  getValue :: "'w \<Rightarrow> 'h \<Rightarrow> 'h \<Rightarrow> 'v"
  setValue :: "'h \<Rightarrow> 'h \<Rightarrow> 'v \<Rightarrow> 'w \<Rightarrow> 'w"
  add_nocheck :: "'h option \<Rightarrow> 'h \<Rightarrow> 'w \<Rightarrow> 'h \<times> 'w"
  as_add_atoms :: "'h \<Rightarrow> 'v \<Rightarrow> 'w \<Rightarrow> 'v \<times> 'w"       \<comment> \<open>\<open>as->add_atoms(v)\<close>\<close>
  sexpr_add_atoms :: "'h \<Rightarrow> 'v \<Rightarrow> 'w \<Rightarrow> 'v \<times> 'w"    \<comment> \<open>\<open>Sexpr::add_atoms(as, v)\<close>\<close>
  all_atoms :: "'w \<Rightarrow> 'h \<Rightarrow> 'h list"               \<comment> \<open>\<open>get_handles_by_type(_, ATOM, true)\<close>\<close>
  encode_atom :: "'w \<Rightarrow> 'h \<Rightarrow> bool \<Rightarrow> string"
  encode_atom_values :: "'w \<Rightarrow> 'h \<Rightarrow> string"
  encode_value :: "'v \<Rightarrow> string"
  decode_atom :: "string \<Rightarrow> nat \<Rightarrow> string + ('h \<times> nat)"
  decode_value :: "string \<Rightarrow> nat \<Rightarrow> string + ('v \<times> nat)"
  get_next_expr :: "string \<Rightarrow> nat \<Rightarrow> nat \<Rightarrow> string + (int \<times> nat \<times> nat)"
  decode_atom_in :: "string \<Rightarrow> nat \<Rightarrow> nat \<Rightarrow> (string, 'h) umap \<Rightarrow> string + ('h \<times> (string, 'h) umap)"
  encode_frame :: "'h \<Rightarrow> string"
  decode_frame :: "string \<Rightarrow> nat \<Rightarrow> (string, 'h) umap \<Rightarrow> string + ('h \<times> (string, 'h) umap)"
  stack_depth :: nat                               \<comment> \<open>nested calls the thread's stack can hold\<close>

text \<open>A library call that changes the client's atomspaces and returns a value.\<close>

definition lib_call :: "('w \<Rightarrow> 'a \<times> 'w) \<Rightarrow> ('w, 'a) io" where
  "lib_call f w = (case f w of (x, w') \<Rightarrow> (Inr x, w'))"

text \<open>A decoder call, whose exception passes through the caller.\<close>

definition lift_lib :: "string + 'a \<Rightarrow> ('s, 'a) io" where
  "lift_lib r s = (case r of Inl e \<Rightarrow> (Inl (LibraryThrow e), s) | Inr x \<Rightarrow> (Inr x, s))"

lemma wp_lift_lib [wp_rules]:
  "wp (lift_lib r) Q E s = (case r of Inl e \<Rightarrow> E (LibraryThrow e) s | Inr x \<Rightarrow> Q x s)"
  by (simp add: wp_def lift_lib_def split: sum.splits)

lemma lift_lib_run [io_simps]: "r = Inr x \<Longrightarrow> lift_lib r s = (Inr x, s)"
  by (simp add: lift_lib_def)

lemma keeps_lift_lib: "(\<And>e. K (LibraryThrow e)) \<Longrightarrow> keeps I K (lift_lib r)"
  by (simp add: keeps_def wp_lift_lib split: sum.splits)

lemma wp_lib_call [wp_rules]: "wp (lib_call f) Q E w = (case f w of (x, w') \<Rightarrow> Q x w')"
  by (simp add: wp_def lib_call_def split: prod.splits)

lemma keeps_lib_call: "keeps (\<lambda>_. True) K (lib_call f)"
  by (simp add: keeps_def wp_lib_call split: prod.splits)

lemma lib_call_run [io_simps]: "f w = (x, w') \<Longrightarrow> lib_call f w = (Inr x, w')"
  by (simp add: lib_call_def)

end
