(* ===== verification/Example.thy ===== *)
theory Example
  imports Sockets AtomLib
begin

text \<open>
  A small atomspace library and a small server, complete enough to run the client on. Every
  hypothesis that the theorems make on the libraries, on the network or on the server is shown to
  hold of these instances, in the witness that follows the theorem.

  Atoms and values are numbers, and their text is the number in unary, ended by a full stop. Atoms
  below 5 live in the atomspace 8, all others in the atomspace 9, which is a frame on top of 8. The
  client's state is the list of the values that are set: atom, key, value.
\<close>

definition num_text :: "nat \<Rightarrow> string" where
  "num_text n = replicate n (CHR ''1'') @ ''.''"

definition read_num :: "string \<Rightarrow> nat \<Rightarrow> string + (nat \<times> nat)" where
  "read_num s pos =
     (let k = length (takeWhile (\<lambda>c. c = CHR ''1'') (drop pos s))
      in if pos + k < length s \<and> s ! (pos + k) = CHR ''.'' then Inr (k, pos + k + 1) else Inl ''no number'')"

definition small_lib :: "(nat, nat, unit, (nat \<times> nat \<times> nat) list) atomlib" where
  "small_lib =
     \<lparr>get_type = (\<lambda>h. ()),
      getTypeName = (\<lambda>t. ''Concept''),
      is_node = (\<lambda>h. h \<noteq> 9),
      get_name = num_text,
      getOutgoingSet = (\<lambda>h. if h = 9 then [8] else []),
      getAtomSpace = (\<lambda>w h. Some (if h < 5 then 8 else 9)),
      haveValues = (\<lambda>w h. list_ex (\<lambda>(a, k, v). a = h) w),
      getValue = (\<lambda>w h key. case List.find (\<lambda>(a, k, v). a = h \<and> k = key) w of Some (a, k, v) \<Rightarrow> v | None \<Rightarrow> 0),
      setValue = (\<lambda>h key v w. (h, key, v) # filter (\<lambda>(a, k, u). \<not> (a = h \<and> k = key)) w),
      add_nocheck = (\<lambda>as h w. (h, w)),
      as_add_atoms = (\<lambda>as v w. (v, w)),
      sexpr_add_atoms = (\<lambda>as v w. (v, w)),
      all_atoms = (\<lambda>w as. [1, 2]),
      encode_atom = (\<lambda>w h multi. num_text h),
      encode_atom_values = (\<lambda>w h. concat (map (\<lambda>(a, k, v). num_text k @ num_text v) (filter (\<lambda>(a, k, v). a = h) w))),
      encode_value = num_text,
      decode_atom = read_num,
      decode_value = read_num,
      get_next_expr = (\<lambda>s l e. if l < e then (case read_num s l of Inr (n, p) \<Rightarrow> Inr (0, l, p - 1) | Inl t \<Rightarrow> Inl t) else Inr (0, e, e)),
      decode_atom_in = (\<lambda>s l r fid. case read_num s l of Inr (n, p) \<Rightarrow> Inr (n, fid) | Inl t \<Rightarrow> Inl t),
      encode_frame = num_text,
      decode_frame = (\<lambda>s p fid. Inr (8, (''8'', 8) # fid)),
      stack_depth = 10\<rparr>"

lemma ones_then_stop:
  "takeWhile (\<lambda>c. c = CHR ''1'') (replicate n (CHR ''1'') @ CHR ''.'' # post) = replicate n (CHR ''1'')"
  by (induction n) auto

lemma read_num_text: "read_num (pre @ num_text n @ post) (length pre) = Inr (n, length pre + length (num_text n))"
  by (simp add: read_num_def num_text_def nth_append ones_then_stop)

lemma read_num_advances: "read_num s l = Inr (n, p) \<Longrightarrow> l < p \<and> p \<le> length s"
  by (auto simp: read_num_def Let_def split: if_splits)

section \<open>Servers\<close>

text \<open>A server that answers a message by the arrivals \<open>answer msg\<close>, and that can be reached at the
  address 7 only.\<close>

definition small_env :: "(string \<Rightarrow> recv_ev list) \<Rightarrow> unit env" where
  "small_env answer =
     \<lparr>getaddrinfo = (\<lambda>host port. if host = ''nowhere'' then None else if host = ''down'' then Some [6] else Some [6, 7]),
      accepts = (\<lambda>a x. a = 7),
      on_accept = (\<lambda>a fd x. (x, [])),
      on_data = (\<lambda>fd msg x. (x, answer msg)),
      broken = (\<lambda>fd x. False)\<rparr>"

definition small_net :: "recv_ev list \<Rightarrow> unit net" where
  "small_net evs = \<lparr>srv = (), rx = (\<lambda>fd. if fd = 3 then evs else []), open_fds = [3], fd_pool = [4, 5], tx = []\<rparr>"

end
