(* ===== verification/LineClient.thy ===== *)
theory LineClient
  imports Framing Example
begin

text \<open>
  The request and reply discipline that both storage nodes keep on a socket, stated once. A client
  that sends a whole message and receives one line (the locale \<open>line_client\<close>) stays in step with a
  server that keeps to the protocol. \<open>SimpleStorage\<close> interprets the locale on the methods of the
  single-socket node, and \<open>Channel\<close> on those of a worker thread.
\<close>

section \<open>The protocol\<close>

text \<open>The commands the server does not answer.\<close>

definition noreply_commands :: "string list" where
  "noreply_commands =
     [''(cog-set-value! '', ''(cog-set-values! '', ''(cog-update-value! '', ''(cog-barrier '', ''(define '']"

definition noreply :: "string \<Rightarrow> bool" where
  "noreply msg \<longleftrightarrow> list_ex (\<lambda>p. prefix p msg) noreply_commands"

definition wants_reply :: "string \<Rightarrow> bool" where
  "wants_reply msg \<longleftrightarrow> prefix ''('' msg \<and> \<not> noreply msg"

text \<open>The server keeps to the protocol: the connection stays up, a command that wants a reply gets
  exactly one line, and the others get nothing. What it sends before the first command, the prompt,
  is not a line and not part of this.\<close>

definition protocol :: "'srv env \<Rightarrow> bool" where
  "protocol E \<longleftrightarrow>
     (\<forall>fd msg x. \<not> broken E fd x \<and>
        (wants_reply msg \<longrightarrow> (\<exists>m. is_reply (snd (on_data E fd msg x)) m)) \<and>
        (noreply msg \<longrightarrow> snd (on_data E fd msg x) = []))"

lemma protocolD:
  assumes "protocol E" and "on_data E fd msg x = (x', evs)"
  shows "\<not> broken E fd x" "wants_reply msg \<Longrightarrow> \<exists>m. is_reply evs m" "noreply msg \<Longrightarrow> evs = []"
proof -
  from assms(1) have "\<not> broken E fd x \<and>
      (wants_reply msg \<longrightarrow> (\<exists>m. is_reply (snd (on_data E fd msg x)) m)) \<and>
      (noreply msg \<longrightarrow> snd (on_data E fd msg x) = [])"
    unfolding protocol_def by (elim allE)
  with assms(2) show "\<not> broken E fd x" "wants_reply msg \<Longrightarrow> \<exists>m. is_reply evs m" "noreply msg \<Longrightarrow> evs = []"
    by auto
qed

lemma noreply_iff:
  "noreply msg \<longleftrightarrow> prefix ''(cog-set-value! '' msg \<or> prefix ''(cog-set-values! '' msg \<or>
     prefix ''(cog-update-value! '' msg \<or> prefix ''(cog-barrier '' msg \<or> prefix ''(define '' msg"
  by (simp add: noreply_def noreply_commands_def)

lemmas wants_reply_iff = wants_reply_def noreply_iff

text \<open>A server that answers every command as the protocol asks.\<close>

definition small_answer :: "string \<Rightarrow> recv_ev list" where
  "small_answer msg = (if wants_reply msg then [Seg (''()'' @ [NL])] else [])"

lemma small_protocol: "protocol (small_env small_answer)"
proof -
  have "is_reply [Seg (''()'' @ [NL])] (''()'' @ [NL])"
    by (simp add: is_reply_def clean_def strip_def lstrip_def rstrip_def SYN_def NL_def NUL_def)
  then show ?thesis
    unfolding protocol_def by (auto simp: small_env_def small_answer_def wants_reply_def)
qed

section \<open>Clients\<close>

text \<open>What one send leaves behind.\<close>

definition sent :: "int \<Rightarrow> string \<Rightarrow> 'srv \<Rightarrow> recv_ev list \<Rightarrow> 'srv net \<Rightarrow> 'srv net" where
  "sent fd msg x evs n = n\<lparr>srv := x, rx := (rx n)(fd := rx n fd @ evs), tx := tx n @ [(fd, msg)]\<rparr>"

locale line_client =
  fixes fd_of :: "'s \<Rightarrow> int"
    and net_of :: "'s \<Rightarrow> 'srv net"
    and put_net :: "'srv net \<Rightarrow> 's \<Rightarrow> 's"
    and E :: "'srv env"
    and send_line :: "string \<Rightarrow> ('s, unit) io"
    and recv_line :: "('s, string) io"
  assumes put_get: "net_of (put_net n s) = n" "fd_of (put_net n s) = fd_of s" "put_net n (put_net n' s) = put_net n s"
    and send_run: "0 < fd_of s \<Longrightarrow> fd_of s \<in> set (open_fds (net_of s)) \<Longrightarrow> idle_only (rx (net_of s) (fd_of s)) \<Longrightarrow>
      \<not> broken E (fd_of s) (srv (net_of s)) \<Longrightarrow> on_data E (fd_of s) msg (srv (net_of s)) = (x, evs) \<Longrightarrow>
      send_line msg s = (Inr (), put_net (sent (fd_of s) msg x evs (net_of s)) s)"
    and recv_run: "0 < fd_of s \<Longrightarrow> fd_of s \<in> set (open_fds (net_of s)) \<Longrightarrow>
      rx (net_of s) (fd_of s) = pre @ rs \<Longrightarrow> idle_only pre \<Longrightarrow> is_reply rs m \<Longrightarrow>
      \<exists>idle. recv_line s = (Inr m, put_net (set_rx (fd_of s) idle (net_of s)) s) \<and> idle_only idle"
begin

text \<open>The socket is open and nothing but idle bytes waits on it.\<close>

definition in_step :: "'s \<Rightarrow> bool" where
  "in_step s \<longleftrightarrow> 0 < fd_of s \<and> fd_of s \<in> set (open_fds (net_of s)) \<and> idle_only (rx (net_of s) (fd_of s))"

lemma wp_send_noreply:
  assumes "protocol E" and "in_step s" and "noreply msg"
    and "\<And>n. in_step (put_net n s) \<Longrightarrow> tx n = tx (net_of s) @ [(fd_of s, msg)] \<Longrightarrow> Q () (put_net n s)"
  shows "wp (send_line msg) Q F s"
proof -
  obtain x evs where d: "on_data E (fd_of s) msg (srv (net_of s)) = (x, evs)" by fastforce
  let ?n = "sent (fd_of s) msg x evs (net_of s)"
  have "in_step (put_net ?n s)" "tx ?n = tx (net_of s) @ [(fd_of s, msg)]"
    using assms(2) protocolD(3) [OF assms(1) d assms(3)] by (auto simp: in_step_def sent_def put_get)
  from assms(4) [OF this] send_run [OF _ _ _ protocolD(1) [OF assms(1) d] d] assms(2) show ?thesis
    by (simp add: wp_def in_step_def)
qed

text \<open>A request and its reply, as one step.\<close>

lemma wp_exchange:
  assumes "protocol E" and "in_step s" and "wants_reply msg"
    and "\<And>n m. in_step (put_net n s) \<Longrightarrow> tx n = tx (net_of s) @ [(fd_of s, msg)] \<Longrightarrow>
           is_reply (snd (on_data E (fd_of s) msg (srv (net_of s)))) m \<Longrightarrow>
           srv n = fst (on_data E (fd_of s) msg (srv (net_of s))) \<Longrightarrow>
           wp (k m) Q F (put_net n s)"
  shows "wp (seq (send_line msg) (bnd recv_line k)) Q F s"
proof -
  obtain x evs where d: "on_data E (fd_of s) msg (srv (net_of s)) = (x, evs)" by fastforce
  from protocolD(2) [OF assms(1) d assms(3)] obtain m where m: "is_reply evs m" ..
  let ?n = "sent (fd_of s) msg x evs (net_of s)"
  have sent: "send_line msg s = (Inr (), put_net ?n s)"
    using assms(2) send_run [OF _ _ _ protocolD(1) [OF assms(1) d] d] by (simp add: in_step_def)
  have "\<exists>idle. recv_line (put_net ?n s) = (Inr m, put_net (set_rx (fd_of (put_net ?n s)) idle (net_of (put_net ?n s))) (put_net ?n s))
      \<and> idle_only idle"
    using assms(2) by (intro recv_run [OF _ _ _ _ m]) (auto simp: in_step_def sent_def put_get)
  then obtain idle where r: "recv_line (put_net ?n s) = (Inr m, put_net (set_rx (fd_of s) idle ?n) s)" "idle_only idle"
    by (auto simp: put_get)
  let ?n' = "set_rx (fd_of s) idle ?n"
  have "in_step (put_net ?n' s)" "tx ?n' = tx (net_of s) @ [(fd_of s, msg)]" "srv ?n' = x"
    using assms(2) r(2) by (auto simp: in_step_def set_rx_def sent_def put_get)
  from assms(4) [OF this(1,2)] m d this(3) have "wp (k m) Q F (put_net ?n' s)" by simp
  then show ?thesis using sent r(1) by (simp add: wp_def seq_def bnd_def)
qed

lemma keeps_send_noreply: "protocol E \<Longrightarrow> noreply msg \<Longrightarrow> keeps in_step K (send_line msg)"
  by (rule keepsI) (rule wp_send_noreply)

lemma keeps_exchange:
  assumes "protocol E" and "wants_reply msg" and "\<And>m. keeps in_step K (k m)"
  shows "keeps in_step K (seq (send_line msg) (bnd recv_line k))"
  by (rule keepsI, rule wp_exchange [OF assms(1) _ assms(2)]) (use assms(3) in \<open>auto dest: keepsD\<close>)

end

end
