(* ===== verification/Uri.thy ===== *)
theory Uri
  imports Prelude
begin

text \<open>
  The \<open>cog://host:port/name\<close> addresses: the check in the two constructors
  (\<open>CogSimpleStorage::init\<close>, \<open>CogStorage::init\<close>) and the host and port the two \<open>open\<close> methods
  take out of an address (\<open>CogSimpleStorage::open\<close>, \<open>CogChannel::open_connection\<close>).
\<close>

abbreviation scheme :: string where
  "scheme \<equiv> ''cog://''"

definition URIX_LEN :: nat where
  "URIX_LEN = 6"

definition DEFAULT_COGSERVER_PORT :: string where
  "DEFAULT_COGSERVER_PORT = ''17001''"

section \<open>The constructors\<close>

text \<open>The result is the value of \<open>_uri\<close>; a failure is the exception the constructor throws. The
  body of the \<open>while\<close> loop throws, so the loop is one test.\<close>

definition simple_init :: "string \<Rightarrow> cxx_fail + string" where
  "simple_init uri =
     (if \<not> strncmp_eq URIX_LEN uri scheme then Inl (IOException (UnknownURI (c_str uri)))
      else
        let uri0 = c_str uri;
            parg = find_char (CHR ''?'') uri0 0
        in if parg \<noteq> npos
           then let args = drop (parg + 1) uri0;
                    pamp = find_char (CHR ''&'') args 0
                in if pamp \<noteq> npos
                   then Inl (IOException (UnknownConfiguration (take pamp args)))
                   else Inl (IOException (UnknownConfiguration args))
           else Inr uri0)"

definition cog_init :: "string \<Rightarrow> cxx_fail + string" where
  "cog_init uri =
     (if \<not> strncmp_eq URIX_LEN uri scheme then Inl (IOException (UnknownURI (c_str uri)))
      else
        let uri0 = c_str uri;
            parg = find_char (CHR ''?'') uri0 0
        in if parg \<noteq> npos
           then let args = drop (parg + 1) uri0;
                    pamp = find_char (CHR ''&'') args 0
                in if pamp \<noteq> npos
                   then Inl (IOException (UnknownConfiguration (take pamp args)))
                   else Inl (IOException (UnknownConfiguration args))
           else Inr uri0)"

section \<open>Host and port\<close>

text \<open>The part of \<open>CogSimpleStorage::open\<close> before the name lookup.\<close>

definition simple_host_port :: "string \<Rightarrow> string \<times> string" where
  "simple_host_port uri =
     (let host0 = drop URIX_LEN (c_str uri);
          slash = find_first_of '':/'' host0 0;
          host = (if slash \<noteq> npos then take slash host0 else host0);
          colon = find_char (CHR '':'') uri (URIX_LEN + length host);
          port = (if colon \<noteq> npos
                  then let port0 = drop (colon + 1) uri;
                           slash2 = find_char (CHR ''/'') port0 0
                       in if slash2 \<noteq> npos then take slash2 port0 else port0
                  else DEFAULT_COGSERVER_PORT)
      in (host, port))"

text \<open>The loop over the connection arguments in \<open>CogChannel::open_connection\<close>: it cuts the string
  at each ampersand and keeps the rest, which nothing reads.\<close>

function skip_args :: "string \<Rightarrow> string" where
  "skip_args args =
     (let pamp = find_char (CHR ''&'') args 0
      in if pamp \<noteq> npos then skip_args (drop (pamp + 1) args) else args)"
  by pat_completeness auto
termination
proof (relation "measure length")
  fix args :: string and pamp
  assume "pamp = find_char (CHR ''&'') args 0" and "pamp \<noteq> npos"
  then show "(drop (pamp + 1) args, args) \<in> measure length"
    using find_if_hit [of "\<lambda>x. x = CHR ''&''" args 0] by (auto simp: find_char_def)
qed simp

declare skip_args.simps [simp del]

text \<open>\<open>CogChannel::open_connection\<close> down to the name lookup: the values of \<open>_uri\<close>, \<open>_host\<close> and
  \<open>_port\<close>. The host is cut out of the argument, the port out of \<open>_uri\<close>.\<close>

definition chan_host_port :: "string \<Rightarrow> cxx_fail + (string \<times> string \<times> string)" where
  "chan_host_port uri =
     (if \<not> strncmp_eq URIX_LEN uri scheme then Inl (IOException (UnknownURI (c_str uri)))
      else
        let parg = find_char (CHR ''?'') uri 0;
            args = (if parg \<noteq> npos then skip_args (drop (parg + 1) uri) else []);
            uri1 = (if parg \<noteq> npos then take parg uri else uri);
            host0 = drop URIX_LEN uri;
            slash = find_first_of '':/'' host0 0;
            host = (if slash \<noteq> npos then take slash host0 else host0);
            colon = find_char (CHR '':'') uri1 (URIX_LEN + length host);
            port = (if colon \<noteq> npos
                    then let port0 = drop (colon + 1) uri1;
                             slash2 = find_char (CHR ''/'') port0 0
                         in if slash2 \<noteq> npos then take slash2 port0 else port0
                    else DEFAULT_COGSERVER_PORT)
        in Inr (uri1, host, port))"

section \<open>What the constructors accept\<close>

lemma find_char_npos_iff:
  "length s < npos \<Longrightarrow> pos \<le> length s \<Longrightarrow> find_char c s pos = npos \<longleftrightarrow> c \<notin> set (drop pos s)"
  by (auto simp: find_char_def find_if_npos_iff)

lemma strncmp_scheme: "strncmp_eq URIX_LEN uri scheme \<longleftrightarrow> prefix scheme (c_str uri)"
proof -
  have "take 6 (c_str scheme) = scheme" by (simp add: c_str_def NUL_def)
  moreover have "length scheme = 6" by simp
  ultimately show ?thesis
    unfolding strncmp_eq_def URIX_LEN_def prefix_iff_take by (simp only:)
qed

lemma init_accepts:
  assumes "length uri < npos"
  shows "simple_init uri =
    (if \<not> prefix scheme (c_str uri) then Inl (IOException (UnknownURI (c_str uri)))
     else if CHR ''?'' \<in> set (c_str uri)
     then Inl (IOException (UnknownConfiguration
            (takeWhile (\<lambda>c. c \<noteq> CHR ''&'') (tl (dropWhile (\<lambda>c. c \<noteq> CHR ''?'') (c_str uri))))))
     else Inr (c_str uri))"
proof (cases "CHR ''?'' \<in> set (c_str uri)")
  case True
  let ?u = "c_str uri"
  have lu: "length ?u < npos"
    using assms c_str_prefix [of uri] by (meson prefix_length_le order_le_less_trans)
  from True obtain v w where u: "?u = v @ CHR ''?'' # w" "CHR ''?'' \<notin> set v"
    by (metis split_list_first)
  have f: "find_char (CHR ''?'') ?u 0 = length v"
    using find_char_found [of 0 ?u v "CHR ''?''" w] u by simp
  have "length w < npos" "length v \<noteq> npos" using lu u(1) by auto
  moreover from this(1) have "(if find_char (CHR ''&'') w 0 \<noteq> npos
        then Inl (IOException (UnknownConfiguration (take (find_char (CHR ''&'') w 0) w)))
        else Inl (IOException (UnknownConfiguration w)))
      = Inl (IOException (UnknownConfiguration (takeWhile (\<lambda>c. c \<noteq> CHR ''&'') w)))"
    by (rule cut_find_char)
  moreover have "tl (dropWhile (\<lambda>c. c \<noteq> CHR ''?'') ?u) = w" "drop (Suc (length v)) ?u = w"
    using u by simp_all
  ultimately show ?thesis
    using True f by (auto simp: simple_init_def strncmp_scheme Let_def split: if_splits)
next
  case False
  then have "find_char (CHR ''?'') (c_str uri) 0 = npos" by (intro find_char_none) simp
  with False show ?thesis by (simp add: simple_init_def strncmp_scheme Let_def)
qed

lemma inits_agree: "cog_init = simple_init"
  by (rule ext) (simp add: cog_init_def simple_init_def)

section \<open>What the address parts are\<close>

definition uri_host :: "string \<Rightarrow> string" where
  "uri_host r = takeWhile (\<lambda>c. c \<noteq> CHR '':'' \<and> c \<noteq> CHR ''/'') r"

definition uri_port :: "string \<Rightarrow> string" where
  "uri_port r =
     (let t = dropWhile (\<lambda>c. c \<noteq> CHR '':'' \<and> c \<noteq> CHR ''/'') r
      in if CHR '':'' \<in> set t
         then takeWhile (\<lambda>c. c \<noteq> CHR ''/'') (tl (dropWhile (\<lambda>c. c \<noteq> CHR '':'') t))
         else DEFAULT_COGSERVER_PORT)"

text \<open>The host that both \<open>open\<close> methods compute from the text after the scheme.\<close>

lemma host_computed:
  assumes "length r < npos"
  shows "(if find_first_of '':/'' r 0 \<noteq> npos then take (find_first_of '':/'' r 0) r else r) = uri_host r"
proof -
  have "find_first_of '':/'' r 0 = find_if (\<lambda>c. c = CHR '':'' \<or> c = CHR ''/'') r 0"
    by (simp add: find_first_of_def)
  moreover have "uri_host r = takeWhile (\<lambda>c. \<not> (c = CHR '':'' \<or> c = CHR ''/'')) r"
    by (simp add: uri_host_def)
  ultimately show ?thesis using cut_find_if [OF assms, where g = "\<lambda>x. x"] by metis
qed

lemma port_computed:
  assumes "length (scheme @ r) < npos"
  shows "(if find_char (CHR '':'') (scheme @ r) (URIX_LEN + length (uri_host r)) \<noteq> npos
      then let port0 = drop (find_char (CHR '':'') (scheme @ r) (URIX_LEN + length (uri_host r)) + 1) (scheme @ r);
               slash2 = find_char (CHR ''/'') port0 0
           in if slash2 \<noteq> npos then take slash2 port0 else port0
      else DEFAULT_COGSERVER_PORT) = uri_port r"
proof -
  define u p where "u = scheme @ r" and "p = URIX_LEN + length (uri_host r)"
  let ?t = "dropWhile (\<lambda>c. c \<noteq> CHR '':'' \<and> c \<noteq> CHR ''/'') r"
  have dp: "drop p u = ?t"
    by (simp add: u_def p_def URIX_LEN_def uri_host_def dropWhile_eq_drop numeral_eq_Suc)
  have le: "p \<le> length u"
    by (simp add: u_def p_def URIX_LEN_def uri_host_def length_takeWhile_le)
  have "(if find_char (CHR '':'') u p \<noteq> npos
      then let port0 = drop (find_char (CHR '':'') u p + 1) u;
               slash2 = find_char (CHR ''/'') port0 0
           in if slash2 \<noteq> npos then take slash2 port0 else port0
      else DEFAULT_COGSERVER_PORT) = uri_port r"
  proof (cases "CHR '':'' \<in> set ?t")
    case False
    then have "find_char (CHR '':'') u p = npos" by (intro find_char_none) (simp add: dp)
    with False show ?thesis by (simp add: uri_port_def Let_def)
  next
    case True
    then obtain v w where t: "?t = v @ CHR '':'' # w" "CHR '':'' \<notin> set v"
      by (metis split_list_first)
    have f: "find_char (CHR '':'') u p = p + length v"
      by (rule find_char_found [OF le]) (use t dp in auto)
    have "drop (p + length v + 1) u = drop (Suc (length v)) (drop p u)" by (simp add: ac_simps)
    then have d: "drop (p + length v + 1) u = w" by (simp add: dp t)
    have "length u = p + length (v @ CHR '':'' # w)"
      using le by (simp flip: t(1) dp)
    then have "length w < npos" and "p + length v \<noteq> npos" using assms unfolding u_def by auto
    moreover from this(1) have "(if find_char (CHR ''/'') w 0 \<noteq> npos then take (find_char (CHR ''/'') w 0) w else w)
        = takeWhile (\<lambda>c. c \<noteq> CHR ''/'') w"
      by (rule cut_find_char [where g = "\<lambda>x. x"])
    moreover have "uri_port r = takeWhile (\<lambda>c. c \<noteq> CHR ''/'') w"
      using True t by (simp add: uri_port_def Let_def)
    ultimately show ?thesis by (simp only: f d Let_def simp_thms if_True)
  qed
  then show ?thesis unfolding u_def p_def .
qed

lemma simple_host_port_eq:
  assumes "length (scheme @ r) < npos" and "NUL \<notin> set r"
  shows "simple_host_port (scheme @ r) = (uri_host r, uri_port r)"
proof -
  have c: "c_str (scheme @ r) = scheme @ r"
    by (rule c_str_id) (use assms(2) in \<open>auto simp: NUL_def\<close>)
  have d: "drop URIX_LEN (scheme @ r) = r" by (simp add: URIX_LEN_def numeral_eq_Suc)
  have "length r < npos" using assms(1) by simp
  note h = host_computed [OF this]
  show ?thesis
    unfolding simple_host_port_def c d Let_def h
    using port_computed [OF assms(1)] by (simp only: Let_def)
qed

lemma chan_host_port_eq:
  assumes "length (scheme @ r) < npos" and "NUL \<notin> set r" and "CHR ''?'' \<notin> set r"
  shows "chan_host_port (scheme @ r) = Inr (scheme @ r, uri_host r, uri_port r)"
proof -
  have c: "c_str (scheme @ r) = scheme @ r"
    by (rule c_str_id) (use assms(2) in \<open>auto simp: NUL_def\<close>)
  have q: "find_char (CHR ''?'') (scheme @ r) 0 = npos"
    using find_char_npos_iff [OF assms(1), of 0 "CHR ''?''"] assms(3) by simp
  have s: "strncmp_eq URIX_LEN (scheme @ r) scheme" unfolding strncmp_scheme c by (rule prefixI) (rule refl)
  have d: "drop URIX_LEN (scheme @ r) = r" by (simp add: URIX_LEN_def numeral_eq_Suc)
  have "length r < npos" using assms(1) by simp
  note h = host_computed [OF this]
  show ?thesis
    unfolding chan_host_port_def Let_def q d h
    using s port_computed [OF assms(1)] by (simp only: Let_def simp_thms if_True if_False)
qed

section \<open>The documented forms\<close>

lemma uri_host_slash:
  "CHR '':'' \<notin> set host \<Longrightarrow> CHR ''/'' \<notin> set host \<Longrightarrow> uri_host (host @ CHR ''/'' # path) = host"
  "CHR '':'' \<notin> set host \<Longrightarrow> CHR ''/'' \<notin> set host \<Longrightarrow> uri_host (host @ CHR '':'' # path) = host"
  unfolding uri_host_def by (induction host) auto

lemma after_host:
  "CHR '':'' \<notin> set host \<Longrightarrow> CHR ''/'' \<notin> set host \<Longrightarrow>
     dropWhile (\<lambda>c. c \<noteq> CHR '':'' \<and> c \<noteq> CHR ''/'') (host @ c # path) =
     (if c = CHR '':'' \<or> c = CHR ''/'' then c # path else dropWhile (\<lambda>c. c \<noteq> CHR '':'' \<and> c \<noteq> CHR ''/'') (c # path))"
  by (induction host) auto



text \<open>A colon in the name of the atomspace is taken for the port. An address of the documented form
  without a port, whose name has a colon, makes both nodes connect to the text behind that colon.\<close>

lemma uri_colon_in_name:
  assumes "set host \<inter> {CHR '':'', CHR ''/'', CHR ''?'', NUL} = {}" and "set u \<inter> {CHR '':'', CHR ''?'', NUL} = {}"
    and "set v \<inter> {CHR ''/'', CHR ''?'', NUL} = {}" and "length (scheme @ host @ ''/'' @ u @ '':'' @ v) < npos"
  shows "simple_host_port (scheme @ host @ ''/'' @ u @ '':'' @ v) = (host, v) \<and>
    chan_host_port (scheme @ host @ ''/'' @ u @ '':'' @ v) = Inr (scheme @ host @ ''/'' @ u @ '':'' @ v, host, v)"
proof -
  let ?r = "host @ ''/'' @ u @ '':'' @ v"
  have h: "uri_host ?r = host" using assms(1) by (auto simp: uri_host_slash)
  have p: "uri_port ?r = v"
    using assms(1-3) by (auto simp: uri_port_def Let_def after_host takeWhile_eq_all_conv)
  have s: "NUL \<notin> set ?r" "CHR ''?'' \<notin> set ?r" using assms(1-3) by (auto simp: NUL_def)
  show ?thesis
    unfolding simple_host_port_eq [OF assms(4) s(1)] chan_host_port_eq [OF assms(4) s] h p by simp
qed

text \<open>Both constructors accept the same addresses: those that start with \<open>cog://\<close> and have no
  arguments. Everything else is refused with an I/O exception.\<close>

lemma uri_accepted:
  assumes "length uri < npos"
  shows "cog_init uri = simple_init uri \<and>
    (simple_init uri = Inr (c_str uri) \<or> (\<exists>c. simple_init uri = Inl (IOException c))) \<and>
    ((\<exists>u. simple_init uri = Inr u) \<longleftrightarrow> prefix scheme (c_str uri) \<and> CHR ''?'' \<notin> set (c_str uri))"
  using init_accepts [OF assms] by (simp add: inits_agree)

end
