(* ===== verification/Barrier.thy ===== *)
theory Barrier
  imports Prelude "HOL-Library.Word"
begin

text \<open>
  The barrier message of both storage nodes (\<open>CogSimpleStorage::barrier\<close>,
  \<open>CogChannel::barrier\<close>): a 64-bit identifier made of two draws of \<open>std::minstd_rand\<close>, printed
  with \<open>%016lx\<close> into a 64-byte buffer.
\<close>

unbundle bit_operations_syntax

section \<open>The generator\<close>

text \<open>\<open>std::minstd_rand\<close> is the linear congruential generator with multiplier 48271 and modulus
  \<open>2 ^ 31 - 1\<close>; its state after seeding lies between 1 and \<open>2 ^ 31 - 2\<close>.\<close>

definition minstd_m :: nat where
  "minstd_m = 2147483647"

definition minstd_next :: "nat \<Rightarrow> nat" where
  "minstd_next x = (48271 * x) mod minstd_m"

definition rng_ok :: "nat \<Rightarrow> bool" where
  "rng_ok x \<longleftrightarrow> 0 < x \<and> x < minstd_m"

text \<open>\<open>uint64_t rnd = (uint64_t(rng()) << 32) | rng();\<close> with the left operand drawn first.\<close>

definition barrier_rnd :: "nat \<Rightarrow> 64 word \<times> nat" where
  "barrier_rnd x =
     (let a = minstd_next x; b = minstd_next a
      in (push_bit 32 (word_of_nat a) OR word_of_nat b, b))"

section \<open>The message\<close>

definition hex_digit :: "nat \<Rightarrow> char" where
  "hex_digit d = (if d < 10 then char_of (48 + d) else char_of (87 + d))"

text \<open>\<open>%016lx\<close>: sixteen lower-case digits, most significant first.\<close>

definition hex16 :: "64 word \<Rightarrow> string" where
  "hex16 w = map (\<lambda>i. hex_digit (unat (drop_bit (4 * i) w AND 15))) (rev [0..<16])"

text \<open>\<open>snprintf\<close> into a buffer of \<open>n\<close> bytes keeps at most \<open>n - 1\<close> characters.\<close>

definition snprintf :: "nat \<Rightarrow> string \<Rightarrow> string" where
  "snprintf n s = take (n - 1) s"

definition barrier_text :: "string \<Rightarrow> 64 word \<Rightarrow> string" where
  "barrier_text nthreads rnd =
     ''(cog-barrier '' @ nthreads @ '' '' @ [DQ] @ hex16 rnd @ [DQ] @ '')'' @ [NL]"

definition barrier_msg :: "string \<Rightarrow> 64 word \<Rightarrow> string" where
  "barrier_msg nthreads rnd = snprintf 64 (barrier_text nthreads rnd)"

lemma length_hex16 [simp]: "length (hex16 w) = 16"
  by (simp add: hex16_def)

lemma barrier_msg_whole: "length nthreads \<le> 29 \<Longrightarrow> barrier_msg nthreads rnd = barrier_text nthreads rnd"
  by (simp add: barrier_msg_def snprintf_def barrier_text_def)

section \<open>The identifiers differ\<close>

lemma minstd_cancel:
  assumes "(u * c) mod minstd_m = 1" and "(c * x) mod minstd_m = 0" and "x < minstd_m"
  shows "x = 0"
proof -
  have "x = ((u * c) mod minstd_m * x) mod minstd_m" using assms(1,3) by simp
  also have "\<dots> = (u * ((c * x) mod minstd_m)) mod minstd_m" by (simp add: mod_simps ac_simps)
  finally show ?thesis using assms(2) by simp
qed

lemma minstd_rng_ok: "rng_ok x \<Longrightarrow> rng_ok (minstd_next x)"
  using minstd_cancel [of 1899818559 48271 x]
  by (auto simp: rng_ok_def minstd_next_def minstd_m_def intro!: gr0I)

lemma minstd_two_steps: "rng_ok x \<Longrightarrow> minstd_next (minstd_next x) \<noteq> x"
proof
  assume x: "rng_ok x" and eq: "minstd_next (minstd_next x) = x"
  have "(48271 * (48271 * x)) mod minstd_m = x mod minstd_m"
    using eq x by (simp add: minstd_next_def mod_mult_right_eq rng_ok_def)
  then have "minstd_m dvd 48271 * (48271 * x) - x" by (subst (asm) mod_eq_dvd_iff_nat) auto
  then have "(2330089440 * x) mod minstd_m = 0" by (simp add: mod_eq_0_iff_dvd)
  then show False
    using minstd_cancel [of 658005701 2330089440 x] x by (simp add: rng_ok_def minstd_m_def)
qed

lemma rnd_low:
  assumes "rng_ok x"
  shows "unat (take_bit 32 (fst (barrier_rnd x))) = minstd_next (minstd_next x)"
proof -
  have "minstd_next y < 2 ^ 32" for y by (simp add: minstd_next_def minstd_m_def)
  then show ?thesis
    by (simp add: barrier_rnd_def Let_def take_bit_push_bit unsigned_take_bit_eq unsigned_of_nat take_bit_take_bit
        take_bit_nat_eq_self)
qed

lemma rnd_state: "snd (barrier_rnd x) = minstd_next (minstd_next x)"
  by (simp add: barrier_rnd_def Let_def)

text \<open>C38: the barrier messages of both nodes are sent whole and do not repeat: the 64-byte buffer of
  \<open>snprintf\<close> cuts nothing off, the generator stays in its range, and two barriers that follow each
  other in a thread have different identifiers.\<close>

theorem barrier_messages:
  assumes "rng_ok x" and "barrier_rnd x = (r1, x1)" and "barrier_rnd x1 = (r2, x2)"
  shows "rng_ok x2 \<and> r1 \<noteq> r2 \<and> barrier_msg ''1'' r1 = barrier_text ''1'' r1 \<and> barrier_msg ''4'' r1 = barrier_text ''4'' r1 \<and>
    last (barrier_msg ''4'' r1) = NL"
proof -
  have x1: "x1 = minstd_next (minstd_next x)" "x2 = minstd_next (minstd_next x1)"
    using rnd_state assms(2,3) by (metis snd_conv)+
  with assms(1) have ok: "rng_ok x1" "rng_ok x2" by (simp_all add: minstd_rng_ok)
  have "unat (take_bit 32 r1) = x1" "unat (take_bit 32 r2) = x2"
    using rnd_low [OF assms(1)] rnd_low [OF ok(1)] assms(2,3) x1 by simp_all
  moreover have "x1 \<noteq> x2" using minstd_two_steps [OF ok(1)] x1(2) by simp
  ultimately have "r1 \<noteq> r2" by auto
  with ok show ?thesis by (simp add: barrier_msg_whole) (simp add: barrier_text_def)
qed

theorem barrier_messages_witness:
  "fst (barrier_rnd 1) \<noteq> fst (barrier_rnd (snd (barrier_rnd 1)))"
  using barrier_messages [of 1 "fst (barrier_rnd 1)" "snd (barrier_rnd 1)" "fst (barrier_rnd (snd (barrier_rnd 1)))"
      "snd (barrier_rnd (snd (barrier_rnd 1)))"]
  by (simp add: rng_ok_def minstd_m_def)

end
