(* ===== verification/SimpleStorage.thy ===== *)
theory SimpleStorage
  imports LineClient Uri Barrier Example
begin

text \<open>
  \<open>cog-simple/CogSimpleStorage.cc\<close>: the connection of the single-socket storage node.

  The record \<open>simple\<close> holds the fields of the class, the \<open>_atom_space\<close> of its base class, the
  state of the thread's random generator, and the two things its methods act on: the sockets and
  the client's atomspaces. Here every method is run to its end before the next one starts; the scopes
  of the mutexes are in \<open>SimpleSteps\<close>, and threads that share a node in \<open>Threads\<close>.
\<close>

record ('h, 'w, 'srv) simple =
  s_uri :: string
  s_sockfd :: int
  s_multi_space :: bool
  s_frame_map :: "('h, string) umap"
  s_fid_map :: "(string, 'h) umap"
  s_atom_space :: "'h option"
  s_rng :: nat
  s_net :: "'srv net"
  s_as :: 'w

type_synonym ('h, 'w, 'srv, 'a) sio = "(('h, 'w, 'srv) simple, 'a) io"

abbreviation on_net :: "('srv net, 'a) io \<Rightarrow> ('h, 'w, 'srv, 'a) sio" where
  "on_net \<equiv> zoom s_net s_net_update"

abbreviation on_as :: "('w, 'a) io \<Rightarrow> ('h, 'w, 'srv, 'a) sio" where
  "on_as \<equiv> zoom s_as s_as_update"

definition set_sockfd :: "int \<Rightarrow> ('h, 'w, 'srv, unit) sio" where
  "set_sockfd fd = modify (s_sockfd_update (\<lambda>_. fd))"

section \<open>Sending and receiving\<close>

definition simple_connected :: "('h, 'w, 'srv) simple \<Rightarrow> bool" where
  "simple_connected s \<longleftrightarrow> 0 < s_sockfd s"

definition simple_do_send :: "'srv env \<Rightarrow> string \<Rightarrow> ('h, 'w, 'srv, unit) sio" where
  "simple_do_send E str =
     bnd (gets simple_connected) (\<lambda>c.
     if \<not> c then throw (IOException NotConnected)
     else
       bnd (gets s_sockfd) (\<lambda>fd.
       bnd (on_net (sys_send E False fd str)) (\<lambda>rc.
       if rc < 0 then throw (IOException UnableToTalk) else ret ())))"

text \<open>\<open>char buf[4097]; recv(_sockfd, buf, 4096, 0)\<close>.\<close>

definition simple_bufsize :: nat where
  "simple_bufsize = 4096"

text \<open>One run of the receive loop on the queue behind \<open>_sockfd\<close>.\<close>

definition simple_recv_loop :: "bool \<Rightarrow> ('h, 'w, 'srv, rx_outcome) sio" where
  "simple_recv_loop garbage s =
     (case recv_loop simple_bufsize garbage True [] (rx_of (s_sockfd s) (s_net s)) of
        (out, evs) \<Rightarrow> (Inr out, s\<lparr>s_net := set_rx (s_sockfd s) evs (s_net s)\<rparr>))"

definition simple_do_recv :: "bool \<Rightarrow> ('h, 'w, 'srv, string) sio" where
  "simple_do_recv garbage =
     bnd (gets simple_connected) (\<lambda>c.
     if \<not> c then throw (IOException NotConnected)
     else
       bnd (simple_recv_loop garbage) (\<lambda>out.
       case out of
         RxReply reply \<Rightarrow> ret reply
       | RxError \<Rightarrow> throw (IOException UnableToTalk)
       | RxClosed \<Rightarrow>
           bnd (gets s_sockfd) (\<lambda>fd.
           seq (on_net (sys_close fd))
           (seq (set_sockfd 0)
           (throw (IOException PeerClosed))))
       | RxBlocked \<Rightarrow> throw Blocked
       | RxBadRead \<Rightarrow> throw OutOfBounds))"

section \<open>Opening and closing\<close>

text \<open>The loop over the addresses; the result says whether it left through \<open>break\<close>.\<close>

fun simple_connect_loop :: "'srv env \<Rightarrow> addrinfo list \<Rightarrow> ('h, 'w, 'srv, bool) sio" where
  "simple_connect_loop E [] = ret False"
| "simple_connect_loop E (p # ps) =
     bnd (on_net sys_socket) (\<lambda>fd.
     seq (set_sockfd fd)
     (if fd < 0 then simple_connect_loop E ps
      else
        bnd (on_net (sys_connect E fd p)) (\<lambda>rc.
        if rc = 0 then ret True
        else
          seq (on_net (sys_close fd))
          (seq (set_sockfd (-1))
          (simple_connect_loop E ps)))))"

definition simple_open :: "'srv env \<Rightarrow> ('h, 'w, 'srv, unit) sio" where
  "simple_open E =
     bnd (gets simple_connected) (\<lambda>c.
     if c then ret ()
     else
       bnd (gets s_uri) (\<lambda>uri.
       case simple_host_port uri of
         (host, port) \<Rightarrow>
           (case getaddrinfo E host port of
              None \<Rightarrow> throw (IOException (UnknownHost host))
            | Some servinfo \<Rightarrow>
                bnd (simple_connect_loop E servinfo) (\<lambda>found.
                if \<not> found then throw (IOException (UnableToConnect host))
                else
                  bnd (gets s_sockfd) (\<lambda>fd.
                  bnd (on_net (sys_send E False fd (''sexpr'' @ [NL]))) (\<lambda>rc.
                  if rc < 0 then throw (IOException (UnableToTalkHost host))
                  else bnd (simple_do_recv True) (\<lambda>_. ret ())))))))"

definition simple_barrier :: "'srv env \<Rightarrow> ('h, 'w, 'srv, unit) sio" where
  "simple_barrier E =
     bnd (gets s_rng) (\<lambda>x.
     case barrier_rnd x of
       (rnd, x') \<Rightarrow>
         seq (modify (s_rng_update (\<lambda>_. x')))
         (simple_do_send E (barrier_msg ''1'' rnd)))"

definition simple_proxy_open :: "'srv env \<Rightarrow> ('h, 'w, 'srv, unit) sio" where
  "simple_proxy_open E =
     seq (simple_do_send E (''(cog-proxy-open)'' @ [NL]))
     (bnd (simple_do_recv False) (\<lambda>_. ret ()))"

definition simple_proxy_close :: "'srv env \<Rightarrow> ('h, 'w, 'srv, unit) sio" where
  "simple_proxy_close E =
     seq (simple_barrier E)
     (seq (simple_do_send E (''(cog-proxy-close)'' @ [NL]))
     (bnd (simple_do_recv False) (\<lambda>_. ret ())))"

definition simple_close :: "'srv env \<Rightarrow> ('h, 'w, 'srv, unit) sio" where
  "simple_close E =
     bnd (gets simple_connected) (\<lambda>c.
     seq (if c
          then seq (simple_proxy_close E)
               (bnd (gets s_sockfd) (\<lambda>fd. on_net (sys_close fd)))
          else ret ())
     (set_sockfd (-1)))"

text \<open>The destructor.\<close>

definition simple_dtor :: "'srv env \<Rightarrow> ('h, 'w, 'srv, unit) sio" where
  "simple_dtor E = noexcept (simple_close E)"

definition simple_monitor :: "('h, 'w, 'srv) simple \<Rightarrow> string" where
  "simple_monitor s = ''Connected to '' @ s_uri s @ [NL]"

text \<open>The constructor; a failure is the exception it throws.\<close>

definition simple_new ::
  "string \<Rightarrow> 'h option \<Rightarrow> nat \<Rightarrow> 'srv net \<Rightarrow> 'w \<Rightarrow> cxx_fail + ('h, 'w, 'srv) simple" where
  "simple_new uri as rng net w =
     (case simple_init uri of
        Inl e \<Rightarrow> Inl e
      | Inr u \<Rightarrow>
          Inr \<lparr>s_uri = u, s_sockfd = -1, s_multi_space = False, s_frame_map = [], s_fid_map = [],
               s_atom_space = as, s_rng = rng, s_net = net, s_as = w\<rparr>)"

section \<open>The stream stays in step\<close>

interpretation sf: framing simple_bufsize
  by unfold_locales (simp add: simple_bufsize_def)

text \<open>The socket is open and nothing but idle bytes waits on it.\<close>

definition in_sync :: "('h, 'w, 'srv) simple \<Rightarrow> bool" where
  "in_sync s \<longleftrightarrow> 0 < s_sockfd s \<and> s_sockfd s \<in> set (open_fds (s_net s)) \<and>
     idle_only (rx (s_net s) (s_sockfd s))"

lemma in_sync_fields [simp]:
  "in_sync (s\<lparr>s_multi_space := b\<rparr>) = in_sync s" "in_sync (s\<lparr>s_frame_map := fm\<rparr>) = in_sync s"
  "in_sync (s\<lparr>s_fid_map := fid\<rparr>) = in_sync s" "in_sync (s\<lparr>s_rng := x\<rparr>) = in_sync s"
  "in_sync (s\<lparr>s_as := w\<rparr>) = in_sync s"
  by (simp_all add: in_sync_def)

lemma in_sync_connected: "in_sync s \<Longrightarrow> simple_connected s"
  by (simp add: in_sync_def simple_connected_def)

lemma do_send_run:
  assumes "in_sync s" and "\<not> broken E (s_sockfd s) (srv (s_net s))"
    and "on_data E (s_sockfd s) msg (srv (s_net s)) = (x, evs)"
  shows "simple_do_send E msg s = (Inr (), s\<lparr>s_net := sent (s_sockfd s) msg x evs (s_net s)\<rparr>)"
  using assms
  by (simp add: simple_do_send_def in_sync_def simple_connected_def bnd_def gets_def zoom_def
      sys_send_def sent_def ret_def)

lemma do_recv_reply_rest:
  assumes "0 < s_sockfd s" and "s_sockfd s \<in> set (open_fds (s_net s))"
    and "rx (s_net s) (s_sockfd s) = pre @ rs @ evs" and "idle_only pre" and "is_reply rs m"
  shows "\<exists>idle. simple_do_recv False s = (Inr m, s\<lparr>s_net := set_rx (s_sockfd s) (idle @ evs) (s_net s)\<rparr>)
    \<and> idle_only idle"
proof -
  from sf.recv_is_reply [OF assms(4,5)] obtain idle where
    r: "recv_loop simple_bufsize False True [] (pre @ rs @ evs) = (RxReply m, idle @ evs)" and "idle_only idle"
    by blast
  with assms(1-3) have "simple_do_recv False s = (Inr m, s\<lparr>s_net := set_rx (s_sockfd s) (idle @ evs) (s_net s)\<rparr>)"
    by (simp add: simple_do_recv_def simple_connected_def simple_recv_loop_def rx_of_def
        bnd_def gets_def ret_def)
  with \<open>idle_only idle\<close> show ?thesis by blast
qed

lemmas do_recv_reply = do_recv_reply_rest [where evs = "[]", simplified]

interpretation sl: line_client s_sockfd "s_net :: ('h, 'w, 'srv) simple \<Rightarrow> 'srv net" "\<lambda>n s. s\<lparr>s_net := n\<rparr>" E
    "simple_do_send E" "simple_do_recv False"
  rewrites "line_client.in_step s_sockfd s_net = in_sync"
  for E :: "'srv env"
proof -
  show lc: "line_client s_sockfd (s_net :: ('h, 'w, 'srv) simple \<Rightarrow> 'srv net) (\<lambda>n s. s\<lparr>s_net := n\<rparr>) E
      (simple_do_send E) (simple_do_recv False)"
    by unfold_locales (auto intro!: do_send_run do_recv_reply simp: in_sync_def)
  show "line_client.in_step s_sockfd s_net = (in_sync :: ('h, 'w, 'srv) simple \<Rightarrow> bool)"
    by (intro ext) (simp add: line_client.in_step_def [OF lc] in_sync_def)
qed

text \<open>Failures that do not come from the connection.\<close>

definition benign :: "cxx_fail \<Rightarrow> bool" where
  "benign e \<longleftrightarrow> e \<notin> {Blocked, Sigpipe, OutOfBounds} \<and> (\<forall>c. e \<noteq> IOException c)"

lemma benign_simps [simp]:
  "benign NullHandle" "benign StackOverflow" "benign Diverges" "benign OutOfRange"
  "benign (LibraryThrow t)" "benign (SyntaxException t)" "\<not> benign (IOException c)"
  by (auto simp: benign_def)

lemmas keeps_send_noreply = sl.keeps_send_noreply [where K = benign]

lemmas keeps_exchange = sl.keeps_exchange [where K = benign]

lemma keeps_sync_modify:
  "(\<And>s. s_sockfd (f s) = s_sockfd s \<and> s_net (f s) = s_net s) \<Longrightarrow> keeps in_sync K (modify f)"
  by (rule keeps_modify) (simp add: in_sync_def)

lemma keeps_on_as: "keeps (\<lambda>_. True) K m \<Longrightarrow> keeps in_sync K (on_as m)"
  by (rule keeps_zoom) auto

lemma barrier_no_reply: "noreply (barrier_msg ''1'' rnd)"
  by (simp add: barrier_msg_whole barrier_text_def noreply_iff)

lemma keeps_barrier: "protocol E \<Longrightarrow> keeps in_sync benign (simple_barrier E)"
  unfolding simple_barrier_def
  by (intro keeps_gets_bnd keeps_pair keeps_seq keeps_sync_modify keeps_send_noreply barrier_no_reply) auto

lemma keeps_proxy_open: "protocol E \<Longrightarrow> keeps in_sync benign (simple_proxy_open E)"
  unfolding simple_proxy_open_def
  by (intro keeps_exchange keeps_ret) (auto simp: wants_reply_iff)

lemma keeps_proxy_close: "protocol E \<Longrightarrow> keeps in_sync benign (simple_proxy_close E)"
  unfolding simple_proxy_close_def
  by (intro keeps_seq keeps_barrier keeps_exchange keeps_ret) (auto simp: wants_reply_iff)

section \<open>Receiving\<close>

text \<open>A connected node of the example, with \<open>evs\<close> waiting on its socket.\<close>

definition small_simple :: "recv_ev list \<Rightarrow> (nat, (nat \<times> nat \<times> nat) list, unit) simple" where
  "small_simple evs =
     \<lparr>s_uri = ''cog://host/'', s_sockfd = 3, s_multi_space = False, s_frame_map = [], s_fid_map = [],
      s_atom_space = Some 8, s_rng = 1, s_net = small_net evs, s_as = []\<rparr>"


text \<open>C2: a reply is reassembled exactly. However the network cuts a one-line reply into segments, and
  whatever idle bytes come before it or at the ends of its segments, \<open>do_recv\<close> returns the line and
  leaves what follows it on the socket, up to idle bytes.\<close>

theorem simple_recv_reassembles:
  assumes "simple_connected s" and "s_sockfd s \<in> set (open_fds (s_net s))"
    and "rx (s_net s) (s_sockfd s) = pre @ rs @ evs" and "idle_only pre" and "is_reply rs m"
  shows "\<exists>idle. idle_only idle \<and>
    simple_do_recv False s = (Inr m, s\<lparr>s_net := set_rx (s_sockfd s) (idle @ evs) (s_net s)\<rparr>)"
  using do_recv_reply_rest [of s, OF _ assms(2-5)] assms(1) by (auto simp: simple_connected_def)

theorem simple_recv_reassembles_witness:
  "\<exists>idle. idle_only idle \<and>
    simple_do_recv False (small_simple [Seg [SYN], Seg (''(a '' @ [SYN]), Seg (SYN # ''b)'' @ [NL]), Seg ''x'']) =
      (Inr (''(a b)'' @ [NL]),
       (small_simple [Seg [SYN], Seg (''(a '' @ [SYN]), Seg (SYN # ''b)'' @ [NL]), Seg ''x''])
         \<lparr>s_net := set_rx 3 (idle @ [Seg ''x''])
            (small_net [Seg [SYN], Seg (''(a '' @ [SYN]), Seg (SYN # ''b)'' @ [NL]), Seg ''x''])\<rparr>)"
  using simple_recv_reassembles [of "small_simple [Seg [SYN], Seg (''(a '' @ [SYN]), Seg (SYN # ''b)'' @ [NL]), Seg ''x'']"
      "[Seg [SYN]]" "[Seg (''(a '' @ [SYN]), Seg (SYN # ''b)'' @ [NL])]" "[Seg ''x'']" "''(a b)'' @ [NL]"]
  by (simp add: small_simple_def small_net_def simple_connected_def idle_only_def is_reply_def
      clean_def strip_def lstrip_def rstrip_def SYN_def NL_def NUL_def)

text \<open>A reply ends at the first buffer that ends in a newline. A reply of several lines, one of
  which ends where a buffer ends, is cut there; the rest stays on the socket and is taken for the
  reply to the next request.\<close>

lemma simple_recv_cut_at_newline:
  assumes "simple_connected s" and "s_sockfd s \<in> set (open_fds (s_net s))"
    and "rx (s_net s) (s_sockfd s) = Seg v # Seg w # evs"
    and "v \<noteq> []" and "length v \<le> simple_bufsize" and "last v = NL" and "SYN \<notin> set v" and "NUL \<notin> set v"
    and "w \<noteq> []" and "length w \<le> simple_bufsize" and "last w = NL" and "SYN \<notin> set w" and "NUL \<notin> set w"
  shows "bnd (simple_do_recv False) (\<lambda>m1. bnd (simple_do_recv False) (\<lambda>m2. ret (m1, m2))) s =
    (Inr (v, w), s\<lparr>s_net := set_rx (s_sockfd s) evs (s_net s)\<rparr>)"
proof -
  have r: "simple_do_recv False t = (Inr u, t\<lparr>s_net := set_rx (s_sockfd t) es (s_net t)\<rparr>)"
    if "0 < s_sockfd t" "s_sockfd t \<in> set (open_fds (s_net t))" "rx (s_net t) (s_sockfd t) = Seg u # es"
      "length u \<le> simple_bufsize" "u \<noteq> []" "last u = NL" "SYN \<notin> set u" "NUL \<notin> set u"
    for t :: "('a, 'b, 'c) simple" and u es
    using that(1-3) sf.recv_stops_at_newline [OF that(4-8)]
    by (simp add: simple_do_recv_def simple_connected_def simple_recv_loop_def rx_of_def bnd_def gets_def ret_def)
  let ?t = "s\<lparr>s_net := set_rx (s_sockfd s) (Seg w # evs) (s_net s)\<rparr>"
  have "simple_do_recv False s = (Inr v, ?t)"
    using assms by (intro r) (auto simp: simple_connected_def)
  moreover have "simple_do_recv False ?t = (Inr w, ?t\<lparr>s_net := set_rx (s_sockfd ?t) evs (s_net ?t)\<rparr>)"
    using assms by (intro r) (auto simp: simple_connected_def set_rx_def)
  ultimately show ?thesis using assms(2) by (simp add: bnd_def ret_def set_rx_def)
qed

text \<open>C32: when the server closes the connection before the newline of a reply has come, \<open>do_recv\<close>
  closes the socket, throws, and leaves the node not connected: every later send throws at once and
  sends nothing.\<close>

theorem simple_recv_peer_closed:
  assumes "simple_connected s" and "s_sockfd s \<in> set (open_fds (s_net s))"
    and "rx (s_net s) (s_sockfd s) = map Seg segs @ Eof # evs"
    and "list_all clean segs" and "NL \<notin> set (concat segs)"
  shows "\<exists>s'. simple_do_recv False s = (Inl (IOException PeerClosed), s') \<and> \<not> simple_connected s' \<and>
    s_sockfd s \<notin> set (open_fds (s_net s')) \<and>
    simple_do_send E msg s' = (Inl (IOException NotConnected), s')"
proof -
  obtain ft rb where "recv_loop simple_bufsize False True [] (map Seg segs @ Eof # evs) =
      recv_loop simple_bufsize False ft rb (Eof # evs)"
    using sf.recv_partial [of segs True "[]" "Eof # evs"] assms(4,5) by (auto simp: list_all_iff)
  then have "recv_loop simple_bufsize False True [] (map Seg segs @ Eof # evs) = (RxClosed, Eof # evs)"
    by (simp add: recv_loop.simps)
  with assms show ?thesis
    by (simp add: simple_do_recv_def simple_do_send_def simple_connected_def simple_recv_loop_def rx_of_def
        bnd_def gets_def throw_def seq_def zoom_def sys_close_def set_sockfd_def modify_def)
qed

theorem simple_recv_peer_closed_witness:
  "\<exists>s'. simple_do_recv False (small_simple [Seg ''(half'', Eof]) = (Inl (IOException PeerClosed), s') \<and>
    \<not> simple_connected s' \<and> 3 \<notin> set (open_fds (s_net s')) \<and>
    simple_do_send (small_env (\<lambda>_. [])) ''(x)'' s' = (Inl (IOException NotConnected), s')"
  using simple_recv_peer_closed [of "small_simple [Seg ''(half'', Eof]" "[''(half'']" "[]" "small_env (\<lambda>_. [])" "''(x)''"]
  by (simp add: small_simple_def small_net_def simple_connected_def clean_def strip_def lstrip_def rstrip_def
      SYN_def NL_def)

section \<open>Opening and closing\<close>

text \<open>The loop over the addresses passes over those that refuse, closing each socket it made.\<close>

lemma connect_loop_refused:
  assumes "\<forall>a\<in>set as. \<not> accepts E a (srv (s_net s))"
    and "set (fd_pool (s_net s)) \<inter> set (open_fds (s_net s)) = {}" and "\<not> simple_connected s"
  shows "\<exists>fd n. (\<forall>bs. simple_connect_loop E (as @ bs) s = simple_connect_loop E bs (s\<lparr>s_sockfd := fd, s_net := n\<rparr>))
    \<and> fd \<le> 0 \<and> srv n = srv (s_net s) \<and> tx n = tx (s_net s) \<and> open_fds n = open_fds (s_net s)
    \<and> fd_pool n = drop (length as) (fd_pool (s_net s))"
  using assms
proof (induction as arbitrary: s)
  case Nil
  then show ?case
    by (intro exI [of _ "s_sockfd s"] exI [of _ "s_net s"]) (simp add: simple_connected_def)
next
  case (Cons a as)
  define step where "step = (case fd_pool (s_net s) of [] \<Rightarrow> s\<lparr>s_sockfd := -1\<rparr>
    | fd # fds \<Rightarrow> if fd < 0 then s\<lparr>s_net := (s_net s)\<lparr>fd_pool := fds\<rparr>, s_sockfd := fd\<rparr>
       else s\<lparr>s_net := (s_net s)\<lparr>fd_pool := fds, rx := (rx (s_net s))(fd := [])\<rparr>, s_sockfd := -1\<rparr>)"
  have step: "simple_connect_loop E (a # bs) s = simple_connect_loop E bs step" for bs
    using Cons.prems
    by (auto simp: step_def sys_socket_def sys_connect_def sys_close_def set_sockfd_def bnd_def seq_def zoom_def
        modify_def split: list.splits)
  have "\<forall>a\<in>set as. \<not> accepts E a (srv (s_net step))" "\<not> simple_connected step"
    "set (fd_pool (s_net step)) \<inter> set (open_fds (s_net step)) = {}"
    using Cons.prems by (auto simp: step_def simple_connected_def split: list.splits)
  from Cons.IH [OF this(1,3,2)] obtain fd n where
    "\<forall>bs. simple_connect_loop E (as @ bs) step = simple_connect_loop E bs (step\<lparr>s_sockfd := fd, s_net := n\<rparr>)"
    "fd \<le> 0" "srv n = srv (s_net step)" "tx n = tx (s_net step)" "open_fds n = open_fds (s_net step)"
    "fd_pool n = drop (length as) (fd_pool (s_net step))" by blast
  moreover have "step\<lparr>s_sockfd := f, s_net := m\<rparr> = s\<lparr>s_sockfd := f, s_net := m\<rparr>"
    "srv (s_net step) = srv (s_net s)" "tx (s_net step) = tx (s_net s)" "open_fds (s_net step) = open_fds (s_net s)"
    "fd_pool (s_net step) = drop 1 (fd_pool (s_net s))" for f m
    by (simp_all add: step_def split: list.split)
  ultimately show ?case
    by (intro exI [of _ fd] exI [of _ n]) (simp add: step del: simple_connect_loop.simps)
qed

lemma connect_loop_returns: "simple_connect_loop E as s \<noteq> (Inl e, s')"
proof (induction as arbitrary: s)
  case (Cons a as)
  then show ?case
    by (auto simp: bnd_def seq_def zoom_def sys_socket_def sys_connect_def sys_close_def set_sockfd_def modify_def
        ret_def split: list.splits prod.splits if_splits)
qed (simp add: ret_def)

lemma open_starts:
  assumes "\<not> simple_connected s" and "simple_host_port (s_uri s) = (host, port)"
    and "getaddrinfo E host port = Some as"
  shows "simple_open E s =
    bnd (simple_connect_loop E as) (\<lambda>found.
      if \<not> found then throw (IOException (UnableToConnect host))
      else bnd (gets s_sockfd) (\<lambda>fd.
           bnd (on_net (sys_send E False fd (''sexpr'' @ [NL]))) (\<lambda>rc.
           if rc < 0 then throw (IOException (UnableToTalkHost host))
           else bnd (simple_do_recv True) (\<lambda>_. ret ())))) s"
  using assms by (simp add: simple_open_def bnd_def gets_def)

text \<open>C31: when the host resolves and none of its addresses accepts, \<open>open\<close> throws, has sent nothing,
  has closed every socket it made, and leaves the node not connected.\<close>

theorem simple_open_refused:
  assumes "\<not> simple_connected s" and "simple_host_port (s_uri s) = (host, port)"
    and "getaddrinfo E host port = Some as" and "\<forall>a\<in>set as. \<not> accepts E a (srv (s_net s))"
    and "set (fd_pool (s_net s)) \<inter> set (open_fds (s_net s)) = {}"
  shows "\<exists>s'. simple_open E s = (Inl (IOException (UnableToConnect host)), s') \<and> \<not> simple_connected s' \<and>
    open_fds (s_net s') = open_fds (s_net s) \<and> tx (s_net s') = tx (s_net s)"
proof -
  from connect_loop_refused [OF assms(4,5,1)] obtain fd n where
    "\<forall>bs. simple_connect_loop E (as @ bs) s = simple_connect_loop E bs (s\<lparr>s_sockfd := fd, s_net := n\<rparr>)"
    and n: "fd \<le> 0" "tx n = tx (s_net s)" "open_fds n = open_fds (s_net s)" by blast
  from this(1) [rule_format, of "[]"] have
    "simple_connect_loop E as s = (Inr False, s\<lparr>s_sockfd := fd, s_net := n\<rparr>)" by (simp add: ret_def)
  with n open_starts [OF assms(1-3)] show ?thesis
    by (simp add: bnd_def throw_def simple_connected_def)
qed

definition small_closed :: "string \<Rightarrow> (nat, (nat \<times> nat \<times> nat) list, unit) simple" where
  "small_closed uri = (small_simple [])\<lparr>s_uri := uri, s_sockfd := -1\<rparr>"

lemma small_closed_simps:
  "\<not> simple_connected (small_closed uri)" "s_uri (small_closed uri) = uri" "s_net (small_closed uri) = small_net []"
  "set (fd_pool (s_net (small_closed uri))) \<inter> set (open_fds (s_net (small_closed uri))) = {}"
  by (simp_all add: small_closed_def small_simple_def simple_connected_def small_net_def)

theorem simple_open_refused_witness:
  "\<exists>s'. simple_open (small_env (\<lambda>_. [])) (small_closed ''cog://down/'') =
      (Inl (IOException (UnableToConnect ''down'')), s') \<and> \<not> simple_connected s' \<and>
    open_fds (s_net s') = [3] \<and> tx (s_net s') = []"
proof -
  have hp: "simple_host_port ''cog://down/'' = (''down'', ''17001'')"
    using simple_host_port_eq [of "''down/''"]
    by (simp add: npos_def NUL_def uri_host_def uri_port_def DEFAULT_COGSERVER_PORT_def)
  show ?thesis
    using simple_open_refused [of "small_closed ''cog://down/''" "''down''" "''17001''" "small_env (\<lambda>_. [])" "[6]"]
    by (simp add: small_closed_simps hp) (simp add: small_env_def small_net_def)
qed

text \<open>The address that accepts, and the exchange that follows.\<close>

lemma open_accepted:
  assumes n: "\<not> simple_connected s" and hp: "simple_host_port (s_uri s) = (host, port)"
    and addrs: "getaddrinfo E host port = Some (as @ a # bs)"
    and refuse: "\<forall>b\<in>set as. \<not> accepts E b (srv (s_net s))" and acc: "accepts E a (srv (s_net s))"
    and pool: "set (fd_pool (s_net s)) \<inter> set (open_fds (s_net s)) = {}"
      "length as < length (fd_pool (s_net s))" "fd = fd_pool (s_net s) ! length as" "0 < fd"
    and acd: "on_accept E a fd (srv (s_net s)) = (x1, evs1)" and up: "\<not> broken E fd x1"
    and dat: "on_data E fd (''sexpr'' @ [NL]) x1 = (x2, evs2)"
  shows "\<exists>s1. simple_open E s = bnd (simple_do_recv True) (\<lambda>_. ret ()) s1 \<and> s_sockfd s1 = fd \<and>
    open_fds (s_net s1) = fd # open_fds (s_net s) \<and> rx (s_net s1) fd = evs1 @ evs2 \<and>
    tx (s_net s1) = tx (s_net s) @ [(fd, ''sexpr'' @ [NL])]"
proof -
  from connect_loop_refused [OF refuse pool(1) n] obtain fd0 m where
    loop: "simple_connect_loop E (as @ a # bs) s = simple_connect_loop E (a # bs) (s\<lparr>s_sockfd := fd0, s_net := m\<rparr>)"
    and m: "srv m = srv (s_net s)" "tx m = tx (s_net s)" "open_fds m = open_fds (s_net s)"
      "fd_pool m = fd # drop (Suc (length as)) (fd_pool (s_net s))"
    using pool(2,3) by (auto simp: Cons_nth_drop_Suc)
  let ?m = "m\<lparr>fd_pool := drop (Suc (length as)) (fd_pool (s_net s)), open_fds := fd # open_fds (s_net s),
      srv := x1, rx := (rx m)(fd := evs1)\<rparr>"
  have "simple_connect_loop E (a # bs) (s\<lparr>s_sockfd := fd0, s_net := m\<rparr>) = (Inr True, s\<lparr>s_sockfd := fd, s_net := ?m\<rparr>)"
    using m acc acd pool(4)
    by (simp add: bnd_def seq_def zoom_def sys_socket_def sys_connect_def set_sockfd_def modify_def ret_def)
  then show ?thesis
    using loop open_starts [OF n hp addrs] pool(4) up dat m
    by (intro exI [of _ "s\<lparr>s_sockfd := fd, s_net := ?m\<lparr>srv := x2, rx := (rx m)(fd := evs1 @ evs2),
          tx := tx (s_net s) @ [(fd, ''sexpr'' @ [NL])]\<rparr>\<rparr>"])
       (simp add: bnd_def gets_def zoom_def sys_send_def del: simple_connect_loop.simps)
qed

lemma open_connects_run:
  assumes n: "\<not> simple_connected s" and hp: "simple_host_port (s_uri s) = (host, port)"
    and addrs: "getaddrinfo E host port = Some (as @ a # bs)"
    and refuse: "\<forall>b\<in>set as. \<not> accepts E b (srv (s_net s))" and acc: "accepts E a (srv (s_net s))"
    and pool: "set (fd_pool (s_net s)) \<inter> set (open_fds (s_net s)) = {}"
      "length as < length (fd_pool (s_net s))" "fd = fd_pool (s_net s) ! length as" "0 < fd"
    and acd: "on_accept E a fd (srv (s_net s)) = (x1, evs1)" and up: "\<not> broken E fd x1"
    and dat: "on_data E fd (''sexpr'' @ [NL]) x1 = (x2, evs2)"
    and prompt: "evs1 @ evs2 = [Seg v]" "v \<noteq> []" "length v \<le> simple_bufsize" "strip v \<noteq> []"
  shows "\<exists>s'. simple_open E s = (Inr (), s') \<and> s_sockfd s' = fd \<and> in_sync s' \<and>
    open_fds (s_net s') = fd # open_fds (s_net s) \<and> tx (s_net s') = tx (s_net s) @ [(fd, ''sexpr'' @ [NL])]"
proof -
  from open_accepted [OF n hp addrs refuse acc pool acd up dat] prompt(1) obtain s1 where
    o: "simple_open E s = bnd (simple_do_recv True) (\<lambda>_. ret ()) s1" and
    s1: "s_sockfd s1 = fd" "open_fds (s_net s1) = fd # open_fds (s_net s)" "rx (s_net s1) fd = [Seg v]"
      "tx (s_net s1) = tx (s_net s) @ [(fd, ''sexpr'' @ [NL])]" by auto
  have "recv_loop simple_bufsize True True [] [Seg v] = (RxReply (c_str (strip v)), [])"
    using sf.recv_prompt [of v "[]"] prompt by (simp add: sf.rest_of_def)
  then show ?thesis
    using s1 pool(4)
    by (simp add: o simple_do_recv_def simple_recv_loop_def simple_connected_def rx_of_def bnd_def gets_def ret_def
        in_sync_def set_rx_def idle_only_def)
qed

text \<open>C23: when an address accepts and the server answers \<open>sexpr\<close> with a prompt, \<open>open\<close> returns. The
  node is connected through the first address that accepts, has sent \<open>sexpr\<close> and nothing else, keeps
  one socket open, and has read the prompt away: the stream is in step for the first request.\<close>

theorem simple_open_connects:
  assumes n: "\<not> simple_connected s" and hp: "simple_host_port (s_uri s) = (host, port)"
    and addrs: "getaddrinfo E host port = Some (as @ a # bs)"
    and refuse: "\<forall>b\<in>set as. \<not> accepts E b (srv (s_net s))" and acc: "accepts E a (srv (s_net s))"
    and pool: "set (fd_pool (s_net s)) \<inter> set (open_fds (s_net s)) = {}"
      "length as < length (fd_pool (s_net s))" "fd = fd_pool (s_net s) ! length as" "0 < fd"
    and acd: "on_accept E a fd (srv (s_net s)) = (x1, evs1)" and up: "\<not> broken E fd x1"
    and dat: "on_data E fd (''sexpr'' @ [NL]) x1 = (x2, evs2)"
    and prompt: "evs1 @ evs2 = [Seg v]" "v \<noteq> []" "length v \<le> simple_bufsize" "strip v \<noteq> []"
  shows "\<exists>s'. simple_open E s = (Inr (), s') \<and> s_sockfd s' = fd \<and> in_sync s' \<and>
    open_fds (s_net s') = fd # open_fds (s_net s) \<and> tx (s_net s') = tx (s_net s) @ [(fd, ''sexpr'' @ [NL])]"
  by (rule open_connects_run) (rule assms)+

lemma small_host_port: "simple_host_port ''cog://host/'' = (''host'', ''17001'')"
  using simple_host_port_eq [of "''host/''"]
  by (simp add: npos_def NUL_def uri_host_def uri_port_def DEFAULT_COGSERVER_PORT_def)

theorem simple_open_connects_witness:
  "\<exists>s'. simple_open (small_env (\<lambda>_. [Seg ''> ''])) (small_closed ''cog://host/'') = (Inr (), s') \<and>
    s_sockfd s' = 5 \<and> in_sync s' \<and> open_fds (s_net s') = [5, 3] \<and> tx (s_net s') = [(5, ''sexpr'' @ [NL])]"
  using simple_open_connects [of "small_closed ''cog://host/''" "''host''" "''17001''" "small_env (\<lambda>_. [Seg ''> ''])"
      "[6]" 7 "[]" 5 "()" "[]" "()" "[Seg ''> '']" "''> ''"]
  by (simp add: small_closed_simps small_host_port)
     (simp add: small_env_def small_net_def simple_bufsize_def strip_def lstrip_def rstrip_def SYN_def)

text \<open>A node can be left half open. When the server accepts but the receive of the prompt fails,
  \<open>open\<close> throws and \<open>_sockfd\<close> keeps the socket: \<open>connected()\<close> says true, and a second \<open>open\<close> returns at
  once as if the session had been set up.\<close>

lemma simple_open_half_open:
  assumes "simple_open E s = (Inl (IOException UnableToTalk), s')"
  shows "simple_connected s' \<and> simple_open E s' = (Inr (), s')"
proof -
  have "simple_connected s'"
    using assms
    by (auto simp: connect_loop_returns simple_open_def bnd_def gets_def ret_def throw_def seq_def zoom_def sys_close_def sys_send_def
        set_sockfd_def modify_def simple_do_recv_def simple_recv_loop_def simple_connected_def
        split: if_splits option.splits prod.splits sum.splits rx_outcome.splits)
  then show ?thesis by (simp add: simple_open_def bnd_def gets_def ret_def)
qed

lemma wp_barrier:
  assumes "protocol E" and "in_sync s"
    and "\<And>x n. in_sync (s\<lparr>s_rng := x, s_net := n\<rparr>) \<Longrightarrow>
           tx n = tx (s_net s) @ [(s_sockfd s, barrier_text ''1'' (fst (barrier_rnd (s_rng s))))] \<Longrightarrow>
           Q () (s\<lparr>s_rng := x, s_net := n\<rparr>)"
  shows "wp (simple_barrier E) Q F s"
proof -
  obtain rnd x where r: "barrier_rnd (s_rng s) = (rnd, x)" by fastforce
  have "wp (simple_do_send E (barrier_msg ''1'' rnd)) Q F (s\<lparr>s_rng := x\<rparr>)"
    by (rule sl.wp_send_noreply [OF assms(1) _ barrier_no_reply])
       (use assms(2) in \<open>auto intro!: assms(3) simp: r barrier_msg_whole\<close>)
  then show ?thesis by (simp add: simple_barrier_def wp_rules r)
qed

lemma wp_proxy_close:
  assumes "protocol E" and "in_sync s"
    and "\<And>x n. in_sync (s\<lparr>s_rng := x, s_net := n\<rparr>) \<Longrightarrow>
           tx n = tx (s_net s) @ [(s_sockfd s, barrier_text ''1'' (fst (barrier_rnd (s_rng s)))),
                                  (s_sockfd s, ''(cog-proxy-close)'' @ [NL])] \<Longrightarrow>
           Q () (s\<lparr>s_rng := x, s_net := n\<rparr>)"
  shows "wp (simple_proxy_close E) Q F s"
  unfolding simple_proxy_close_def wp_seq [of "simple_barrier E"]
proof (rule wp_barrier [OF assms(1,2)], rule sl.wp_exchange [OF assms(1)])
  show "wants_reply (''(cog-proxy-close)'' @ [NL])" by (simp add: wants_reply_iff)
qed (use assms(3) in \<open>simp_all add: wp_ret\<close>)

lemma close_run:
  assumes "protocol E" and "in_sync s"
  shows "\<exists>s'. simple_close E s = (Inr (), s') \<and> \<not> simple_connected s' \<and>
    s_sockfd s \<notin> set (open_fds (s_net s')) \<and>
    tx (s_net s') = tx (s_net s) @
      [(s_sockfd s, barrier_text ''1'' (fst (barrier_rnd (s_rng s)))), (s_sockfd s, ''(cog-proxy-close)'' @ [NL])]"
proof -
  have c: "simple_connected s" using assms(2) by (rule in_sync_connected)
  have "wp (simple_close E) (\<lambda>_ s'. \<not> simple_connected s' \<and> s_sockfd s \<notin> set (open_fds (s_net s')) \<and>
    tx (s_net s') = tx (s_net s) @
      [(s_sockfd s, barrier_text ''1'' (fst (barrier_rnd (s_rng s)))), (s_sockfd s, ''(cog-proxy-close)'' @ [NL])])
    (\<lambda>_ _. False) s"
    unfolding simple_close_def
    by (simp add: wp_bnd wp_seq wp_gets c)
       (rule wp_proxy_close [OF assms], simp add: wp_rules set_sockfd_def simple_connected_def)
  then show ?thesis by (auto simp: wp_def split: prod.splits sum.splits)
qed

text \<open>\<open>close\<close> on an open session with a server that keeps to the protocol sends a barrier and then
  the request to close the proxy, waits for the reply, closes the socket and leaves the node not
  connected.\<close>

lemma simple_close_closes:
  assumes "protocol E" and "in_sync s"
  shows "\<exists>s'. simple_close E s = (Inr (), s') \<and> \<not> simple_connected s' \<and>
    s_sockfd s \<notin> set (open_fds (s_net s')) \<and>
    tx (s_net s') = tx (s_net s) @
      [(s_sockfd s, barrier_text ''1'' (fst (barrier_rnd (s_rng s)))), (s_sockfd s, ''(cog-proxy-close)'' @ [NL])]"
  by (rule close_run) (rule assms)+

lemma small_in_sync: "in_sync (small_simple [])"
  by (simp add: in_sync_def small_simple_def small_net_def idle_only_def)

text \<open>When the server has closed the connection and the node is destroyed, the program ends.
  The destructor calls \<open>close\<close>, which asks the server to close the proxy; the exception that \<open>do_recv\<close>
  throws leaves the destructor.\<close>

lemma simple_dtor_terminates:
  assumes "simple_connected s" and "s_sockfd s \<in> set (open_fds (s_net s))"
    and "rx (s_net s) (s_sockfd s) = Eof # evs" and "\<forall>x. \<not> broken E (s_sockfd s) x"
  shows "fst (simple_dtor E s) = Inl Terminate"
proof -
  obtain rnd x where r: "barrier_rnd (s_rng s) = (rnd, x)" by fastforce
  have eof: "recv_loop simple_bufsize False True [] (Eof # es) = (RxClosed, Eof # es)" for es
    by (simp add: recv_loop.simps)
  show ?thesis
    using assms
    by (simp add: simple_dtor_def noexcept_def simple_close_def simple_proxy_close_def simple_barrier_def r
        simple_do_send_def simple_do_recv_def simple_recv_loop_def simple_connected_def rx_of_def eof
        bnd_def seq_def gets_def ret_def modify_def throw_def zoom_def sys_send_def sys_close_def set_sockfd_def
        split: prod.splits)
qed

end
