(* ===== verification/ListUtils.thy ===== *)
theory ListUtils
  imports Example
begin

text \<open>
  \<open>cog-common/ListUtils.cc\<close>: decoding an association list \<open>((KEY . VALUE)(KEY2 . VALUE2)...)\<close>
  and attaching the values to an atom. The file is included by both storage nodes, so one
  definition serves both.

  The scan keeps its positions as \<open>size_t\<close>, so that \<open>alist.find(" . ", pos) + 3\<close> wraps around
  when the separator is missing. Whether the loop ends depends on the decoders; the fuel is one
  more than the length of the list, which the lemmas show to be enough when the decoders advance.
\<close>

text \<open>The body of the loop once a key and a value are decoded (\<open>as\<close> may be null).\<close>

definition attach_value ::
  "('h, 'v, 't, 'w) atomlib \<Rightarrow> 'h option \<Rightarrow> 'h \<Rightarrow> 'h \<Rightarrow> 'v \<Rightarrow> ('w, unit) io" where
  "attach_value L as atom key val =
     (case as of
        Some a \<Rightarrow>
          bnd (lib_call (add_nocheck L (Some a) key)) (\<lambda>key.
          bnd (lib_call (as_add_atoms L a val)) (\<lambda>val.
          seq (modify (setValue L atom key val))
              (bnd (lib_call (add_nocheck L (Some a) atom)) (\<lambda>_. ret ()))))
      | None \<Rightarrow> modify (setValue L atom key val))"

fun alist_loop ::
  "nat \<Rightarrow> ('h, 'v, 't, 'w) atomlib \<Rightarrow> 'h option \<Rightarrow> 'h \<Rightarrow> string \<Rightarrow> nat \<Rightarrow> ('w, unit) io" where
  "alist_loop 0 L as atom alist pos = throw Diverges"
| "alist_loop (Suc fuel) L as atom alist pos =
     (if pos \<noteq> npos \<and> pos < length alist
      then bnd (lift_lib (decode_atom L alist (size_add pos 1))) (\<lambda>(key, pos1).
           bnd (lift_lib (decode_value L alist (size_add (find_str '' . '' alist pos1) 3))) (\<lambda>(val, pos2).
           seq (attach_value L as atom key val)
               (alist_loop fuel L as atom alist (find_char (CHR ''('') alist pos2))))
      else ret ())"

definition ro_decode_alist ::
  "('h, 'v, 't, 'w) atomlib \<Rightarrow> 'h option \<Rightarrow> 'h \<Rightarrow> string \<Rightarrow> ('w, unit) io" where
  "ro_decode_alist L as atom alist =
     bnd (gets (\<lambda>w. case as of None \<Rightarrow> getAtomSpace L w atom | Some a \<Rightarrow> Some a)) (\<lambda>as.
     let pos = find_first_not_of ('' '' @ [NL] @ [TAB]) alist 0
     in if pos = npos then ret ()
        else if alist ! pos \<noteq> CHR ''('' then throw (SyntaxException alist)
        else alist_loop (Suc (length alist)) L as atom alist
               (find_char (CHR ''('') alist (pos + 1)))"

section \<open>The well-formed case\<close>

text \<open>The text a server sends for a list of pairs, given how it writes keys and values.\<close>

definition pair_text :: "('h \<Rightarrow> string) \<Rightarrow> ('v \<Rightarrow> string) \<Rightarrow> 'h \<times> 'v \<Rightarrow> string" where
  "pair_text ek ev kv = ''('' @ ek (fst kv) @ '' . '' @ ev (snd kv) @ '')''"

definition alist_text :: "('h \<Rightarrow> string) \<Rightarrow> ('v \<Rightarrow> string) \<Rightarrow> ('h \<times> 'v) list \<Rightarrow> string" where
  "alist_text ek ev kvs = ''('' @ concat (map (pair_text ek ev) kvs) @ '')''"

text \<open>The decoders read back what the server writes and stop right after it.\<close>

definition reads_key :: "('h, 'v, 't, 'w) atomlib \<Rightarrow> ('h \<Rightarrow> string) \<Rightarrow> 'h \<Rightarrow> bool" where
  "reads_key L ek k \<longleftrightarrow>
     (\<forall>pre post. decode_atom L (pre @ ek k @ post) (length pre) = Inr (k, length pre + length (ek k)))"

definition reads_value :: "('h, 'v, 't, 'w) atomlib \<Rightarrow> ('v \<Rightarrow> string) \<Rightarrow> 'v \<Rightarrow> bool" where
  "reads_value L ev v \<longleftrightarrow>
     (\<forall>pre post. decode_value L (pre @ ev v @ post) (length pre) = Inr (v, length pre + length (ev v)))"

lemma find_str_here:
  assumes "drop pos s = pat @ t" and "pos \<le> length s"
  shows "find_str pat s pos = pos"
proof -
  have "[pos..<Suc (length s)] = pos # [Suc pos..<Suc (length s)]"
    using assms(2) by (simp add: upt_conv_Cons)
  then show ?thesis using assms(1) by (simp add: find_str_def)
qed

lemma size_add_small: "a + b \<le> npos \<Longrightarrow> size_add a b = a + b"
  by (simp add: size_add_def npos_def)

text \<open>One turn of the loop over a well-formed pair.\<close>

lemma alist_loop_pair:
  assumes alist: "alist = pre @ pair_text ek ev (k, v) @ post" and len: "length alist < npos"
    and k: "reads_key L ek k" and v: "reads_value L ev v"
  shows "alist_loop (Suc fuel) L as atom alist (length pre) =
    seq (attach_value L as atom k v)
        (alist_loop fuel L as atom alist (find_char (CHR ''('') alist (length (pre @ pair_text ek ev (k, v)) - 1)))"
proof -
  let ?p = "pre @ ''(''"
  let ?q = "?p @ ek k" and ?post = "'')'' @ post"
  have a1: "alist = ?p @ ek k @ ('' . '' @ ev v @ ?post)" by (simp add: alist pair_text_def)
  have a2: "alist = (?q @ '' . '') @ ev v @ ?post" by (simp add: alist pair_text_def)
  have s1: "size_add (length pre) 1 = length ?p"
    using len by (subst size_add_small) (auto simp: a1)
  have "decode_atom L (?p @ ek k @ ('' . '' @ ev v @ ?post)) (length ?p) = Inr (k, length ?p + length (ek k))"
    using k unfolding reads_key_def by blast
  then have d1: "decode_atom L alist (length ?p) = Inr (k, length ?q)"
    unfolding a1 by simp
  have f: "find_str '' . '' alist (length ?q) = length ?q"
    by (rule find_str_here [of _ _ _ "ev v @ ?post"]) (simp_all add: a2)
  have s2: "size_add (length ?q) 3 = length (?q @ '' . '')"
    using len by (subst size_add_small) (auto simp: a2)
  have d2: "decode_value L alist (length (?q @ '' . '')) = Inr (v, length (?q @ '' . '') + length (ev v))"
    using v unfolding reads_value_def a2 by blast
  have e: "length (?q @ '' . '') + length (ev v) = length (pre @ pair_text ek ev (k, v)) - 1"
    by (simp add: pair_text_def)
  have "length pre \<noteq> npos" "length pre < length alist" using len by (auto simp: a1)
  then show ?thesis
    by (rule_tac ext) (simp add: s1 d1 f s2 d2 e bnd_def lift_lib_def del: append_assoc length_append One_nat_def)
qed

lemma find_char_skip:
  "drop pos s = x # t \<Longrightarrow> x \<noteq> c \<Longrightarrow> find_char c s pos = find_char c s (Suc pos)"
  by (cases "pos < length s")
     (auto simp: find_char_def find_if_def Let_def drop_Suc simp flip: tl_drop)

lemma find_char_here: "drop pos s = c # t \<Longrightarrow> find_char c s pos = pos"
  by (cases "pos < length s") (auto intro: find_char_found [of pos s "[]", simplified])

lemma alist_loop_pairs:
  assumes "alist = pre @ concat (map (pair_text ek ev) kvs) @ '')'' @ post" and "length alist < npos"
    and "CHR ''('' \<notin> set post" and "\<forall>(k, v)\<in>set kvs. reads_key L ek k \<and> reads_value L ev v"
    and "length kvs < fuel"
  shows "alist_loop fuel L as atom alist (find_char (CHR ''('') alist (length pre)) =
    for_each (\<lambda>(k, v). attach_value L as atom k v) kvs"
  using assms
proof (induction kvs arbitrary: pre fuel)
  case Nil
  then have "find_char (CHR ''('') alist (length pre) = npos" by (intro find_char_none) simp
  with Nil.prems(5) show ?case by (cases fuel) auto
next
  case (Cons kv kvs)
  obtain k v where kv: "kv = (k, v)" by (cases kv)
  obtain n where n: "fuel = Suc n" using Cons.prems(5) by (cases fuel) auto
  let ?t = "concat (map (pair_text ek ev) kvs) @ '')'' @ post" and ?pre = "pre @ pair_text ek ev (k, v)"
  have a: "alist = pre @ pair_text ek ev (k, v) @ ?t" using Cons.prems(1) by (simp add: kv)
  have here: "find_char (CHR ''('') alist (length pre) = length pre"
    by (rule find_char_here) (simp add: a pair_text_def)
  let ?b = "pre @ ''('' @ ek k @ '' . '' @ ev v"
  have "alist = ?b @ CHR '')'' # ?t" and "length ?pre - 1 = length ?b"
    by (simp_all add: a pair_text_def)
  then have "drop (length ?pre - 1) alist = CHR '')'' # ?t" by (metis append_eq_conv_conj)
  from find_char_skip [OF this, of "CHR ''(''"]
  have "find_char (CHR ''('') alist (length ?pre - 1) = find_char (CHR ''('') alist (length ?pre)"
    by (simp add: pair_text_def)
  moreover have "alist_loop n L as atom alist (find_char (CHR ''('') alist (length ?pre)) =
      for_each (\<lambda>(k, v). attach_value L as atom k v) kvs"
    by (rule Cons.IH) (use Cons.prems n in \<open>auto simp: kv\<close>)
  ultimately show ?case
    using alist_loop_pair [OF a Cons.prems(2), of L n as atom] Cons.prems(4) here
    by (simp add: kv n del: alist_loop.simps)
qed

lemma alist_text_length: "length kvs < length (alist_text ek ev kvs)"
  by (induction kvs) (auto simp: alist_text_def pair_text_def)

lemma ro_decode_alist_text:
  assumes "length (alist_text ek ev kvs @ post) < npos"
    and "CHR ''('' \<notin> set post" and "\<forall>(k, v)\<in>set kvs. reads_key L ek k \<and> reads_value L ev v"
  shows "ro_decode_alist L as atom (alist_text ek ev kvs @ post) =
    bnd (gets (\<lambda>w. case as of None \<Rightarrow> getAtomSpace L w atom | Some a \<Rightarrow> Some a))
        (\<lambda>as. for_each (\<lambda>(k, v). attach_value L as atom k v) kvs)"
proof -
  let ?a = "alist_text ek ev kvs @ post"
  have "find_first_not_of ('' '' @ [NL] @ [TAB]) ?a 0 = 0"
    unfolding find_first_not_of_def
    using find_if_found [of 0 ?a "[]" "CHR ''(''" "tl ?a"]
    by (simp add: alist_text_def NL_def TAB_def)
  moreover have "alist_loop (Suc (length ?a)) L as' atom ?a (find_char (CHR ''('') ?a (length ''('')) =
      for_each (\<lambda>(k, v). attach_value L as' atom k v) kvs" for as'
    by (rule alist_loop_pairs [of _ _ ek ev _ post])
       (use assms alist_text_length [of kvs ek ev] in \<open>auto simp: alist_text_def\<close>)
  moreover have "?a ! 0 = CHR ''(''" by (simp add: alist_text_def)
  ultimately show ?thesis
    by (simp add: ro_decode_alist_def npos_def del: alist_loop.simps)
qed

section \<open>How decoding can fail\<close>

lemma keeps_attach_value: "keeps (\<lambda>_. True) K (attach_value L as atom key val)"
  unfolding attach_value_def
  by (intro keeps_rules keeps_lib_call keeps_modify) auto

lemma keeps_alist_loop:
  assumes "\<And>e. K (LibraryThrow e)" and "K Diverges"
  shows "keeps (\<lambda>_. True) K (alist_loop fuel L as atom alist pos)"
proof (induction fuel arbitrary: pos)
  case 0
  with assms show ?case by auto
next
  case (Suc fuel)
  then show ?case
    by (auto intro!: keeps_bnd keeps_seq keeps_pair keeps_lift_lib keeps_attach_value assms)
qed

lemma keeps_ro_decode_alist:
  assumes "\<And>e. K (LibraryThrow e)" and "K Diverges" and "\<And>t. K (SyntaxException t)"
  shows "keeps (\<lambda>_. True) K (ro_decode_alist L as atom alist)"
  unfolding ro_decode_alist_def Let_def
  by (intro keeps_gets_bnd keeps_if keeps_ret keeps_throw keeps_alist_loop assms)

section \<open>What the decoder does\<close>

text \<open>C21: \<open>ro_decode_alist\<close> reads back what the server writes. On the text of a list of pairs, whatever
  the texts of the keys and values are as long as the coder reads each of them back, it attaches
  exactly these pairs, in order, to the atom.\<close>

theorem alist_round_trip:
  assumes "length (alist_text ek ev kvs @ post) < npos" and "CHR ''('' \<notin> set post"
    and "\<forall>(k, v)\<in>set kvs. reads_key L ek k \<and> reads_value L ev v"
  shows "ro_decode_alist L (Some a) atom (alist_text ek ev kvs @ post) w =
    for_each (\<lambda>(k, v). attach_value L (Some a) atom k v) kvs w"
  by (simp add: ro_decode_alist_text [OF assms] bnd_def gets_def)

lemma small_reads: "reads_key small_lib num_text k" "reads_value small_lib num_text v"
  by (simp_all add: reads_key_def reads_value_def small_lib_def read_num_text)

theorem alist_round_trip_witness:
  "ro_decode_alist small_lib (Some 8) 1 (alist_text num_text num_text [(2, 3), (4, 5)] @ [NL]) [] =
    (Inr (), [(1, 4, 5), (1, 2, 3)])"
proof -
  have "length (alist_text num_text num_text [(2, 3), (4, 5)] @ [NL]) < npos"
    by (simp add: alist_text_def pair_text_def num_text_def npos_def)
  then have "ro_decode_alist small_lib (Some 8) 1 (alist_text num_text num_text [(2, 3), (4, 5)] @ [NL]) [] =
      for_each (\<lambda>(k, v). attach_value small_lib (Some 8) 1 k v) [(2, 3), (4, 5)] []"
    by (rule alist_round_trip) (auto simp: NL_def small_reads)
  also have "\<dots> = (Inr (), [(1, 4, 5), (1, 2, 3)])"
    by (simp add: attach_value_def small_lib_def lib_call_def bnd_def seq_def modify_def ret_def)
  finally show ?thesis .
qed

lemma find_in: "List.find P xs = Some x \<Longrightarrow> x \<in> set xs"
  by (induction xs) (auto split: if_splits)

lemma find_str_ge: "find_str pat s pos \<noteq> npos \<Longrightarrow> pos \<le> find_str pat s pos \<and> find_str pat s pos \<le> length s"
  by (cases "List.find (\<lambda>i. prefix pat (drop i s)) [pos..<Suc (length s)]")
     (auto simp: find_str_def simp del: upt_Suc dest!: find_in)

lemma attach_value_returns: "\<exists>w'. attach_value L as atom k v w = (Inr (), w')"
  by (simp add: attach_value_def lib_call_def bnd_def seq_def modify_def ret_def split: option.splits prod.splits)

lemma alist_loop_ends:
  assumes len: "length alist + 3 < npos"
    and key: "\<And>p k q. decode_atom L alist p = Inr (k, q) \<Longrightarrow> p \<le> q \<and> find_str '' . '' alist q \<noteq> npos"
    and val: "\<And>p v q. decode_value L alist p = Inr (v, q) \<Longrightarrow> p \<le> q"
    and "0 < fuel" and "length alist < fuel + pos"
  shows "fst (alist_loop fuel L as atom alist pos w) \<noteq> Inl Diverges"
  using assms(4,5)
proof (induction fuel arbitrary: pos w)
  case (Suc fuel)
  show ?case
  proof (cases "pos < length alist")
    case True
    then have p1: "size_add pos (Suc 0) = Suc pos" using len by (simp add: size_add_def npos_def)
    have "fst (alist_loop fuel L as atom alist (find_char (CHR ''('') alist pos2) w') \<noteq> Inl Diverges"
      if "decode_atom L alist (Suc pos) = Inr (k, pos1)"
        and "decode_value L alist (size_add (find_str '' . '' alist pos1) 3) = Inr (v, pos2)" for k pos1 v pos2 w'
    proof -
      from key [OF that(1)] find_str_ge have "Suc pos \<le> find_str '' . '' alist pos1 \<and> find_str '' . '' alist pos1 \<le> length alist"
        by (meson le_trans)
      moreover from this have "size_add (find_str '' . '' alist pos1) 3 = find_str '' . '' alist pos1 + 3"
        using len by (simp add: size_add_def npos_def)
      ultimately have "Suc pos \<le> pos2" using val [OF that(2)] by simp
      moreover have "find_char (CHR ''('') alist pos2 = npos \<or> pos2 \<le> find_char (CHR ''('') alist pos2"
        unfolding find_char_def using find_if_cases by blast
      ultimately show ?thesis using Suc.prems True len by (intro Suc.IH) auto
    qed
    then show ?thesis
      by (auto simp: p1 bnd_def seq_def lift_lib_def ret_def split: sum.splits prod.splits)
         (metis attach_value_returns Inl_Inr_False prod.inject)
  qed (simp add: ret_def)
qed simp

text \<open>C35: the scan of a reply ends, on any text, as long as the coder does not move backwards and
  every key it accepts is followed by a separator.\<close>

theorem alist_terminates:
  assumes "length alist + 3 < npos"
    and "\<forall>p k q. decode_atom L alist p = Inr (k, q) \<longrightarrow> p \<le> q \<and> find_str '' . '' alist q \<noteq> npos"
    and "\<forall>p v q. decode_value L alist p = Inr (v, q) \<longrightarrow> p \<le> q"
  shows "fst (ro_decode_alist L as atom alist w) \<noteq> Inl Diverges"
  using alist_loop_ends [OF assms(1), of L "Suc (length alist)"] assms(2,3)
  by (auto simp: ro_decode_alist_def bnd_def gets_def ret_def throw_def Let_def)

theorem alist_terminates_witness:
  "fst (ro_decode_alist (small_lib\<lparr>decode_atom := (\<lambda>s p. if p = 2 then Inr (1, 4) else Inl ''no atom'')\<rparr>)
     (Some 8) 1 ''((1. . 1.))'' []) \<noteq> Inl Diverges"
proof -
  have "find_str '' . '' ''((1. . 1.))'' 4 = 4" by (rule find_str_here [of _ _ _ "''1.))''"]) simp_all
  moreover have "(4 :: nat) \<noteq> npos" "length ''((1. . 1.))'' + 3 < npos" by (simp_all add: npos_def)
  ultimately show ?thesis
    by (intro alist_terminates)
       (auto simp: small_lib_def split: if_splits dest: read_num_advances)
qed

text \<open>Without a separator the scan goes wrong. When no \<open>" . "\<close> follows a key, the position wraps
  around (\<open>npos + 3\<close> is 2) and the value is decoded from the start of the reply; if that decoder stops
  before the pair the scan was at, the loop comes back to this pair for ever.\<close>

lemma alist_missing_separator:
  assumes "pos < length alist" and "length alist < npos"
    and "decode_atom L alist (size_add pos 1) = Inr (k, pos1)" and "find_str '' . '' alist pos1 = npos"
    and "decode_value L alist 2 = Inr (v, pos2)" and "find_char (CHR ''('') alist pos2 = pos"
  shows "fst (alist_loop fuel L as atom alist pos w) = Inl Diverges"
proof (induction fuel arbitrary: w)
  case 0
  show ?case by (simp add: throw_def)
next
  case (Suc fuel)
  have wrap: "size_add npos 3 = 2" by (simp add: size_add_def npos_def)
  obtain w' where "attach_value L as atom k v w = (Inr (), w')" using attach_value_returns by metis
  with assms wrap Suc show ?case by (simp add: bnd_def seq_def lift_lib_def)
qed

end
