(* ===== verification/SimpleIO.thy ===== *)
theory SimpleIO
  imports SimpleStorage ListUtils
begin

text \<open>
  \<open>cog-simple/CogSimpleIO.cc\<close>: the store, fetch, query and frame operations of the single-socket
  storage node. Each definition is one method; the request texts are definitions of their own, so
  that they can be compared with those of the other storage node.
\<close>

section \<open>Texts\<close>

definition SQ :: char where "SQ = CHR 0x27"

definition quoted :: "string \<Rightarrow> string" where
  "quoted s = [DQ] @ s @ [DQ]"

definition space_shorty :: "string \<Rightarrow> string" where
  "space_shorty name = ''(AtomSpace '' @ quoted name @ '')''"

definition simple_storeAtom_msg :: "('h, 'v, 't, 'w) atomlib \<Rightarrow> 'w \<Rightarrow> bool \<Rightarrow> 'h \<Rightarrow> string" where
  "simple_storeAtom_msg L w multi h =
     (if haveValues L w h
      then ''(cog-set-values! '' @ encode_atom L w h multi @ encode_atom_values L w h @ '')'' @ [NL]
      else ''(cog-set-value! '' @ encode_atom L w h multi @
           ''(Predicate '' @ quoted ''*-TruthValueKey-*'' @ '') #f)'' @ [NL])"

definition simple_storeValue_msg ::
  "('h, 'v, 't, 'w) atomlib \<Rightarrow> 'w \<Rightarrow> bool \<Rightarrow> 'h \<Rightarrow> 'h \<Rightarrow> string" where
  "simple_storeValue_msg L w multi h key =
     ''(cog-set-value! '' @ encode_atom L w h False @ encode_atom L w key multi @
     encode_value L (getValue L w h key) @ '')'' @ [NL]"

definition simple_updateValue_msg ::
  "('h, 'v, 't, 'w) atomlib \<Rightarrow> 'w \<Rightarrow> bool \<Rightarrow> 'h \<Rightarrow> 'h \<Rightarrow> 'v \<Rightarrow> string" where
  "simple_updateValue_msg L w multi h key delta =
     ''(cog-update-value! '' @ encode_atom L w h False @ encode_atom L w key multi @
     encode_value L delta @ '')'' @ [NL]"

definition simple_loadValue_msg :: "('h, 'v, 't, 'w) atomlib \<Rightarrow> 'w \<Rightarrow> 'h \<Rightarrow> 'h \<Rightarrow> string" where
  "simple_loadValue_msg L w h key =
     ''(cog-value '' @ encode_atom L w h False @ encode_atom L w key False @ '')'' @ [NL]"

definition simple_removeAtom_msg :: "('h, 'v, 't, 'w) atomlib \<Rightarrow> 'w \<Rightarrow> 'h \<Rightarrow> bool \<Rightarrow> string" where
  "simple_removeAtom_msg L w h recursive =
     (if recursive then ''(cog-extract-recursive! '' @ encode_atom L w h False @ '')'' @ [NL]
      else ''(cog-extract! '' @ encode_atom L w h False @ '')'' @ [NL])"

definition simple_typena :: "('h, 'v, 't, 'w) atomlib \<Rightarrow> 'w \<Rightarrow> 'h \<Rightarrow> string" where
  "simple_typena L w h =
     getTypeName L (get_type L h) @ '' '' @
     (if is_node L h then quoted (get_name L h)
      else concat (map (\<lambda>ho. encode_atom L w ho False) (getOutgoingSet L h)))"

definition simple_iknow_msg :: "('h, 'v, 't, 'w) atomlib \<Rightarrow> 'w \<Rightarrow> 'h \<Rightarrow> string" where
  "simple_iknow_msg L w h =
     (if is_node L h then ''(cog-node '' @ [SQ] @ simple_typena L w h @ '')'' @ [NL]
      else ''(cog-link '' @ [SQ] @ simple_typena L w h @ '')'' @ [NL])"

definition simple_get_keys_msg :: "('h, 'v, 't, 'w) atomlib \<Rightarrow> 'w \<Rightarrow> 'h \<Rightarrow> string" where
  "simple_get_keys_msg L w h = ''(cog-keys->alist ('' @ simple_typena L w h @ ''))'' @ [NL]"

definition simple_runQuery_msg ::
  "('h, 'v, 't, 'w) atomlib \<Rightarrow> 'w \<Rightarrow> 'h \<Rightarrow> 'h \<Rightarrow> 'h option \<Rightarrow> bool \<Rightarrow> string" where
  "simple_runQuery_msg L w query key meta fresh =
     ''(cog-execute-cache! '' @ encode_atom L w query False @ encode_atom L w key False @
     (case meta of None \<Rightarrow> [] | Some m \<Rightarrow> encode_atom L w m False @ (if fresh then '' #t'' else [])) @
     '')'' @ [NL]"

definition simple_define_msg :: "('h, 'v, 't, 'w) atomlib \<Rightarrow> 'h \<Rightarrow> string" where
  "simple_define_msg L h = ''(define *-bogus-top-space-* '' @ encode_frame L h @ '')'' @ [NL]"

section \<open>Frames\<close>

fun fold_opt :: "('x \<Rightarrow> 's \<Rightarrow> 's option) \<Rightarrow> 'x list \<Rightarrow> 's \<Rightarrow> 's option" where
  "fold_opt f [] s = Some s"
| "fold_opt f (x # xs) s = (case f x s of None \<Rightarrow> None | Some s' \<Rightarrow> fold_opt f xs s')"

text \<open>\<open>cacheFrame\<close> on the pair \<open>(_frame_map, _fid_map)\<close>; the first argument is the number of nested
  calls the stack still has room for, and \<open>None\<close> is a stack overflow.\<close>

fun cacheFrame ::
  "nat \<Rightarrow> ('h, 'v, 't, 'w) atomlib \<Rightarrow> 'h \<Rightarrow> ('h, string) umap \<times> (string, 'h) umap \<Rightarrow>
   (('h, string) umap \<times> (string, 'h) umap) option" where
  "cacheFrame 0 L hasp maps = None"
| "cacheFrame (Suc n) L hasp maps =
     (case fold_opt (cacheFrame n L) (getOutgoingSet L hasp) maps of
        None \<Rightarrow> None
      | Some (frame_map, fid_map) \<Rightarrow>
          Some (umap_insert hasp (space_shorty (get_name L hasp)) frame_map,
                umap_insert (get_name L hasp) hasp fid_map))"

definition set_multi :: "bool \<Rightarrow> ('h, 'w, 'srv, unit) sio" where
  "set_multi b = modify (s_multi_space_update (\<lambda>_. b))"

definition simple_cacheFrame :: "('h, 'v, 't, 'w) atomlib \<Rightarrow> 'h \<Rightarrow> ('h, 'w, 'srv, unit) sio" where
  "simple_cacheFrame L hasp s =
     (case cacheFrame (stack_depth L) L hasp (s_frame_map s, s_fid_map s) of
        None \<Rightarrow> (Inl StackOverflow, s)
      | Some (fm, fid) \<Rightarrow> (Inr (), s\<lparr>s_frame_map := fm, s_fid_map := fid\<rparr>))"

text \<open>A null argument (an atom in no atomspace) is found in no map, and is dereferenced next.\<close>

definition simple_writeFrame ::
  "('h, 'v, 't, 'w) atomlib \<Rightarrow> 'srv env \<Rightarrow> 'h option \<Rightarrow> ('h, 'w, 'srv, string) sio" where
  "simple_writeFrame L E hasp =
     (case hasp of
        None \<Rightarrow> seq (set_multi True) (throw NullHandle)
      | Some h \<Rightarrow>
          bnd (gets (\<lambda>s. map_of (s_frame_map s) h)) (\<lambda>it.
          case it of
            Some shorty \<Rightarrow> ret shorty
          | None \<Rightarrow>
              seq (set_multi True)
              (seq (simple_do_send E (simple_define_msg L h))
              (seq (simple_cacheFrame L h)
              (ret (space_shorty (get_name L h)))))))"

definition simple_storeFrameDAG ::
  "('h, 'v, 't, 'w) atomlib \<Rightarrow> 'srv env \<Rightarrow> 'h option \<Rightarrow> ('h, 'w, 'srv, unit) sio" where
  "simple_storeFrameDAG L E top_as = seq (simple_writeFrame L E top_as) (set_multi True)"

definition simple_loadFrameDAG ::
  "('h, 'v, 't, 'w) atomlib \<Rightarrow> 'srv env \<Rightarrow> ('h, 'w, 'srv, 'h list) sio" where
  "simple_loadFrameDAG L E =
     seq (set_multi True)
     (seq (simple_do_send E (''(cog-atomspace)'' @ [NL]))
     (bnd (simple_do_recv False) (\<lambda>rply.
      if length rply < 5 then ret []
      else
        bnd (gets s_fid_map) (\<lambda>fid.
        bnd (lift_lib (decode_frame L rply 0 fid)) (\<lambda>(top_as, fid').
        seq (modify (\<lambda>s. s\<lparr>s_fid_map := fid',
               s_frame_map := fold (\<lambda>(name, h). umap_insert h (space_shorty name)) fid' (s_frame_map s)\<rparr>))
        (ret [top_as]))))))"

section \<open>Storing\<close>

text \<open>\<open>if (_multi_space) writeFrame(h->getAtomSpace());\<close>\<close>

definition simple_write_space ::
  "('h, 'v, 't, 'w) atomlib \<Rightarrow> 'srv env \<Rightarrow> 'h \<Rightarrow> ('h, 'w, 'srv, unit) sio" where
  "simple_write_space L E h =
     bnd (gets s_multi_space) (\<lambda>m.
     if m
     then bnd (gets (\<lambda>s. getAtomSpace L (s_as s) h)) (\<lambda>as.
          seq (simple_writeFrame L E as) (ret ()))
     else ret ())"

definition simple_storeAtom ::
  "('h, 'v, 't, 'w) atomlib \<Rightarrow> 'srv env \<Rightarrow> 'h \<Rightarrow> ('h, 'w, 'srv, unit) sio" where
  "simple_storeAtom L E h =
     bnd (gets (\<lambda>s. \<not> s_multi_space s \<and> s_atom_space s \<noteq> None \<and>
                    getAtomSpace L (s_as s) h \<noteq> s_atom_space s)) (\<lambda>other.
     seq (cond_do other (set_multi True))
     (seq (simple_write_space L E h)
     (bnd (gets (\<lambda>s. simple_storeAtom_msg L (s_as s) (s_multi_space s) h)) (\<lambda>msg.
      simple_do_send E msg))))"

definition simple_storeValue ::
  "('h, 'v, 't, 'w) atomlib \<Rightarrow> 'srv env \<Rightarrow> 'h \<Rightarrow> 'h \<Rightarrow> ('h, 'w, 'srv, unit) sio" where
  "simple_storeValue L E h key =
     bnd (gets (\<lambda>s. \<not> s_multi_space s \<and> getAtomSpace L (s_as s) h \<noteq> s_atom_space s)) (\<lambda>other.
     seq (cond_do other (set_multi True))
     (seq (simple_write_space L E h)
     (bnd (gets (\<lambda>s. simple_storeValue_msg L (s_as s) (s_multi_space s) h key)) (\<lambda>msg.
      simple_do_send E msg))))"

definition simple_updateValue ::
  "('h, 'v, 't, 'w) atomlib \<Rightarrow> 'srv env \<Rightarrow> 'h \<Rightarrow> 'h \<Rightarrow> 'v \<Rightarrow> ('h, 'w, 'srv, unit) sio" where
  "simple_updateValue L E h key delta =
     bnd (gets (\<lambda>s. \<not> s_multi_space s \<and> getAtomSpace L (s_as s) h \<noteq> s_atom_space s)) (\<lambda>other.
     seq (cond_do other (set_multi True))
     (seq (simple_write_space L E h)
     (bnd (gets (\<lambda>s. simple_updateValue_msg L (s_as s) (s_multi_space s) h key delta)) (\<lambda>msg.
      simple_do_send E msg))))"

definition simple_storeAtomSpace ::
  "('h, 'v, 't, 'w) atomlib \<Rightarrow> 'srv env \<Rightarrow> 'h \<Rightarrow> ('h, 'w, 'srv, unit) sio" where
  "simple_storeAtomSpace L E table =
     bnd (gets (\<lambda>s. all_atoms L (s_as s) table)) (\<lambda>hs. for_each (simple_storeAtom L E) hs)"

definition simple_set_proxy ::
  "('h, 'v, 't, 'w) atomlib \<Rightarrow> 'srv env \<Rightarrow> 'h \<Rightarrow> ('h, 'w, 'srv, unit) sio" where
  "simple_set_proxy L E h =
     seq (simple_storeAtom L E h)
     (bnd (gets (\<lambda>s. ''(cog-set-proxy! '' @ encode_atom L (s_as s) h False @ '')'' @ [NL])) (\<lambda>msg.
      seq (simple_do_send E msg)
      (bnd (simple_do_recv False) (\<lambda>_. ret ()))))"

definition simple_removeAtom ::
  "('h, 'v, 't, 'w) atomlib \<Rightarrow> 'srv env \<Rightarrow> 'h \<Rightarrow> bool \<Rightarrow> ('h, 'w, 'srv, unit) sio" where
  "simple_removeAtom L E h recursive =
     bnd (gets (\<lambda>s. simple_removeAtom_msg L (s_as s) h recursive)) (\<lambda>msg.
     seq (simple_do_send E msg)
     (bnd (simple_do_recv False) (\<lambda>_. ret ())))"

definition simple_kill_data :: "'srv env \<Rightarrow> ('h, 'w, 'srv, unit) sio" where
  "simple_kill_data E =
     seq (simple_do_send E (''(cog-atomspace-clear)'' @ [NL]))
     (bnd (simple_do_recv False) (\<lambda>_.
      seq (set_multi False)
      (modify (\<lambda>s. s\<lparr>s_frame_map := [], s_fid_map := []\<rparr>))))"

text \<open>The administrative methods of the header: the server's atomspace cannot be created or removed by a
  client, only emptied.\<close>

definition simple_create :: "('h, 'w, 'srv, unit) sio" where
  "simple_create = ret ()"

definition simple_destroy :: "'srv env \<Rightarrow> ('h, 'w, 'srv, unit) sio" where
  "simple_destroy E = simple_kill_data E"

definition simple_erase :: "'srv env \<Rightarrow> ('h, 'w, 'srv, unit) sio" where
  "simple_erase E = simple_kill_data E"

section \<open>Fetching\<close>

text \<open>The common tail of \<open>loadValue\<close> and \<open>runQuery\<close>: decode the reply, give its atoms a home, and
  set the value.\<close>

definition simple_take_value ::
  "('h, 'v, 't, 'w) atomlib \<Rightarrow> 'h \<Rightarrow> 'h \<Rightarrow> string \<Rightarrow> ('w, unit) io" where
  "simple_take_value L h key rply =
     bnd (lift_lib (decode_value L rply 0)) (\<lambda>(vp, pos).
     bnd (gets (\<lambda>w. getAtomSpace L w h)) (\<lambda>as.
     bnd (case as of None \<Rightarrow> ret vp | Some a \<Rightarrow> lib_call (sexpr_add_atoms L a vp)) (\<lambda>vp.
     modify (setValue L h key vp))))"

definition simple_loadValue ::
  "('h, 'v, 't, 'w) atomlib \<Rightarrow> 'srv env \<Rightarrow> 'h \<Rightarrow> 'h \<Rightarrow> ('h, 'w, 'srv, unit) sio" where
  "simple_loadValue L E h key =
     bnd (gets (\<lambda>s. simple_loadValue_msg L (s_as s) h key)) (\<lambda>msg.
     seq (simple_do_send E msg)
     (bnd (simple_do_recv False) (\<lambda>rply.
      on_as (simple_take_value L h key rply))))"

definition simple_runQuery ::
  "('h, 'v, 't, 'w) atomlib \<Rightarrow> 'srv env \<Rightarrow> 'h \<Rightarrow> 'h \<Rightarrow> 'h option \<Rightarrow> bool \<Rightarrow> ('h, 'w, 'srv, unit) sio" where
  "simple_runQuery L E query key meta fresh =
     bnd (gets (\<lambda>s. simple_runQuery_msg L (s_as s) query key meta fresh)) (\<lambda>msg.
     seq (simple_do_send E msg)
     (bnd (simple_do_recv False) (\<lambda>rply.
      on_as (simple_take_value L query key rply))))"

definition simple_getAtom ::
  "('h, 'v, 't, 'w) atomlib \<Rightarrow> 'srv env \<Rightarrow> 'h \<Rightarrow> ('h, 'w, 'srv, unit) sio" where
  "simple_getAtom L E h =
     bnd (gets s_as) (\<lambda>w.
     seq (simple_do_send E (simple_iknow_msg L w h))
     (bnd (simple_do_recv False) (\<lambda>msg.
      if compare0_eq 2 msg ''()'' then ret ()
      else
        seq (simple_do_send E (simple_get_keys_msg L w h))
        (bnd (simple_do_recv False) (\<lambda>msg.
         bnd (gets s_atom_space) (\<lambda>as.
         on_as (ro_decode_alist L as h msg)))))))"

text \<open>The loop of \<open>decode_atom_list\<close>. The fuel is more than the length of the text: every turn that
  the coder completes moves \<open>l\<close> forward.\<close>

fun simple_atoms_loop ::
  "nat \<Rightarrow> ('h, 'v, 't, 'w) atomlib \<Rightarrow> 'srv env \<Rightarrow> 'h option \<Rightarrow> string \<Rightarrow> nat \<Rightarrow> nat \<Rightarrow>
   ('h, 'w, 'srv, unit) sio" where
  "simple_atoms_loop 0 L E table expr end_pos l = throw Diverges"
| "simple_atoms_loop (Suc fuel) L E table expr end_pos l =
     bnd (lift_lib (get_next_expr L expr l end_pos)) (\<lambda>(pcnt, l, r).
     if l = r then ret ()
     else if 0 < pcnt then ret ()
     else
       bnd (gets s_fid_map) (\<lambda>fid.
       bnd (lift_lib (decode_atom_in L expr l r fid)) (\<lambda>(h, fid').
       seq (modify (s_fid_map_update (\<lambda>_. fid')))
       (bnd (gets (\<lambda>s. getAtomSpace L (s_as s) h)) (\<lambda>home.
        bnd (case home of None \<Rightarrow> on_as (lib_call (add_nocheck L table h)) | Some _ \<Rightarrow> ret h) (\<lambda>h.
        bnd (lift_res (substr expr l (size_add (size_sub r l) 1))) (\<lambda>sub.
        seq (simple_do_send E (''(cog-keys->alist '' @ sub @ '')'' @ [NL]))
        (bnd (simple_do_recv False) (\<lambda>msg.
         seq (on_as (ro_decode_alist L table h msg))
         (simple_atoms_loop fuel L E table expr end_pos (size_add r 1)))))))))))"

definition simple_decode_atom_list ::
  "('h, 'v, 't, 'w) atomlib \<Rightarrow> 'srv env \<Rightarrow> 'h option \<Rightarrow> ('h, 'w, 'srv, unit) sio" where
  "simple_decode_atom_list L E table =
     bnd (simple_do_recv False) (\<lambda>expr.
     let l = size_add (find_char (CHR ''('') expr 0) 1;
         end_pos = rfind_char (CHR '')'') expr
     in if l = end_pos then ret ()
        else simple_atoms_loop (length expr + 2) L E table expr end_pos l)"

definition simple_fetchIncomingSet ::
  "('h, 'v, 't, 'w) atomlib \<Rightarrow> 'srv env \<Rightarrow> 'h option \<Rightarrow> 'h \<Rightarrow> ('h, 'w, 'srv, unit) sio" where
  "simple_fetchIncomingSet L E table h =
     bnd (gets (\<lambda>s. ''(cog-incoming-set '' @ encode_atom L (s_as s) h False @ '')'' @ [NL])) (\<lambda>atom.
     seq (simple_do_send E atom) (simple_decode_atom_list L E table))"

definition simple_fetchIncomingByType ::
  "('h, 'v, 't, 'w) atomlib \<Rightarrow> 'srv env \<Rightarrow> 'h option \<Rightarrow> 'h \<Rightarrow> 't \<Rightarrow> ('h, 'w, 'srv, unit) sio" where
  "simple_fetchIncomingByType L E table h t =
     bnd (gets (\<lambda>s. ''(cog-incoming-by-type '' @ encode_atom L (s_as s) h False @
                    '' '' @ [SQ] @ getTypeName L t @ '')'' @ [NL])) (\<lambda>msg.
     seq (simple_do_send E msg) (simple_decode_atom_list L E table))"

definition get_atoms_msg :: "string \<Rightarrow> string \<Rightarrow> string" where
  "get_atoms_msg name subs = ''(cog-get-atoms '' @ [SQ] @ name @ subs @ '')'' @ [NL]"

definition simple_loadAtomSpace ::
  "('h, 'v, 't, 'w) atomlib \<Rightarrow> 'srv env \<Rightarrow> 'h option \<Rightarrow> ('h, 'w, 'srv, unit) sio" where
  "simple_loadAtomSpace L E table =
     seq (simple_do_send E (get_atoms_msg ''Node'' '' #t''))
     (seq (simple_decode_atom_list L E table)
     (seq (simple_do_send E (get_atoms_msg ''Link'' '' #t''))
     (simple_decode_atom_list L E table)))"

definition simple_loadType ::
  "('h, 'v, 't, 'w) atomlib \<Rightarrow> 'srv env \<Rightarrow> 'h option \<Rightarrow> 't \<Rightarrow> ('h, 'w, 'srv, unit) sio" where
  "simple_loadType L E table t =
     seq (simple_do_send E (get_atoms_msg (getTypeName L t) []))
     (simple_decode_atom_list L E table)"

section \<open>The interface\<close>

text \<open>The calls a client can make on an open node, as data, and a client session: one call after
  another, going on after a call that threw.\<close>

datatype ('h, 'v, 't) simple_op =
    GetAtom 'h
  | FetchIncomingSet "'h option" 'h
  | FetchIncomingByType "'h option" 'h 't
  | StoreAtom 'h
  | RemoveAtom 'h bool
  | StoreValue 'h 'h
  | UpdateValue 'h 'h 'v
  | LoadValue 'h 'h
  | RunQuery 'h 'h "'h option" bool
  | LoadType "'h option" 't
  | LoadAtomSpace "'h option"
  | StoreAtomSpace 'h
  | LoadFrameDAG
  | StoreFrameDAG "'h option"
  | KillData
  | SetProxy 'h
  | ProxyOpen
  | ProxyClose
  | Fence

definition ignore :: "('s, 'a) io \<Rightarrow> ('s, unit) io" where
  "ignore m = seq m (ret ())"

fun simple_run :: "('h, 'v, 't, 'w) atomlib \<Rightarrow> 'srv env \<Rightarrow> ('h, 'v, 't) simple_op \<Rightarrow> ('h, 'w, 'srv, unit) sio" where
  "simple_run L E (GetAtom h) = simple_getAtom L E h"
| "simple_run L E (FetchIncomingSet table h) = simple_fetchIncomingSet L E table h"
| "simple_run L E (FetchIncomingByType table h t) = simple_fetchIncomingByType L E table h t"
| "simple_run L E (StoreAtom h) = simple_storeAtom L E h"
| "simple_run L E (RemoveAtom h rec) = simple_removeAtom L E h rec"
| "simple_run L E (StoreValue h key) = simple_storeValue L E h key"
| "simple_run L E (UpdateValue h key delta) = simple_updateValue L E h key delta"
| "simple_run L E (LoadValue h key) = simple_loadValue L E h key"
| "simple_run L E (RunQuery query key meta fresh) = simple_runQuery L E query key meta fresh"
| "simple_run L E (LoadType table t) = simple_loadType L E table t"
| "simple_run L E (LoadAtomSpace table) = simple_loadAtomSpace L E table"
| "simple_run L E (StoreAtomSpace table) = simple_storeAtomSpace L E table"
| "simple_run L E LoadFrameDAG = ignore (simple_loadFrameDAG L E)"
| "simple_run L E (StoreFrameDAG top_as) = simple_storeFrameDAG L E top_as"
| "simple_run L E KillData = simple_kill_data E"
| "simple_run L E (SetProxy h) = simple_set_proxy L E h"
| "simple_run L E ProxyOpen = simple_proxy_open E"
| "simple_run L E ProxyClose = simple_proxy_close E"
| "simple_run L E Fence = simple_barrier E"

fun simple_session ::
  "('h, 'v, 't, 'w) atomlib \<Rightarrow> 'srv env \<Rightarrow> ('h, 'v, 't) simple_op list \<Rightarrow> ('h, 'w, 'srv) simple \<Rightarrow>
   (cxx_fail + unit) list \<times> ('h, 'w, 'srv) simple" where
  "simple_session L E [] s = ([], s)"
| "simple_session L E (op # ops) s =
     (case simple_run L E op s of
        (r, s') \<Rightarrow> (case simple_session L E ops s' of (rs, s'') \<Rightarrow> (r # rs, s'')))"

section \<open>Every operation keeps the stream in step\<close>

lemma store_no_reply:
  "noreply (simple_storeAtom_msg L w multi h)"
  "noreply (simple_storeValue_msg L w multi h key)"
  "noreply (simple_updateValue_msg L w multi h key delta)"
  "noreply (simple_define_msg L h)"
  by (simp_all add: simple_define_msg_def simple_storeAtom_msg_def simple_storeValue_msg_def simple_updateValue_msg_def noreply_iff)

lemma fetch_reply:
  "wants_reply (simple_loadValue_msg L w h key)"
  "wants_reply (simple_removeAtom_msg L w h rec)"
  "wants_reply (simple_iknow_msg L w h)"
  "wants_reply (simple_get_keys_msg L w h)"
  "wants_reply (simple_runQuery_msg L w query key meta fresh)"
  "wants_reply (get_atoms_msg name subs)"
  by (simp_all add: simple_loadValue_msg_def simple_removeAtom_msg_def simple_iknow_msg_def
      simple_get_keys_msg_def simple_runQuery_msg_def get_atoms_msg_def wants_reply_iff)

lemma keeps_sync_writeFrame:
  assumes "protocol E"
  shows "keeps in_sync benign (simple_writeFrame L E hasp)"
proof -
  have c: "keeps in_sync benign (simple_cacheFrame L h)" for h
    by (rule keepsI) (simp add: wp_def simple_cacheFrame_def split: option.splits prod.splits)
  have m: "keeps in_sync benign (set_multi b)" for b
    unfolding set_multi_def by (rule keeps_sync_modify) simp
  show ?thesis
    unfolding simple_writeFrame_def
    by (intro keeps_rules keeps_send_noreply c m assms store_no_reply) auto
qed

lemma keeps_set_multi: "keeps in_sync K (set_multi b)"
  unfolding set_multi_def by (rule keeps_sync_modify) simp

lemma keeps_sync_write_space: "protocol E \<Longrightarrow> keeps in_sync benign (simple_write_space L E h)"
  unfolding simple_write_space_def by (intro keeps_rules keeps_sync_writeFrame)

lemma keeps_sync_store:
  assumes "protocol E"
  shows "keeps in_sync benign (simple_storeAtom L E h)"
    and "keeps in_sync benign (simple_storeValue L E h key)"
    and "keeps in_sync benign (simple_updateValue L E h key delta)"
  unfolding simple_storeAtom_def simple_storeValue_def simple_updateValue_def
  by (intro keeps_rules keeps_sync_write_space keeps_set_multi keeps_send_noreply store_no_reply assms)+

lemma keeps_take_value: "keeps (\<lambda>_. True) benign (simple_take_value L h key rply)"
  unfolding simple_take_value_def
  by (intro keeps_rules keeps_lift_lib keeps_lib_call keeps_modify) auto

lemma keeps_sync_atoms_loop:
  assumes "protocol E"
  shows "keeps in_sync benign (simple_atoms_loop fuel L E table expr e l)"
proof (induction fuel arbitrary: l)
  case 0
  show ?case by (auto intro: keeps_throw)
next
  case (Suc fuel)
  have r: "keeps in_sync benign (lift_res (substr expr l k))" for l k
    by (rule keepsI) (simp add: wp_lift_res substr_def)
  have w: "wants_reply (''(cog-keys->alist '' @ sub @ '')'' @ [NL])" for sub
    by (simp add: wants_reply_iff)
  have m: "keeps in_sync benign (modify (s_fid_map_update (\<lambda>_. fid)))" for fid
    by (rule keeps_sync_modify) simp
  show ?case
    unfolding simple_atoms_loop.simps
    by (intro keeps_bnd keeps_lift_lib keeps_pair keeps_if keeps_ret keeps_gets keeps_option keeps_on_as keeps_lib_call
        keeps_exchange keeps_ro_decode_alist keeps_seq r w m Suc.IH assms benign_simps)
qed

lemma keeps_sync_exchange_list:
  assumes "protocol E" and "wants_reply msg"
  shows "keeps in_sync benign (seq (simple_do_send E msg) (simple_decode_atom_list L E table))"
  unfolding simple_decode_atom_list_def Let_def
  by (intro keeps_exchange keeps_if keeps_ret keeps_sync_atoms_loop assms)

lemma keeps_sync_loads:
  assumes "protocol E"
  shows "keeps in_sync benign (simple_fetchIncomingSet L E table h)"
    and "keeps in_sync benign (simple_fetchIncomingByType L E table h t)"
    and "keeps in_sync benign (simple_loadType L E table t)"
    and "keeps in_sync benign (simple_loadAtomSpace L E table)"
proof -
  note x = keeps_sync_exchange_list [OF assms]
  show "keeps in_sync benign (simple_fetchIncomingSet L E table h)"
    unfolding simple_fetchIncomingSet_def by (intro keeps_gets_bnd x) (simp add: wants_reply_iff)
  show "keeps in_sync benign (simple_fetchIncomingByType L E table h t)"
    unfolding simple_fetchIncomingByType_def by (intro keeps_gets_bnd x) (simp add: wants_reply_iff)
  show "keeps in_sync benign (simple_loadType L E table t)"
    unfolding simple_loadType_def by (intro x fetch_reply)
  have "simple_loadAtomSpace L E table =
      seq (seq (simple_do_send E (get_atoms_msg ''Node'' '' #t'')) (simple_decode_atom_list L E table))
          (seq (simple_do_send E (get_atoms_msg ''Link'' '' #t'')) (simple_decode_atom_list L E table))"
    by (simp add: simple_loadAtomSpace_def seq_def bnd_assoc)
  then show "keeps in_sync benign (simple_loadAtomSpace L E table)"
    using keeps_seq [OF x x] fetch_reply(6) by metis
qed

lemma keeps_sync_requests:
  assumes "protocol E"
  shows "keeps in_sync benign (simple_getAtom L E h)"
    and "keeps in_sync benign (simple_loadValue L E h key)"
    and "keeps in_sync benign (simple_runQuery L E query key meta fresh)"
    and "keeps in_sync benign (simple_removeAtom L E h rec)"
    and "keeps in_sync benign (simple_kill_data E)"
    and "keeps in_sync benign (simple_loadFrameDAG L E)"
proof -
  note x = keeps_exchange [OF assms] fetch_reply
  show "keeps in_sync benign (simple_getAtom L E h)"
    unfolding simple_getAtom_def
    by (intro keeps_gets_bnd x keeps_if keeps_ret keeps_on_as keeps_ro_decode_alist benign_simps)
  show "keeps in_sync benign (simple_loadValue L E h key)"
    unfolding simple_loadValue_def by (intro keeps_gets_bnd x keeps_on_as keeps_take_value)
  show "keeps in_sync benign (simple_runQuery L E query key meta fresh)"
    unfolding simple_runQuery_def by (intro keeps_gets_bnd x keeps_on_as keeps_take_value)
  show "keeps in_sync benign (simple_removeAtom L E h rec)"
    unfolding simple_removeAtom_def by (intro keeps_gets_bnd x keeps_ret)
  show "keeps in_sync benign (simple_kill_data E)"
    unfolding simple_kill_data_def
    by (intro x keeps_seq keeps_set_multi keeps_sync_modify) (auto simp: wants_reply_iff)
  show "keeps in_sync benign (simple_loadFrameDAG L E)"
    unfolding simple_loadFrameDAG_def
    by (intro keeps_seq keeps_set_multi x keeps_if keeps_gets_bnd keeps_bnd keeps_pair keeps_lift_lib
        keeps_sync_modify keeps_ret benign_simps) (auto simp: wants_reply_iff)
qed

lemma keeps_sync_frames:
  assumes "protocol E"
  shows "keeps in_sync benign (simple_storeFrameDAG L E top_as)"
    and "keeps in_sync benign (simple_set_proxy L E h)"
    and "keeps in_sync benign (simple_storeAtomSpace L E table)"
proof -
  show "keeps in_sync benign (simple_storeFrameDAG L E top_as)"
    unfolding simple_storeFrameDAG_def by (intro keeps_seq keeps_sync_writeFrame keeps_set_multi assms)
  show "keeps in_sync benign (simple_set_proxy L E h)"
    unfolding simple_set_proxy_def
    by (intro keeps_seq keeps_sync_store keeps_gets_bnd keeps_exchange keeps_ret assms) (simp add: wants_reply_iff)
  show "keeps in_sync benign (simple_storeAtomSpace L E table)"
    unfolding simple_storeAtomSpace_def by (intro keeps_gets_bnd keeps_for_each keeps_sync_store assms)
qed

lemma simple_run_keeps_sync: "protocol E \<Longrightarrow> keeps in_sync benign (simple_run L E op)"
  by (cases op)
     (simp_all add: ignore_def keeps_sync_loads keeps_sync_requests keeps_sync_store keeps_sync_frames
        keeps_proxy_open keeps_proxy_close keeps_barrier keeps_seq keeps_ret)

lemma simple_session_keeps_sync:
  assumes "protocol E" and "in_sync s" and "simple_session L E ops s = (rs, s')"
  shows "in_sync s' \<and> (\<forall>e. Inl e \<in> set rs \<longrightarrow> benign e)"
  using assms(2,3)
proof (induction ops arbitrary: s rs s')
  case Nil
  then show ?case by simp
next
  case (Cons op ops)
  obtain r s1 where r: "simple_run L E op s = (r, s1)" by fastforce
  obtain rs' where rs: "simple_session L E ops s1 = (rs', s')" "rs = r # rs'"
    using Cons.prems r by (auto split: prod.splits)
  have "in_sync s1" and "\<And>e. r = Inl e \<Longrightarrow> benign e"
    using keeps_state [OF simple_run_keeps_sync [OF assms(1)] Cons.prems(1)]
      keeps_fail [OF simple_run_keeps_sync [OF assms(1)] Cons.prems(1)] r by (metis snd_conv, metis fst_conv)
  with Cons.IH [OF _ rs(1)] rs(2) show ?case by auto
qed

lemma benign_results: "list_all (case_sum benign (\<lambda>_. True)) rs \<longleftrightarrow> (\<forall>e\<in>set rs. \<forall>f. e = Inl f \<longrightarrow> benign f)"
  by (auto simp: list_all_iff split: sum.split)

text \<open>C1: in a session with a server that keeps to the protocol, the requests and replies never get out
  of step. After any sequence of calls, whatever their arguments, what waits on the socket is idle
  bytes only, so that the next reply read is the reply to the next request; and no call fails
  because of the connection, blocks, or reads out of bounds.\<close>

theorem simple_session_in_step:
  assumes "protocol E" and "in_sync s" and "simple_session L E ops s = (rs, s')"
  shows "in_sync s' \<and> (\<forall>e\<in>set rs. \<forall>f. e = Inl f \<longrightarrow> benign f)"
  using simple_session_keeps_sync [OF assms] by blast

theorem simple_session_in_step_witness:
  "in_sync (snd (simple_session small_lib (small_env small_answer)
      [StoreAtom 1, GetAtom 2, LoadAtomSpace (Some 8), UpdateValue 7 2 3, KillData] (small_simple []))) \<and>
   list_all (case_sum benign (\<lambda>_. True)) (fst (simple_session small_lib (small_env small_answer)
      [StoreAtom 1, GetAtom 2, LoadAtomSpace (Some 8), UpdateValue 7 2 3, KillData] (small_simple [])))"
  unfolding benign_results by (rule simple_session_in_step [OF small_protocol small_in_sync]) (rule prod.collapse [symmetric])

section \<open>Storing\<close>

lemma wp_storeAtom:
  "wp (simple_storeAtom L E h) Q F s =
     wp (simple_write_space L E h)
       (\<lambda>_ u. wp (simple_do_send E (simple_storeAtom_msg L (s_as u) (s_multi_space u) h)) Q F u) F
       (if \<not> s_multi_space s \<and> s_atom_space s \<noteq> None \<and> getAtomSpace L (s_as s) h \<noteq> s_atom_space s
        then s\<lparr>s_multi_space := True\<rparr> else s)"
  by (simp add: simple_storeAtom_def set_multi_def wp_rules)

lemma wp_storeValue:
  "wp (simple_storeValue L E h key) Q F s =
     wp (simple_write_space L E h)
       (\<lambda>_ u. wp (simple_do_send E (simple_storeValue_msg L (s_as u) (s_multi_space u) h key)) Q F u) F
       (if \<not> s_multi_space s \<and> getAtomSpace L (s_as s) h \<noteq> s_atom_space s then s\<lparr>s_multi_space := True\<rparr> else s)"
  by (simp add: simple_storeValue_def set_multi_def wp_rules)

lemma wp_write_space_cached:
  assumes "\<not> s_multi_space s \<or> (\<exists>sp. getAtomSpace L (s_as s) h = Some sp \<and> map_of (s_frame_map s) sp \<noteq> None)"
  shows "wp (simple_write_space L E h) Q F s = Q () s"
proof -
  have "simple_write_space L E h s = (Inr (), s)"
    using assms by (cases "s_multi_space s")
      (auto simp: simple_write_space_def simple_writeFrame_def bnd_def gets_def ret_def seq_def)
  then show ?thesis by (simp add: wp_def)
qed

text \<open>Storing an atom of the space the node belongs to sends one message, the store message of the
  atom without its space, waits for nothing and changes nothing else in the node.\<close>

lemma simple_storeAtom_same_space:
  assumes "protocol E" and "in_sync s" and "\<not> s_multi_space s"
    and "s_atom_space s = None \<or> getAtomSpace L (s_as s) h = s_atom_space s"
  shows "\<exists>n. simple_storeAtom L E h s = (Inr (), s\<lparr>s_net := n\<rparr>) \<and> in_sync (s\<lparr>s_net := n\<rparr>) \<and>
    tx n = tx (s_net s) @ [(s_sockfd s, simple_storeAtom_msg L (s_as s) False h)]"
proof -
  have "wp (simple_storeAtom L E h)
    (\<lambda>_ s'. \<exists>n. s' = s\<lparr>s_net := n\<rparr> \<and> in_sync (s\<lparr>s_net := n\<rparr>) \<and>
      tx n = tx (s_net s) @ [(s_sockfd s, simple_storeAtom_msg L (s_as s) False h)]) (\<lambda>_ _. False) s"
    unfolding wp_storeAtom using assms(3,4)
    by (auto simp: wp_write_space_cached intro!: sl.wp_send_noreply [OF assms(1,2) store_no_reply(1)])
  from wp_returns [OF this] show ?thesis by auto
qed

section \<open>Frames\<close>

text \<open>The two maps agree with the frames' names.\<close>

definition frames_ok :: "('h, 'v, 't, 'w) atomlib \<Rightarrow> ('h, string) umap \<times> (string, 'h) umap \<Rightarrow> bool" where
  "frames_ok L maps \<longleftrightarrow>
     (\<forall>h t. map_of (fst maps) h = Some t \<longrightarrow> t = space_shorty (get_name L h)) \<and>
     (\<forall>name h. map_of (snd maps) name = Some h \<longrightarrow> get_name L h = name)"

text \<open>The frames a frame is built on, itself included.\<close>

definition frames_under :: "('h, 'v, 't, 'w) atomlib \<Rightarrow> 'h \<Rightarrow> 'h set" where
  "frames_under L h = {x. (h, x) \<in> {(a, b). b \<in> set (getOutgoingSet L a)}\<^sup>*}"

lemma frames_under_eq: "frames_under L h = insert h (\<Union>c\<in>set (getOutgoingSet L h). frames_under L c)"
  by (auto simp: frames_under_def intro: converse_rtrancl_into_rtrancl elim: converse_rtranclE)

definition frame_insert :: "('h, 'v, 't, 'w) atomlib \<Rightarrow> 'h \<Rightarrow> ('h, string) umap \<times> (string, 'h) umap \<Rightarrow>
  ('h, string) umap \<times> (string, 'h) umap" where
  "frame_insert L h maps =
     (umap_insert h (space_shorty (get_name L h)) (fst maps), umap_insert (get_name L h) h (snd maps))"

lemma frames_ok_insert: "frames_ok L maps \<Longrightarrow> frames_ok L (frame_insert L h maps)"
  by (auto simp: frames_ok_def frame_insert_def um.lookup_insert split: if_splits)

text \<open>What is in the maps stays in them.\<close>

definition extends :: "('k, 'v) umap \<Rightarrow> ('k, 'v) umap \<Rightarrow> bool" where
  "extends m m' \<longleftrightarrow> (\<forall>k v. map_of m k = Some v \<longrightarrow> map_of m' k = Some v)"

lemma fold_opt_all:
  assumes "\<And>x s. x \<in> set xs \<Longrightarrow> I s \<Longrightarrow> \<exists>s'. f x s = Some s' \<and> I s' \<and> P x s' \<and> R s s'"
    and "I s" and "\<And>x s s'. P x s \<Longrightarrow> R s s' \<Longrightarrow> P x s'"
    and "\<And>s. R s s" and "\<And>a b c. R a b \<Longrightarrow> R b c \<Longrightarrow> R a c"
  shows "\<exists>s'. fold_opt f xs s = Some s' \<and> I s' \<and> (\<forall>x\<in>set xs. P x s') \<and> R s s'"
  using assms(1,2)
proof (induction xs arbitrary: s)
  case Nil
  then show ?case using assms(4) by simp
next
  case (Cons x xs)
  from Cons.prems obtain s1 where s1: "f x s = Some s1" "I s1" "P x s1" "R s s1" by (meson list.set_intros(1))
  have "\<exists>s'. f y s = Some s' \<and> I s' \<and> P y s' \<and> R s s'" if "y \<in> set xs" "I s" for y s
    using that by (intro Cons.prems(1)) auto
  from Cons.IH [OF this s1(2)] obtain s2 where
    s2: "fold_opt f xs s1 = Some s2" "I s2" "\<forall>x\<in>set xs. P x s2" "R s1 s2" by blast
  have "P x s2" "R s s2" using assms(3) [OF s1(3) s2(4)] assms(5) [OF s1(4) s2(4)] by auto
  with s1 s2 show ?case by simp
qed

lemma cacheFrame_all:
  assumes rank: "\<And>a b. b \<in> set (getOutgoingSet L a) \<Longrightarrow> rank b < rank a"
    and "frames_ok L maps" and "rank h < n"
  shows "\<exists>maps'. cacheFrame n L h maps = Some maps' \<and> frames_ok L maps' \<and>
    (\<forall>x\<in>frames_under L h. map_of (fst maps') x = Some (space_shorty (get_name L x))) \<and>
    extends (fst maps) (fst maps') \<and> extends (snd maps) (snd maps')"
  using assms(2,3)
proof (induction n arbitrary: h maps)
  case (Suc n)
  let ?P = "\<lambda>c maps'. \<forall>x\<in>frames_under L c. map_of (fst maps') x = Some (space_shorty (get_name L x))"
  let ?R = "\<lambda>m m'. extends (fst m) (fst m') \<and> extends (snd m) (snd m')"
  have "\<exists>maps'. fold_opt (cacheFrame n L) (getOutgoingSet L h) maps = Some maps' \<and> frames_ok L maps' \<and>
      (\<forall>c\<in>set (getOutgoingSet L h). ?P c maps') \<and> ?R maps maps'"
  proof (rule fold_opt_all)
    fix c m assume "c \<in> set (getOutgoingSet L h)" and "frames_ok L m"
    then show "\<exists>m'. cacheFrame n L c m = Some m' \<and> frames_ok L m' \<and> ?P c m' \<and> ?R m m'"
      using Suc.IH [of m c] rank [of c h] Suc.prems(2) by auto
  qed (use Suc.prems(1) in \<open>auto simp: extends_def\<close>)
  then obtain m where m: "fold_opt (cacheFrame n L) (getOutgoingSet L h) maps = Some m" "frames_ok L m"
    "\<forall>c\<in>set (getOutgoingSet L h). ?P c m" "?R maps m" by blast
  have "cacheFrame (Suc n) L h maps = Some (frame_insert L h m)"
    using m(1) by (cases m) (simp add: frame_insert_def)
  moreover have "map_of (fst (frame_insert L h m)) h = Some (space_shorty (get_name L h))"
    using m(2) by (auto simp: frame_insert_def um.lookup_insert_same frames_ok_def split: option.split)
  moreover have "\<forall>c\<in>set (getOutgoingSet L h). ?P c (frame_insert L h m)"
    using m(3) by (simp add: frame_insert_def um.lookup_stable)
  moreover have "?R maps (frame_insert L h m)"
    using m(4) by (auto simp: extends_def frame_insert_def um.lookup_stable)
  ultimately show ?case
    using frames_ok_insert [OF m(2), of h] by (simp add: frames_under_eq [of L h] ball_Un)
qed simp

text \<open>C27: \<open>cacheFrame\<close> caches the frame and every frame it is built on. On a DAG of frames (with a rank
  that falls along the edges, and a stack at least as deep as the rank) the recursion returns; all
  these frames then have their short form in \<open>_frame_map\<close>, the entries that were there before are
  kept, and both maps still agree with the names of the frames.\<close>

theorem cacheFrame_caches:
  assumes "\<forall>a. \<forall>b\<in>set (getOutgoingSet L a). (rank b :: nat) < rank a"
    and "frames_ok L maps" and "rank h < n"
  shows "\<exists>maps'. cacheFrame n L h maps = Some maps' \<and> frames_ok L maps' \<and>
    (\<forall>x\<in>frames_under L h. map_of (fst maps') x = Some (space_shorty (get_name L x))) \<and>
    (\<forall>x t. map_of (fst maps) x = Some t \<longrightarrow> map_of (fst maps') x = Some t)"
  using cacheFrame_all [of L rank maps h n] assms by (auto simp: extends_def)

lemma small_rank: "\<forall>a. \<forall>b\<in>set (getOutgoingSet small_lib a). (if b = 9 then 1 else 0 :: nat) < (if a = 9 then 1 else 0)"
  by (simp add: small_lib_def)

theorem cacheFrame_caches_witness:
  "\<exists>maps'. cacheFrame 2 small_lib 9 ([], []) = Some maps' \<and> frames_ok small_lib maps' \<and>
    map_of (fst maps') 8 = Some (space_shorty (num_text 8)) \<and>
    map_of (fst maps') 9 = Some (space_shorty (num_text 9))"
proof -
  have fs: "frames_ok small_lib ([], [])" by (simp add: frames_ok_def)
  have lib: "getOutgoingSet small_lib 9 = [8]" "get_name small_lib x = num_text x" for x by (simp_all add: small_lib_def)
  have mem: "8 \<in> frames_under small_lib 9" "9 \<in> frames_under small_lib 9"
    unfolding frames_under_eq [of small_lib 9] lib by (simp_all add: frames_under_def)
  have "(if (9 :: nat) = 9 then 1 else 0) < (2 :: nat)" by simp
  from cacheFrame_caches [OF small_rank fs this] mem show ?thesis unfolding lib by blast
qed

lemma wp_writeFrame_new:
  assumes "protocol E" and "in_sync s" and "map_of (s_frame_map s) sp = None"
    and cache: "cacheFrame (stack_depth L) L sp (s_frame_map s, s_fid_map s) = Some (fm, fid)"
    and Q: "\<And>n. in_sync (s\<lparr>s_multi_space := True, s_net := n, s_frame_map := fm, s_fid_map := fid\<rparr>) \<Longrightarrow>
           tx n = tx (s_net s) @ [(s_sockfd s, simple_define_msg L sp)] \<Longrightarrow>
           Q (space_shorty (get_name L sp)) (s\<lparr>s_multi_space := True, s_net := n, s_frame_map := fm, s_fid_map := fid\<rparr>)"
  shows "wp (simple_writeFrame L E (Some sp)) Q F s"
proof -
  have "wp (simple_do_send E (simple_define_msg L sp)) (\<lambda>_ t. wp (simple_cacheFrame L sp) (\<lambda>_ u. Q (space_shorty (get_name L sp)) u) F t) F
      (s\<lparr>s_multi_space := True\<rparr>)"
  proof (rule sl.wp_send_noreply [OF assms(1)])
    fix n assume n: "in_sync (s\<lparr>s_multi_space := True, s_net := n\<rparr>)"
      "tx n = tx (s_net (s\<lparr>s_multi_space := True\<rparr>)) @ [(s_sockfd (s\<lparr>s_multi_space := True\<rparr>), simple_define_msg L sp)]"
    then show "wp (simple_cacheFrame L sp) (\<lambda>_ u. Q (space_shorty (get_name L sp)) u) F (s\<lparr>s_multi_space := True, s_net := n\<rparr>)"
      using cache Q [of n] by (simp add: wp_def simple_cacheFrame_def in_sync_def)
  qed (use assms(2) in \<open>simp_all add: store_no_reply\<close>)
  then show ?thesis
    using assms(3) by (simp add: simple_writeFrame_def set_multi_def wp_rules)
qed

text \<open>C20: the first atom of another space that is stored makes the node send the definition of that
  space's frame, once, ahead of the atom; the next atom of the same space is stored by its own
  message only. Both are sent with their space.\<close>

theorem simple_frame_sent_once:
  assumes "protocol E" and "in_sync s" and "frames_ok L (s_frame_map s, s_fid_map s)"
    and "getAtomSpace L (s_as s) h = Some sp" and "getAtomSpace L (s_as s) h2 = Some sp"
    and "s_atom_space s = Some home" and "sp \<noteq> home" and "map_of (s_frame_map s) sp = None"
    and "\<forall>a. \<forall>b\<in>set (getOutgoingSet L a). (rank b :: nat) < rank a" and "rank sp < stack_depth L"
  shows "\<exists>s'. seq (simple_storeAtom L E h) (simple_storeAtom L E h2) s = (Inr (), s') \<and> in_sync s' \<and> s_multi_space s' \<and>
    tx (s_net s') = tx (s_net s) @
      [(s_sockfd s, simple_define_msg L sp),
       (s_sockfd s, simple_storeAtom_msg L (s_as s) True h), (s_sockfd s, simple_storeAtom_msg L (s_as s) True h2)]"
proof -
  obtain fm fid where c: "cacheFrame (stack_depth L) L sp (s_frame_map s, s_fid_map s) = Some (fm, fid)"
    and fm: "map_of fm sp \<noteq> None"
    using cacheFrame_all [of L rank "(s_frame_map s, s_fid_map s)" sp "stack_depth L"] assms(3,9,10)
    by (auto simp: frames_under_def)
  let ?s1 = "s\<lparr>s_multi_space := True\<rparr>"
  let ?Q = "\<lambda>_ s'. in_sync s' \<and> s_multi_space s' \<and> tx (s_net s') = tx (s_net s) @
      [(s_sockfd s, simple_define_msg L sp), (s_sockfd s, simple_storeAtom_msg L (s_as s) True h), (s_sockfd s, simple_storeAtom_msg L (s_as s) True h2)]"
  have second: "wp (simple_storeAtom L E h2) ?Q (\<lambda>_ _. False) t"
    if t: "in_sync t" "s_multi_space t" "s_frame_map t = fm" "s_as t = s_as s" "s_sockfd t = s_sockfd s"
      "tx (s_net t) = tx (s_net s) @ [(s_sockfd s, simple_define_msg L sp), (s_sockfd s, simple_storeAtom_msg L (s_as s) True h)]" for t
    using t fm assms(5) wp_write_space_cached [of t L h2 E]
    by (simp add: wp_storeAtom) (rule sl.wp_send_noreply [OF assms(1) t(1) store_no_reply(1)], simp)
  have first: "wp (simple_do_send E (simple_storeAtom_msg L (s_as s) True h)) (\<lambda>_. wp (simple_storeAtom L E h2) ?Q (\<lambda>_ _. False)) (\<lambda>_ _. False) t"
    if t: "in_sync t" "s_multi_space t" "s_frame_map t = fm" "s_as t = s_as s" "s_sockfd t = s_sockfd s"
      "tx (s_net t) = tx (s_net s) @ [(s_sockfd s, simple_define_msg L sp)]" for t
    by (rule sl.wp_send_noreply [OF assms(1) t(1) store_no_reply(1)], rule second) (simp_all add: t)
  have "wp (seq (simple_storeAtom L E h) (simple_storeAtom L E h2)) ?Q (\<lambda>_ _. False) s"
    unfolding wp_seq [of "simple_storeAtom L E h"] wp_storeAtom [of L E h]
    using assms(2,4,6-8)
    by (auto simp: wp_seq simple_write_space_def wp_bnd wp_gets wp_ret c
        intro!: wp_writeFrame_new [OF assms(1)] first)
  from wp_returns [OF this] show ?thesis by auto
qed

theorem simple_frame_sent_once_witness:
  "\<exists>s'. seq (simple_storeAtom small_lib (small_env small_answer) 6) (simple_storeAtom small_lib (small_env small_answer) 7)
      (small_simple []) = (Inr (), s') \<and> in_sync s' \<and> s_multi_space s' \<and>
    tx (s_net s') = [(3, simple_define_msg small_lib 9), (3, simple_storeAtom_msg small_lib [] True 6),
      (3, simple_storeAtom_msg small_lib [] True 7)]"
  using simple_frame_sent_once [OF small_protocol small_in_sync _ _ _ _ _ _ small_rank, of 6 9 7 8]
  by (simp add: small_simple_def small_net_def frames_ok_def small_lib_def)

text \<open>The guards of \<open>storeAtom\<close> and \<open>storeValue\<close> differ. A node that was never given an atomspace
  (\<open>_atom_space\<close> is null) stays in single-space mode when it stores an atom, and goes over to
  multi-space mode, for good, when it stores one value of the same atom.\<close>

lemma simple_null_space_guards_differ:
  assumes "protocol E" and "in_sync s" and "\<not> s_multi_space s" and "s_atom_space s = None"
    and "getAtomSpace L (s_as s) h = Some sp" and "map_of (s_frame_map s) sp = Some t"
  shows "\<exists>n n'. simple_storeAtom L E h s = (Inr (), s\<lparr>s_net := n\<rparr>) \<and>
    simple_storeValue L E h key s = (Inr (), s\<lparr>s_multi_space := True, s_net := n'\<rparr>) \<and>
    tx n = tx (s_net s) @ [(s_sockfd s, simple_storeAtom_msg L (s_as s) False h)] \<and>
    tx n' = tx (s_net s) @ [(s_sockfd s, simple_storeValue_msg L (s_as s) True h key)]"
proof -
  have "wp (simple_storeAtom L E h)
    (\<lambda>_ s'. \<exists>n. s' = s\<lparr>s_net := n\<rparr> \<and> tx n = tx (s_net s) @ [(s_sockfd s, simple_storeAtom_msg L (s_as s) False h)])
    (\<lambda>_ _. False) s"
    unfolding wp_storeAtom using assms(3,4)
    by (auto simp: wp_write_space_cached intro!: sl.wp_send_noreply [OF assms(1,2) store_no_reply(1)])
  moreover have "wp (simple_storeValue L E h key)
    (\<lambda>_ s'. \<exists>n. s' = s\<lparr>s_multi_space := True, s_net := n\<rparr> \<and>
       tx n = tx (s_net s) @ [(s_sockfd s, simple_storeValue_msg L (s_as s) True h key)]) (\<lambda>_ _. False) s"
    unfolding wp_storeValue using assms(2-6)
    by (auto simp: wp_write_space_cached intro!: sl.wp_send_noreply [OF assms(1) _ store_no_reply(2)])
  ultimately show ?thesis by (auto dest!: wp_returns) blast
qed

section \<open>Fetching\<close>

lemma is_reply_unique: "is_reply evs m \<Longrightarrow> is_reply evs m' \<Longrightarrow> m = m'"
  by (simp add: is_reply_def)

lemma for_each_attach_returns: "\<exists>w'. for_each (\<lambda>(k, v). attach_value L as atom k v) kvs w = (Inr (), w')"
proof (induction kvs arbitrary: w)
  case (Cons kv kvs)
  obtain w1 where "attach_value L as atom (fst kv) (snd kv) w = (Inr (), w1)"
    using attach_value_returns by metis
  with Cons [of w1] show ?case by (auto simp: seq_def bnd_def split: prod.splits)
qed (simp add: ret_def)

text \<open>Fetching an atom the server does not know takes one request, and leaves the client's
  atomspaces as they were.\<close>

lemma simple_getAtom_unknown:
  assumes "protocol E" and "in_sync s"
    and "is_reply (snd (on_data E (s_sockfd s) (simple_iknow_msg L (s_as s) h) (srv (s_net s)))) m"
    and "compare0_eq 2 m ''()''"
  shows "\<exists>n. simple_getAtom L E h s = (Inr (), s\<lparr>s_net := n\<rparr>) \<and> in_sync (s\<lparr>s_net := n\<rparr>) \<and>
    tx n = tx (s_net s) @ [(s_sockfd s, simple_iknow_msg L (s_as s) h)]"
proof -
  have "wp (simple_getAtom L E h)
    (\<lambda>_ s'. \<exists>n. s' = s\<lparr>s_net := n\<rparr> \<and> in_sync (s\<lparr>s_net := n\<rparr>) \<and>
      tx n = tx (s_net s) @ [(s_sockfd s, simple_iknow_msg L (s_as s) h)]) (\<lambda>_ _. False) s"
    unfolding simple_getAtom_def wp_bnd [of "gets s_as"] wp_gets
  proof (rule sl.wp_exchange [OF assms(1,2) fetch_reply(3)], goal_cases)
    case (1 n m')
    with assms(3,4) is_reply_unique [of _ m' m] show ?case by (auto simp: wp_ret)
  qed
  from wp_returns [OF this] show ?thesis by auto
qed

text \<open>Fetching an atom the server knows brings over all of its values. When the server confirms the
  atom and answers the request for its keys with the text of a list of pairs, \<open>getAtom\<close> attaches
  exactly these values to the atom, in two exchanges, and the stream is in step.\<close>

lemma simple_getAtom_known:
  assumes "protocol E" and "in_sync s" and "s_atom_space s = Some a"
    and "on_data E (s_sockfd s) (simple_iknow_msg L (s_as s) h) (srv (s_net s)) = (x1, evs1)" and "is_reply evs1 m1"
    and "\<not> compare0_eq 2 m1 ''()''"
    and "is_reply (snd (on_data E (s_sockfd s) (simple_get_keys_msg L (s_as s) h) x1)) (alist_text ek ev kvs @ [NL])"
    and "length (alist_text ek ev kvs @ [NL]) < npos" and "\<forall>(k, v)\<in>set kvs. reads_key L ek k \<and> reads_value L ev v"
  shows "\<exists>s'. simple_getAtom L E h s = (Inr (), s') \<and> in_sync s' \<and>
    for_each (\<lambda>(k, v). attach_value L (Some a) h k v) kvs (s_as s) = (Inr (), s_as s') \<and>
    tx (s_net s') = tx (s_net s) @ [(s_sockfd s, simple_iknow_msg L (s_as s) h), (s_sockfd s, simple_get_keys_msg L (s_as s) h)]"
proof -
  obtain w where w: "for_each (\<lambda>(k, v). attach_value L (Some a) h k v) kvs (s_as s) = (Inr (), w)"
    using for_each_attach_returns by metis
  have "CHR ''('' \<notin> set [NL]" by (simp add: NL_def)
  from ro_decode_alist_text [OF assms(8) this assms(9), of "Some a" h] w have
    alist: "ro_decode_alist L (Some a) h (alist_text ek ev kvs @ [NL]) (s_as s) = (Inr (), w)"
    by (simp add: bnd_def gets_def)
  have "wp (simple_getAtom L E h) (\<lambda>_ s'. in_sync s' \<and> s_as s' = w \<and>
      tx (s_net s') = tx (s_net s) @ [(s_sockfd s, simple_iknow_msg L (s_as s) h), (s_sockfd s, simple_get_keys_msg L (s_as s) h)])
      (\<lambda>_ _. False) s"
    unfolding simple_getAtom_def wp_bnd [of "gets s_as"] wp_gets
  proof (rule sl.wp_exchange [OF assms(1,2) fetch_reply(3)], goal_cases)
    case (1 n m)
    then have m: "\<not> compare0_eq 2 m ''()''" and n: "srv n = x1" using assms(4-6) is_reply_unique by force+
    show ?case
      unfolding if_not_P [OF m]
    proof (rule sl.wp_exchange [OF assms(1) 1(1) fetch_reply(4)], goal_cases)
      case (1 n' m')
      then have "m' = alist_text ek ev kvs @ [NL]" using assms(7) n is_reply_unique by fastforce
      with 1 \<open>tx n = _\<close> alist show ?case
        by (simp add: wp_bnd wp_gets assms(3)) (simp add: wp_def zoom_def in_sync_def)
    qed
  qed
  from wp_returns [OF this] w show ?thesis by auto
qed

text \<open>A server that knows every atom, with one value on each.\<close>

text \<open>Clearing the server's data resets the tracking of frames: the node is back in single-space mode
  with empty maps, so that the next atom of another space makes it define that space's frame again.\<close>

lemma simple_kill_data_resets:
  assumes "protocol E" and "in_sync s"
  shows "\<exists>n. simple_kill_data E s = (Inr (), s\<lparr>s_net := n, s_multi_space := False, s_frame_map := [], s_fid_map := []\<rparr>) \<and>
    in_sync (s\<lparr>s_net := n\<rparr>) \<and> tx n = tx (s_net s) @ [(s_sockfd s, ''(cog-atomspace-clear)'' @ [NL])]"
proof -
  have "wp (simple_kill_data E) (\<lambda>_ s'. \<exists>n. s' = s\<lparr>s_net := n, s_multi_space := False, s_frame_map := [], s_fid_map := []\<rparr> \<and>
      in_sync (s\<lparr>s_net := n\<rparr>) \<and> tx n = tx (s_net s) @ [(s_sockfd s, ''(cog-atomspace-clear)'' @ [NL])]) (\<lambda>_ _. False) s"
    unfolding simple_kill_data_def
    by (rule sl.wp_exchange [OF assms]) (auto simp: wants_reply_iff wp_seq wp_modify set_multi_def)
  from wp_returns [OF this] show ?thesis by auto
qed

end
