(* ===== verification/Channel.thy ===== *)
theory Channel
  imports LineClient Uri Barrier Example "HOL-Library.Char_ord" "HOL-Library.List_Lexorder"
begin

text \<open>
  \<open>cog-storage/CogChannel.h\<close> and \<open>CogChannel.cc\<close>: the messages, the per-thread sockets and the
  calls a channel makes on its message buffer.

  \<open>_msg_buffer\<close> is an \<open>async_buffer\<close> of the library cogutil, which is not in the repository. What
  a method does to it is the sequence of calls it makes; \<open>chan\<close> records that sequence in
  \<open>c_calls\<close>, and the theory \<open>MsgBuffer\<close> says what the calls lead to under the buffer's contract.

  The socket \<open>s\<close> is \<open>static thread_local\<close>: there is one per thread, and all the channels a thread
  uses share it. So it is not a field of \<open>chan\<close> but a part of the state a method runs in.
\<close>

section \<open>Messages\<close>

text \<open>\<open>m_handler\<close> stands for the pair of client and callback, \<open>None\<close> for the two null pointers.\<close>

record ('c, 'd) Msg =
  m_handler :: "'c option"
  m_sequence :: nat
  m_noreply :: bool
  m_str :: string
  m_data :: 'd

text \<open>The constructor, with the counter \<open>_sequence_counter\<close> before and after.\<close>

definition mk_Msg :: "'c option \<Rightarrow> bool \<Rightarrow> string \<Rightarrow> 'd \<Rightarrow> nat \<Rightarrow> ('c, 'd) Msg \<times> nat" where
  "mk_Msg cb nr str d ctr =
     (if compare0_eq 19 str ''(cog-update-value!''
      then (let c = size_add ctr 1
            in (\<lparr>m_handler = cb, m_sequence = c, m_noreply = nr, m_str = str, m_data = d\<rparr>, c))
      else (\<lparr>m_handler = cb, m_sequence = 0, m_noreply = nr, m_str = str, m_data = d\<rparr>, ctr))"

text \<open>The default constructor, which the buffer's containers need; \<open>d\<close> is the default \<open>Data()\<close>.\<close>

definition Msg_default :: "'d \<Rightarrow> ('c, 'd) Msg" where
  "Msg_default d = \<lparr>m_handler = None, m_sequence = 0, m_noreply = True, m_str = [], m_data = d\<rparr>"

text \<open>\<open>operator<\<close>; strings compare by their bytes, as \<open>std::string\<close> does.\<close>

definition msg_less :: "('c, 'd) Msg \<Rightarrow> ('c, 'd) Msg \<Rightarrow> bool" where
  "msg_less a b =
     (if m_sequence a = 0 \<and> m_sequence b = 0 then m_str a < m_str b
      else m_sequence b < m_sequence a)"

section \<open>The channel\<close>

datatype 'm bufcall =
    BInsert 'm | BBarrier | BBarrierMsg 'm | BFlush | BOpen nat | BClose | BClearStats

record ('c, 'd) chan =
  c_id :: nat                             \<comment> \<open>the address of the object\<close>
  c_uri :: string
  c_host :: string
  c_port :: string
  c_servinfo :: "addrinfo list option"
  c_nsocks :: int
  c_calls :: "('c, 'd) Msg bufcall list"  \<comment> \<open>calls on \<open>_msg_buffer\<close>, oldest first\<close>

record tlso =
  t_sockfd :: int
  t_owner :: "nat option"

text \<open>What a method of a channel runs in: the channel, the thread's socket and random generator,
  the message counter and the sockets.\<close>

record ('c, 'd, 'srv) cst =
  x_chan :: "('c, 'd) chan"
  x_tls :: tlso
  x_rng :: nat
  x_seq :: nat
  x_net :: "'srv net"

type_synonym ('c, 'd, 'srv, 'a) cio = "(('c, 'd, 'srv) cst, 'a) io"

definition NTHREADS :: nat where
  "NTHREADS = 4"

definition chan_new :: "nat \<Rightarrow> ('c, 'd) chan" where
  "chan_new i = \<lparr>c_id = i, c_uri = [], c_host = [], c_port = [], c_servinfo = None, c_nsocks = 0, c_calls = []\<rparr>"

definition tlso_new :: tlso where
  "tlso_new = \<lparr>t_sockfd = 0, t_owner = None\<rparr>"

abbreviation x_on_net :: "('srv net, 'a) io \<Rightarrow> ('c, 'd, 'srv, 'a) cio" where
  "x_on_net \<equiv> zoom x_net x_net_update"

definition set_tls_fd :: "int \<Rightarrow> ('c, 'd, 'srv, unit) cio" where
  "set_tls_fd fd = modify (\<lambda>s. s\<lparr>x_tls := (x_tls s)\<lparr>t_sockfd := fd\<rparr>\<rparr>)"

definition buf_call :: "('c, 'd) Msg bufcall \<Rightarrow> ('c, 'd, 'srv, unit) cio" where
  "buf_call c = modify (\<lambda>s. s\<lparr>x_chan := (x_chan s)\<lparr>c_calls := c_calls (x_chan s) @ [c]\<rparr>\<rparr>)"

definition set_servinfo :: "addrinfo list option \<Rightarrow> ('c, 'd, 'srv, unit) cio" where
  "set_servinfo i = modify (\<lambda>s. s\<lparr>x_chan := (x_chan s)\<lparr>c_servinfo := i\<rparr>\<rparr>)"

section \<open>Sockets\<close>

definition chan_bufsize :: nat where
  "chan_bufsize = 8192"

definition chan_recv_loop :: "bool \<Rightarrow> ('c, 'd, 'srv, rx_outcome) cio" where
  "chan_recv_loop garbage s =
     (let fd = t_sockfd (x_tls s)
      in case recv_loop chan_bufsize garbage True [] (rx_of fd (x_net s)) of
           (out, evs) \<Rightarrow> (Inr out, s\<lparr>x_net := set_rx fd evs (x_net s)\<rparr>))"

definition chan_do_recv :: "bool \<Rightarrow> ('c, 'd, 'srv, string) cio" where
  "chan_do_recv garbage =
     bnd (gets (\<lambda>s. t_sockfd (x_tls s))) (\<lambda>fd.
     if fd = 0 then throw (IOException NoOpenSocket)
     else
       bnd (chan_recv_loop garbage) (\<lambda>out.
       case out of
         RxReply reply \<Rightarrow> ret reply
       | RxError \<Rightarrow> throw (IOException UnableToTalk)
       | RxClosed \<Rightarrow> seq (x_on_net (sys_close fd)) (throw (IOException PeerClosed))
       | RxBlocked \<Rightarrow> throw Blocked
       | RxBadRead \<Rightarrow> throw OutOfBounds))"

text \<open>The loop over the addresses; \<open>None\<close> when it runs off the end of the list.\<close>

fun chan_connect_loop :: "'srv env \<Rightarrow> addrinfo list \<Rightarrow> ('c, 'd, 'srv, int option) cio" where
  "chan_connect_loop E [] = ret None"
| "chan_connect_loop E (p # ps) =
     bnd (x_on_net sys_socket) (\<lambda>fd.
     if fd < 0 then chan_connect_loop E ps
     else
       bnd (x_on_net (sys_connect E fd p)) (\<lambda>rc.
       if rc = 0 then ret (Some fd)
       else seq (x_on_net (sys_close fd)) (chan_connect_loop E ps)))"

definition chan_open_sock :: "'srv env \<Rightarrow> ('c, 'd, 'srv, int) cio" where
  "chan_open_sock E =
     bnd (gets x_chan) (\<lambda>c.
     case c_servinfo c of
       None \<Rightarrow> ret (-1)
     | Some servinfo \<Rightarrow>
         bnd (chan_connect_loop E servinfo) (\<lambda>p.
         case p of
           None \<Rightarrow> throw (IOException (UnableToConnect (c_host c)))
         | Some sockfd \<Rightarrow>
             bnd (x_on_net (sys_send E False sockfd (''sexpr'' @ [NL]))) (\<lambda>rc.
             if rc < 0 then throw (IOException (UnableToTalkHost (c_host c)))
             else
               seq (modify (\<lambda>s. s\<lparr>x_tls := \<lparr>t_sockfd = sockfd, t_owner = Some (c_id c)\<rparr>\<rparr>))
               (seq (chan_do_recv True)
               (seq (modify (\<lambda>s. s\<lparr>x_chan := (x_chan s)\<lparr>c_nsocks := c_nsocks (x_chan s) + 1\<rparr>\<rparr>))
               (ret sockfd))))))"

definition chan_do_send :: "'srv env \<Rightarrow> string \<Rightarrow> ('c, 'd, 'srv, unit) cio" where
  "chan_do_send E str =
     bnd (gets (\<lambda>s. t_sockfd (x_tls s))) (\<lambda>fd0.
     seq (if fd0 = 0 then bnd (chan_open_sock E) set_tls_fd else ret ())
     (bnd (gets (\<lambda>s. t_sockfd (x_tls s))) (\<lambda>fd.
      bnd (x_on_net (sys_send E True fd str)) (\<lambda>rc.
      if rc < 0 then throw (IOException UnableToTalk) else ret ()))))"

text \<open>The destructor of the thread's socket, run when the thread ends. The counter it decrements is
  that of the owner; the result tells which channel that is.\<close>

definition tlso_exit :: "tlso \<Rightarrow> ('srv net, nat option) io" where
  "tlso_exit t =
     (if t_sockfd t \<noteq> 0 then seq (sys_close (t_sockfd t)) (ret (t_owner t)) else ret None)"

section \<open>Connections\<close>

definition chan_connected :: "('c, 'd) chan \<Rightarrow> bool" where
  "chan_connected c \<longleftrightarrow> c_servinfo c \<noteq> None"

definition drop_tls_sock :: "('c, 'd, 'srv, unit) cio" where
  "drop_tls_sock =
     bnd (gets (\<lambda>s. t_sockfd (x_tls s))) (\<lambda>fd.
     if fd \<noteq> 0 then seq (x_on_net (sys_close fd)) (set_tls_fd 0) else ret ())"

text \<open>The body of the \<open>try\<close> block.\<close>

definition probe_msg :: string where
  "probe_msg = ''.'' @ [NL] @ ''.'' @ [NL]"

definition chan_probe :: "'srv env \<Rightarrow> ('c, 'd, 'srv, unit) cio" where
  "chan_probe E = seq (chan_do_send E probe_msg) (bnd (chan_do_recv True) (\<lambda>_. ret ()))"

definition chan_open_connection :: "'srv env \<Rightarrow> string \<Rightarrow> ('c, 'd, 'srv, unit) cio" where
  "chan_open_connection E uri =
     bnd (lift_res (chan_host_port uri)) (\<lambda>(uri1, host, port).
     seq (modify (\<lambda>s. s\<lparr>x_chan := (x_chan s)\<lparr>c_uri := uri1, c_host := host, c_port := port\<rparr>\<rparr>))
     (case getaddrinfo E host port of
        None \<Rightarrow> throw (IOException (UnknownHost host))
      | Some srvinfo \<Rightarrow>
          seq (set_servinfo (Some srvinfo))
          (seq (catch_io (chan_probe E)
                 (\<lambda>ex. seq (set_servinfo None) (seq drop_tls_sock (throw (IOException ex)))))
          (seq drop_tls_sock
          (buf_call (BOpen NTHREADS))))))"

definition chan_close_connection :: "('c, 'd, 'srv, unit) cio" where
  "chan_close_connection =
     seq (buf_call BBarrier) (seq (buf_call BClose) (set_servinfo None))"

text \<open>The destructor; \<open>freeaddrinfo\<close> of the null pointer does nothing.\<close>

definition chan_dtor :: "('c, 'd, 'srv, unit) cio" where
  "chan_dtor = chan_close_connection"

section \<open>Requests\<close>

text \<open>\<open>synchro\<close> up to the call of the handler, which the caller makes on the reply.\<close>

definition chan_synchro :: "'srv env \<Rightarrow> string \<Rightarrow> ('c, 'd, 'srv, string) cio" where
  "chan_synchro E msg = seq (chan_do_send E msg) (chan_do_recv False)"

definition new_msg :: "'c option \<Rightarrow> bool \<Rightarrow> string \<Rightarrow> 'd \<Rightarrow> ('c, 'd, 'srv, ('c, 'd) Msg) cio" where
  "new_msg cb nr str d s =
     (case mk_Msg cb nr str d (x_seq s) of (m, ctr) \<Rightarrow> (Inr m, s\<lparr>x_seq := ctr\<rparr>))"

definition chan_enqueue :: "'c \<Rightarrow> string \<Rightarrow> 'd \<Rightarrow> ('c, 'd, 'srv, unit) cio" where
  "chan_enqueue handler msg d = bnd (new_msg (Some handler) False msg d) (\<lambda>block. buf_call (BInsert block))"

text \<open>\<open>dummy\<close> is the default-constructed \<open>Data()\<close>.\<close>

definition chan_enqueue_noreply :: "'d \<Rightarrow> string \<Rightarrow> ('c, 'd, 'srv, unit) cio" where
  "chan_enqueue_noreply dummy msg = bnd (new_msg None True msg dummy) (\<lambda>block. buf_call (BInsert block))"

text \<open>What a worker does with a message: the result is the reply the callback is to be run on, if
  there is one.\<close>

definition chan_reply_handler :: "'srv env \<Rightarrow> ('c, 'd) Msg \<Rightarrow> ('c, 'd, 'srv, string option) cio" where
  "chan_reply_handler E m =
     seq (chan_do_send E (m_str m))
     (if m_noreply m then ret None
      else bnd (chan_do_recv False) (\<lambda>reply. ret (Some reply)))"

definition chan_barrier :: "'d \<Rightarrow> ('c, 'd, 'srv, unit) cio" where
  "chan_barrier dummy =
     bnd (gets x_rng) (\<lambda>x.
     case barrier_rnd x of
       (rnd, x') \<Rightarrow>
         seq (modify (x_rng_update (\<lambda>_. x')))
         (bnd (new_msg None True (barrier_msg ''4'' rnd) dummy) (\<lambda>block.
          buf_call (BBarrierMsg block))))"

definition chan_flush :: "('c, 'd, 'srv, unit) cio" where
  "chan_flush = buf_call BFlush"

definition chan_clear_stats :: "('c, 'd, 'srv, unit) cio" where
  "chan_clear_stats = buf_call BClearStats"

section \<open>Statistics\<close>

text \<open>The numbers the buffer keeps, as \<open>print_stats\<close> reads them.\<close>

record bufstats =
  b_size :: nat
  b_busy :: nat
  b_in_drain :: bool
  b_item_count :: nat
  b_duplicate_count :: nat
  b_flush_count :: nat
  b_drain_count :: nat
  b_drain_msec :: nat
  b_drain_concurrent :: nat
  b_low :: nat
  b_high :: nat
  b_stalling :: bool

fun to_string_nat :: "nat \<Rightarrow> string" where
  "to_string_nat n = (if n < 10 then [char_of (48 + n)] else to_string_nat (n div 10) @ [char_of (48 + n mod 10)])"

declare to_string_nat.simps [simp del]

definition to_string_int :: "int \<Rightarrow> string" where
  "to_string_int i = (if i < 0 then ''-'' @ to_string_nat (nat (- i)) else to_string_nat (nat i))"

definition chan_print_stats :: "bufstats \<Rightarrow> ('c, 'd) chan \<Rightarrow> string" where
  "chan_print_stats b c =
     ''Open socks: '' @ to_string_int (c_nsocks c) @
     ''  Connected to: '' @ c_uri c @ [NL] @
     ''Queue size: '' @ to_string_nat (b_size b) @
     ''  Busy: '' @ to_string_nat (b_busy b) @ ''/'' @ to_string_nat NTHREADS @
     (if b_in_drain b then '' Draining now'' else []) @ [NL] @
     ''Messages: '' @ to_string_nat (b_item_count b) @
     ''  Duplicates: '' @ to_string_nat (b_duplicate_count b) @ [NL] @
     ''Flush count: '' @ to_string_nat (b_flush_count b) @
     ''  Drains: '' @ to_string_nat (b_drain_count b) @ [NL] @
     ''Drain time (msec): '' @ to_string_nat (b_drain_msec b) @
     ''  Slowest (msec): '' @ to_string_nat (b_drain_count b) @
     ''  Concurrent: '' @ to_string_nat (b_drain_concurrent b) @ [NL] @
     ''Low/High watermarks: '' @ to_string_nat (b_low b) @ ''/'' @ to_string_nat (b_high b) @
     ''  Stalled: '' @ (if b_stalling b then ''true'' else ''false'') @ [NL]"

section \<open>Workers\<close>

interpretation cf: framing chan_bufsize
  by unfold_locales (simp add: chan_bufsize_def)

abbreviation x_fd :: "('c, 'd, 'srv) cst \<Rightarrow> int" where
  "x_fd s \<equiv> t_sockfd (x_tls s)"

lemma chan_do_send_open:
  assumes "x_fd s \<noteq> 0" and "x_fd s \<in> set (open_fds (x_net s))" and "\<not> broken E (x_fd s) (srv (x_net s))"
    and "on_data E (x_fd s) msg (srv (x_net s)) = (x, evs)"
  shows "chan_do_send E msg s = (Inr (), s\<lparr>x_net := sent (x_fd s) msg x evs (x_net s)\<rparr>)"
  using assms by (simp add: chan_do_send_def bnd_def gets_def seq_def ret_def zoom_def sys_send_def sent_def)

lemma chan_do_recv_run:
  assumes "x_fd s \<noteq> 0" and "x_fd s \<in> set (open_fds (x_net s))"
    and "recv_loop chan_bufsize g True [] (rx (x_net s) (x_fd s)) = (RxReply m, evs)"
  shows "chan_do_recv g s = (Inr m, s\<lparr>x_net := set_rx (x_fd s) evs (x_net s)\<rparr>)"
  using assms by (simp add: chan_do_recv_def chan_recv_loop_def rx_of_def bnd_def gets_def ret_def Let_def)

interpretation cl: line_client "x_fd :: ('c, 'd, 'srv) cst \<Rightarrow> int" x_net "\<lambda>n s. s\<lparr>x_net := n\<rparr>" E
    "chan_do_send E" "chan_do_recv False" for E :: "'srv env"
proof unfold_locales
  fix s :: "('c, 'd, 'srv) cst" and pre rs m
  assume "0 < x_fd s" "x_fd s \<in> set (open_fds (x_net s))" "rx (x_net s) (x_fd s) = pre @ rs"
    and r: "idle_only pre" "is_reply rs m"
  with cf.recv_is_reply [OF r, of "[]"] chan_do_recv_run [of s False m]
  show "\<exists>idle. chan_do_recv False s = (Inr m, s\<lparr>x_net := set_rx (x_fd s) idle (x_net s)\<rparr>) \<and> idle_only idle"
    by auto
qed (auto intro: chan_do_send_open)

text \<open>A worker's socket is open and nothing but idle bytes waits on it.\<close>

definition worker_in_sync :: "('c, 'd, 'srv) cst \<Rightarrow> bool" where
  "worker_in_sync s \<longleftrightarrow> 0 < x_fd s \<and> x_fd s \<in> set (open_fds (x_net s)) \<and> idle_only (rx (x_net s) (x_fd s))"

lemma worker_in_step: "cl.in_step = worker_in_sync"
  by (intro ext) (simp add: worker_in_sync_def cl.in_step_def)

lemmas wp_worker_send = cl.wp_send_noreply [unfolded worker_in_step]
lemmas wp_worker_exchange = cl.wp_exchange [unfolded worker_in_step]

text \<open>A channel of the example, opened earlier, and a thread that has the socket \<open>fd\<close>.\<close>

definition small_chan :: "(unit, unit) chan" where
  "small_chan = \<lparr>c_id = 1, c_uri = ''cog://host/'', c_host = ''host'', c_port = ''17001'', c_servinfo = Some [6, 7],
     c_nsocks = 1, c_calls = []\<rparr>"

definition small_cst :: "int \<Rightarrow> recv_ev list \<Rightarrow> (unit, unit, unit) cst" where
  "small_cst fd evs = \<lparr>x_chan = small_chan, x_tls = \<lparr>t_sockfd = fd, t_owner = Some 1\<rparr>, x_rng = 1, x_seq = 0, x_net = small_net evs\<rparr>"

text \<open>A worker's turn is one exchange. With a server that keeps to the protocol and a message whose
  \<open>noreply\<close> flag says what the server does, \<open>reply_handler\<close> sends the message, reads exactly its reply
  (or nothing, for a message without one), and is in step for the next message.\<close>

lemma chan_worker_turn:
  assumes "protocol E" and "worker_in_sync s" and "if m_noreply m then noreply (m_str m) else wants_reply (m_str m)"
  shows "\<exists>n r. chan_reply_handler E m s = (Inr r, s\<lparr>x_net := n\<rparr>) \<and> worker_in_sync (s\<lparr>x_net := n\<rparr>) \<and>
    tx n = tx (x_net s) @ [(x_fd s, m_str m)] \<and>
    (case r of None \<Rightarrow> m_noreply m
     | Some reply \<Rightarrow> \<not> m_noreply m \<and> is_reply (snd (on_data E (x_fd s) (m_str m) (srv (x_net s)))) reply)"
proof -
  have "wp (chan_reply_handler E m)
    (\<lambda>r s'. \<exists>n. s' = s\<lparr>x_net := n\<rparr> \<and> worker_in_sync (s\<lparr>x_net := n\<rparr>) \<and> tx n = tx (x_net s) @ [(x_fd s, m_str m)] \<and>
      (case r of None \<Rightarrow> m_noreply m
       | Some reply \<Rightarrow> \<not> m_noreply m \<and> is_reply (snd (on_data E (x_fd s) (m_str m) (srv (x_net s)))) reply))
    (\<lambda>_ _. False) s"
  proof (cases "m_noreply m")
    case True
    have "wp (chan_do_send E (m_str m)) (\<lambda>_ s'. \<exists>n. s' = s\<lparr>x_net := n\<rparr> \<and> worker_in_sync (s\<lparr>x_net := n\<rparr>) \<and>
        tx n = tx (x_net s) @ [(x_fd s, m_str m)]) (\<lambda>_ _. False) s"
      by (rule wp_worker_send [OF assms(1,2)]) (use assms(3) True in auto)
    with True show ?thesis by (simp add: chan_reply_handler_def wp_seq wp_ret)
  next
    case False
    then show ?thesis
      unfolding chan_reply_handler_def using assms(3)
      by (simp only: if_False) (rule wp_worker_exchange [OF assms(1,2)], auto simp: wp_ret)
  qed
  from wp_returns [OF this] show ?thesis by auto
qed

section \<open>One socket per thread\<close>

text \<open>A thread that has a socket sends everything through it. Whatever channel \<open>do_send\<close> is called
  on, and whichever channel opened the socket, the message goes to the server the thread talked to
  first; with two storage nodes open, a fetch from the second one is asked of the first one's
  server.\<close>

lemma chan_send_follows_thread:
  assumes "x_fd s \<noteq> 0" and "x_fd s \<in> set (open_fds (x_net s))" and "\<not> broken E (x_fd s) (srv (x_net s))"
  shows "\<exists>n. tx n = tx (x_net s) @ [(x_fd s, msg)] \<and>
    (\<forall>c ow. chan_do_send E msg (s\<lparr>x_chan := c, x_tls := (x_tls s)\<lparr>t_owner := ow\<rparr>\<rparr>) =
       (Inr (), s\<lparr>x_chan := c, x_tls := (x_tls s)\<lparr>t_owner := ow\<rparr>, x_net := n\<rparr>))"
proof -
  obtain x evs where d: "on_data E (x_fd s) msg (srv (x_net s)) = (x, evs)" by fastforce
  show ?thesis
    using assms d by (intro exI [of _ "sent (x_fd s) msg x evs (x_net s)"]) (auto simp: chan_do_send_open sent_def)
qed

text \<open>What \<open>open_connection\<close> does once the host is resolved, by the outcome of the probe.\<close>

definition resolved :: "string \<Rightarrow> string \<Rightarrow> string \<Rightarrow> addrinfo list \<Rightarrow> ('c, 'd, 'srv) cst \<Rightarrow> ('c, 'd, 'srv) cst" where
  "resolved uri host port addrs s =
     s\<lparr>x_chan := (x_chan s)\<lparr>c_uri := uri, c_host := host, c_port := port, c_servinfo := Some addrs\<rparr>\<rparr>"

definition dropped :: "('c, 'd, 'srv) cst \<Rightarrow> ('c, 'd, 'srv) cst" where
  "dropped s =
     (if x_fd s = 0 then s
      else s\<lparr>x_net := (x_net s)\<lparr>open_fds := removeAll (x_fd s) (open_fds (x_net s)), rx := (rx (x_net s))(x_fd s := [])\<rparr>,
             x_tls := (x_tls s)\<lparr>t_sockfd := 0\<rparr>\<rparr>)"

lemma drop_tls_sock_run: "drop_tls_sock s = (Inr (), dropped s)"
  by (simp add: drop_tls_sock_def dropped_def bnd_def gets_def seq_def ret_def zoom_def sys_close_def set_tls_fd_def modify_def)

lemma resolved_fields [simp]:
  "x_tls (resolved uri host port addrs s) = x_tls s" "x_net (resolved uri host port addrs s) = x_net s"
  "c_servinfo (x_chan (resolved uri host port addrs s)) = Some addrs" "c_host (x_chan (resolved uri host port addrs s)) = host"
  "c_calls (x_chan (resolved uri host port addrs s)) = c_calls (x_chan s)"
  "c_nsocks (x_chan (resolved uri host port addrs s)) = c_nsocks (x_chan s)"
  "c_id (x_chan (resolved uri host port addrs s)) = c_id (x_chan s)"
  by (simp_all add: resolved_def)

lemma dropped_fields [simp]:
  "x_chan (dropped s) = x_chan s" "x_fd (dropped s) = 0" "tx (x_net (dropped s)) = tx (x_net s)"
  "fd_pool (x_net (dropped s)) = fd_pool (x_net s)"
  "open_fds (x_net (dropped s)) = (if x_fd s = 0 then open_fds (x_net s) else removeAll (x_fd s) (open_fds (x_net s)))"
  by (simp_all add: dropped_def)

lemma chan_open_resolved:
  assumes "chan_host_port uri = Inr (uri1, host, port)" and "getaddrinfo E host port = Some addrs"
  shows "chan_open_connection E uri s =
    (case chan_probe E (resolved uri1 host port addrs s) of
       (Inr _, t) \<Rightarrow> buf_call (BOpen NTHREADS) (dropped t)
     | (Inl (IOException c), t) \<Rightarrow>
         (Inl (IOException c), dropped (t\<lparr>x_chan := (x_chan t)\<lparr>c_servinfo := None\<rparr>\<rparr>))
     | (Inl e, t) \<Rightarrow> (Inl e, t))"
  using assms
  by (simp add: chan_open_connection_def bnd_def seq_def lift_res_def modify_def set_servinfo_def catch_io_def
      drop_tls_sock_run throw_def resolved_def split: prod.split sum.split cxx_fail.split)

lemma chan_prompt_run:
  assumes "x_fd t \<noteq> 0" and "x_fd t \<in> set (open_fds (x_net t))" and "rx (x_net t) (x_fd t) = Seg v # evs"
    and "v \<noteq> []" and "length v \<le> chan_bufsize" and "strip v \<noteq> []"
  shows "chan_do_recv True t = (Inr (c_str (strip v)), t\<lparr>x_net := set_rx (x_fd t) evs (x_net t)\<rparr>)"
proof -
  have "recv_loop chan_bufsize True True [] (Seg v # evs) = (RxReply (c_str (strip v)), evs)"
    using cf.recv_prompt [of v evs] assms(4-6) by (simp add: cf.rest_of_def)
  then show ?thesis using assms(1-3) chan_do_recv_run [of t True] by simp
qed

lemma chan_probe_run:
  assumes "x_fd s \<noteq> 0" and "x_fd s \<in> set (open_fds (x_net s))" and "\<not> broken E (x_fd s) (srv (x_net s))"
    and "on_data E (x_fd s) probe_msg (srv (x_net s)) = (x, es)" and "rx (x_net s) (x_fd s) @ es = Seg v # evs"
    and "v \<noteq> []" and "length v \<le> chan_bufsize" and "strip v \<noteq> []"
  shows "chan_probe E s =
    (Inr (), s\<lparr>x_net := set_rx (x_fd s) evs (sent (x_fd s) probe_msg x es (x_net s))\<rparr>)"
  using assms
  by (simp add: chan_probe_def bnd_def seq_def ret_def chan_do_send_open chan_prompt_run [of _ v evs] sent_def)

text \<open>\<open>open_connection\<close> in a thread that already has a socket probes the wrong server. If the host
  resolves and the server behind the thread's socket answers, it reports success without having made
  a connection to the new address, even if nobody accepts there, and closes the socket that the other
  channel was using.\<close>

lemma chan_open_probes_old_socket:
  assumes "chan_host_port uri = Inr (uri1, host, port)" and "getaddrinfo E host port = Some addrs"
    and "x_fd s \<noteq> 0" and "x_fd s \<in> set (open_fds (x_net s))" and "\<not> broken E (x_fd s) (srv (x_net s))"
    and "on_data E (x_fd s) probe_msg (srv (x_net s)) = (x, es)" and "rx (x_net s) (x_fd s) @ es = Seg v # evs"
    and "v \<noteq> []" and "length v \<le> chan_bufsize" and "strip v \<noteq> []"
  shows "\<exists>s'. chan_open_connection E uri s = (Inr (), s') \<and> chan_connected (x_chan s') \<and>
    tx (x_net s') = tx (x_net s) @ [(x_fd s, probe_msg)] \<and>
    fd_pool (x_net s') = fd_pool (x_net s) \<and> x_fd s' = 0 \<and> x_fd s \<notin> set (open_fds (x_net s'))"
  using assms
  by (simp add: chan_open_resolved chan_probe_run [where v = v and evs = evs] buf_call_def modify_def chan_connected_def
      sent_def)

lemma small_chan_host_port: "chan_host_port ''cog://down/'' = Inr (''cog://down/'', ''down'', ''17001'')"
  using chan_host_port_eq [of "''down/''"]
  by (simp add: npos_def NUL_def uri_host_def uri_port_def DEFAULT_COGSERVER_PORT_def)

text \<open>A worker whose server closes the connection is lost. \<open>do_recv\<close> closes the descriptor and
  throws, but the thread's socket keeps the number of the closed descriptor, so that no later send
  opens a new one: every one of them fails.\<close>

lemma chan_peer_closed_stale:
  assumes "x_fd s \<noteq> 0" and "x_fd s \<in> set (open_fds (x_net s))"
    and "rx (x_net s) (x_fd s) = map Seg segs @ Eof # evs" and "list_all clean segs" and "NL \<notin> set (concat segs)"
  shows "\<exists>s'. chan_do_recv False s = (Inl (IOException PeerClosed), s') \<and> x_fd s' = x_fd s \<and>
    chan_do_send E msg s' = (Inl (IOException UnableToTalk), s')"
proof -
  obtain ft rb where "recv_loop chan_bufsize False True [] (map Seg segs @ Eof # evs) =
      recv_loop chan_bufsize False ft rb (Eof # evs)"
    using cf.recv_partial [of segs True "[]" "Eof # evs"] assms(4,5) by (auto simp: list_all_iff)
  then have "recv_loop chan_bufsize False True [] (map Seg segs @ Eof # evs) = (RxClosed, Eof # evs)"
    by (simp add: recv_loop.simps)
  with assms show ?thesis
    by (simp add: chan_do_recv_def chan_do_send_def chan_recv_loop_def rx_of_def bnd_def gets_def throw_def seq_def
        ret_def zoom_def sys_close_def Let_def)
qed

section \<open>Opening a connection\<close>

text \<open>Nothing that a probe does touches the buffer or the addresses.\<close>

lemma keeps_rx_outcome:
  "(\<And>r. keeps I K (f r)) \<Longrightarrow> keeps I K a \<Longrightarrow> keeps I K b \<Longrightarrow> keeps I K c \<Longrightarrow> keeps I K d \<Longrightarrow>
     keeps I K (case out of RxReply r \<Rightarrow> f r | RxError \<Rightarrow> a | RxClosed \<Rightarrow> b | RxBlocked \<Rightarrow> c | RxBadRead \<Rightarrow> d)"
  by (cases out) auto

definition no_rt :: "cxx_fail \<Rightarrow> bool" where
  "no_rt e \<longleftrightarrow> (\<forall>c. e \<noteq> RuntimeException c)"

lemma no_rt_simps [simp]: "no_rt (IOException c)" "no_rt Blocked" "no_rt OutOfBounds" "no_rt Sigpipe"
  by (simp_all add: no_rt_def)

lemma keeps_calls_net:
  "keeps (\<lambda>s. Q (c_calls (x_chan s)) (c_servinfo (x_chan s))) no_rt (x_on_net sys_socket)"
  "keeps (\<lambda>s. Q (c_calls (x_chan s)) (c_servinfo (x_chan s))) no_rt (x_on_net (sys_connect E fd a))"
  "keeps (\<lambda>s. Q (c_calls (x_chan s)) (c_servinfo (x_chan s))) no_rt (x_on_net (sys_close fd))"
  "keeps (\<lambda>s. Q (c_calls (x_chan s)) (c_servinfo (x_chan s))) no_rt (x_on_net (sys_send E ns fd msg))"
  by (rule keeps_zoom; auto simp: keeps_def wp_def sys_socket_def sys_connect_def sys_close_def sys_send_def
        split: list.splits prod.splits)+

lemma keeps_calls_recv: "keeps (\<lambda>s. Q (c_calls (x_chan s)) (c_servinfo (x_chan s))) no_rt (chan_do_recv g)"
proof -
  have loop: "keeps (\<lambda>s. Q (c_calls (x_chan s)) (c_servinfo (x_chan s))) no_rt (chan_recv_loop g)"
    by (rule keepsI) (simp add: wp_def chan_recv_loop_def Let_def split: prod.split)
  show ?thesis
    unfolding chan_do_recv_def by (intro keeps_rules keeps_rx_outcome keeps_calls_net loop) auto
qed

lemma keeps_calls_connect: "keeps (\<lambda>s. Q (c_calls (x_chan s)) (c_servinfo (x_chan s))) no_rt (chan_connect_loop E addrs)"
  by (induction addrs) (auto intro!: keeps_rules keeps_calls_net)

lemma keeps_calls_open_sock: "keeps (\<lambda>s. Q (c_calls (x_chan s)) (c_servinfo (x_chan s))) no_rt (chan_open_sock E)"
  unfolding chan_open_sock_def
  by (intro keeps_rules keeps_calls_net keeps_calls_connect keeps_calls_recv keeps_modify) auto

lemma keeps_calls_send: "keeps (\<lambda>s. Q (c_calls (x_chan s)) (c_servinfo (x_chan s))) no_rt (chan_do_send E msg)"
  unfolding chan_do_send_def set_tls_fd_def
  by (intro keeps_rules keeps_calls_net keeps_calls_open_sock keeps_modify) auto

lemma keeps_calls_probe: "keeps (\<lambda>s. Q (c_calls (x_chan s)) (c_servinfo (x_chan s))) no_rt (chan_probe E)"
  unfolding chan_probe_def by (intro keeps_rules keeps_calls_send keeps_calls_recv)

text \<open>C33: an \<open>open_connection\<close> that throws leaves the channel closed: it is not connected, no worker
  threads were started, and the thread is left without a socket unless the address did not even
  resolve.\<close>

theorem chan_open_fails_clean:
  assumes "\<not> chan_connected (x_chan s)" and "chan_open_connection E uri s = (Inl (IOException c), s')"
  shows "\<not> chan_connected (x_chan s') \<and> c_calls (x_chan s') = c_calls (x_chan s) \<and>
    (x_fd s' = 0 \<or> (x_fd s' = x_fd s \<and> x_net s' = x_net s))"
proof (cases "chan_host_port uri")
  case (Inl e)
  with assms show ?thesis by (simp add: chan_open_connection_def bnd_def lift_res_def)
next
  case (Inr uhp)
  obtain uri1 host port where hp: "chan_host_port uri = Inr (uri1, host, port)"
    using Inr by (cases uhp) auto
  show ?thesis
  proof (cases "getaddrinfo E host port")
    case None
    with hp assms show ?thesis
      by (auto simp: chan_open_connection_def bnd_def lift_res_def seq_def modify_def throw_def chan_connected_def)
  next
    case (Some addrs)
    obtain r t where p: "chan_probe E (resolved uri1 host port addrs s) = (r, t)" by fastforce
    have "c_calls (x_chan t) = c_calls (x_chan s)"
      using keeps_state [OF keeps_calls_probe, of "\<lambda>cs i. cs = c_calls (x_chan s)" "resolved uri1 host port addrs s" E] p
      by simp
    with assms(2) p show ?thesis
      by (auto simp: chan_open_resolved [OF hp Some] buf_call_def modify_def chan_connected_def split: sum.splits cxx_fail.splits)
  qed
qed

definition small_fresh :: "(unit, unit, unit) cst" where
  "small_fresh = \<lparr>x_chan = chan_new 1, x_tls = tlso_new, x_rng = 1, x_seq = 0, x_net = small_net []\<rparr>"

lemmas small_fresh_defs = small_fresh_def chan_new_def tlso_new_def small_net_def small_env_def

theorem chan_open_fails_clean_witness:
  "\<exists>s'. chan_open_connection (small_env (\<lambda>_. [])) ''cog://down/'' small_fresh = (Inl (IOException (UnableToConnect ''down'')), s') \<and>
    \<not> chan_connected (x_chan s') \<and> c_calls (x_chan s') = [] \<and> x_fd s' = 0"
proof -
  have g: "getaddrinfo (small_env (\<lambda>_. [])) ''down'' ''17001'' = Some [6]" by (simp add: small_env_def)
  have "\<exists>s'. chan_open_connection (small_env (\<lambda>_. [])) ''cog://down/'' small_fresh = (Inl (IOException (UnableToConnect ''down'')), s')"
    unfolding chan_open_resolved [OF small_chan_host_port g]
    by (simp add: chan_probe_def chan_do_send_def chan_open_sock_def
        resolved_def small_fresh_defs bnd_def seq_def gets_def zoom_def sys_socket_def sys_connect_def sys_close_def
        ret_def throw_def)
  moreover have "\<not> chan_connected (x_chan small_fresh)" "c_calls (x_chan small_fresh) = []" "x_fd small_fresh = 0"
    by (simp_all add: small_fresh_defs chan_connected_def)
  ultimately show ?thesis using chan_open_fails_clean by (metis (no_types))
qed

lemma chan_connect_loop_refused:
  assumes "\<forall>a\<in>set as. \<not> accepts E a (srv (x_net s))"
    and "set (fd_pool (x_net s)) \<inter> set (open_fds (x_net s)) = {}"
  shows "\<exists>n. (\<forall>bs. chan_connect_loop E (as @ bs) s = chan_connect_loop E bs (s\<lparr>x_net := n\<rparr>))
    \<and> srv n = srv (x_net s) \<and> tx n = tx (x_net s) \<and> open_fds n = open_fds (x_net s)
    \<and> fd_pool n = drop (length as) (fd_pool (x_net s))"
  using assms
proof (induction as arbitrary: s)
  case Nil
  then show ?case by (intro exI [of _ "x_net s"]) simp
next
  case (Cons a as)
  define step where "step = (case fd_pool (x_net s) of [] \<Rightarrow> x_net s
    | fd # fds \<Rightarrow> if fd < 0 then (x_net s)\<lparr>fd_pool := fds\<rparr>
       else (x_net s)\<lparr>fd_pool := fds, rx := (rx (x_net s))(fd := [])\<rparr>)"
  have step: "chan_connect_loop E (a # bs) s = chan_connect_loop E bs (s\<lparr>x_net := step\<rparr>)" for bs
    using Cons.prems
    by (auto simp: step_def sys_socket_def sys_connect_def sys_close_def bnd_def seq_def zoom_def split: list.splits)
  have f: "srv step = srv (x_net s)" "tx step = tx (x_net s)" "open_fds step = open_fds (x_net s)"
    "fd_pool step = drop 1 (fd_pool (x_net s))"
    by (simp_all add: step_def split: list.split)
  have "\<forall>a\<in>set as. \<not> accepts E a (srv (x_net (s\<lparr>x_net := step\<rparr>)))"
    "set (fd_pool (x_net (s\<lparr>x_net := step\<rparr>))) \<inter> set (open_fds (x_net (s\<lparr>x_net := step\<rparr>))) = {}"
    using Cons.prems f by (auto dest: in_set_dropD)
  from Cons.IH [OF this] obtain n where
    "\<forall>bs. chan_connect_loop E (as @ bs) (s\<lparr>x_net := step\<rparr>) = chan_connect_loop E bs (s\<lparr>x_net := n\<rparr>)"
    "srv n = srv step" "tx n = tx step" "open_fds n = open_fds step" "fd_pool n = drop (length as) (fd_pool step)" by auto
  with f show ?case
    by (intro exI [of _ n]) (simp add: step del: chan_connect_loop.simps)
qed

text \<open>In a thread without a socket, \<open>open_connection\<close> to a server that answers leaves the channel
  connected with its workers started, having said \<open>sexpr\<close> and probed the server on a connection of
  its own that is closed again: no descriptor is left open. The count of open sockets, however, has
  gone up by one and stays there.\<close>

lemma open_connection_run:
  assumes hp: "chan_host_port uri = Inr (uri1, host, port)" and addrs: "getaddrinfo E host port = Some (as @ a # bs)"
    and none: "x_fd s = 0"
    and refuse: "\<forall>b\<in>set as. \<not> accepts E b (srv (x_net s))" and acc: "accepts E a (srv (x_net s))"
    and pool: "set (fd_pool (x_net s)) \<inter> set (open_fds (x_net s)) = {}"
      "length as < length (fd_pool (x_net s))" "fd = fd_pool (x_net s) ! length as" "0 < fd"
    and acd: "on_accept E a fd (srv (x_net s)) = (x1, evs1)" and up: "\<forall>x. \<not> broken E fd x"
    and dat: "on_data E fd (''sexpr'' @ [NL]) x1 = (x2, evs2)" "on_data E fd probe_msg x2 = (x3, evs3)"
    and prompt: "evs1 @ evs2 = [Seg v]" "v \<noteq> []" "length v \<le> chan_bufsize" "strip v \<noteq> []"
    and prompt2: "evs3 = Seg w # evs" "w \<noteq> []" "length w \<le> chan_bufsize" "strip w \<noteq> []"
  shows "\<exists>s'. chan_open_connection E uri s = (Inr (), s') \<and> chan_connected (x_chan s') \<and>
    c_calls (x_chan s') = c_calls (x_chan s) @ [BOpen NTHREADS] \<and> x_fd s' = 0 \<and>
    open_fds (x_net s') = open_fds (x_net s) \<and> tx (x_net s') = tx (x_net s) @ [(fd, ''sexpr'' @ [NL]), (fd, probe_msg)] \<and>
    c_nsocks (x_chan s') = c_nsocks (x_chan s) + 1 \<and>
    c_servinfo (x_chan s') = Some (as @ a # bs) \<and> c_id (x_chan s') = c_id (x_chan s) \<and>
    fd_pool (x_net s') = drop (Suc (length as)) (fd_pool (x_net s))"
proof -
  let ?s = "resolved uri1 host port (as @ a # bs) s"
  obtain m where
    loop: "\<forall>bs. chan_connect_loop E (as @ bs) ?s = chan_connect_loop E bs (?s\<lparr>x_net := m\<rparr>)"
    and m: "srv m = srv (x_net s)" "tx m = tx (x_net s)" "open_fds m = open_fds (x_net s)"
      "fd_pool m = fd # drop (Suc (length as)) (fd_pool (x_net s))"
    using chan_connect_loop_refused [of as E ?s] refuse pool by (auto simp: Cons_nth_drop_Suc)
  let ?m = "m\<lparr>fd_pool := drop (Suc (length as)) (fd_pool (x_net s)), open_fds := fd # open_fds (x_net s),
      srv := x1, rx := (rx m)(fd := evs1)\<rparr>"
  have conn: "chan_connect_loop E (as @ a # bs) ?s = (Inr (Some fd), ?s\<lparr>x_net := ?m\<rparr>)"
    unfolding loop [rule_format] using m acc acd pool(4)
    by (simp add: bnd_def seq_def zoom_def sys_socket_def sys_connect_def ret_def)
  let ?t = "?s\<lparr>x_net := set_rx fd [] (sent fd (''sexpr'' @ [NL]) x2 evs2 ?m), x_chan := (x_chan ?s)\<lparr>c_nsocks := c_nsocks (x_chan s) + 1\<rparr>,
      x_tls := \<lparr>t_sockfd = fd, t_owner = Some (c_id (x_chan s))\<rparr>\<rparr>"
  have open_sock: "chan_open_sock E ?s = (Inr fd, ?t)"
    using conn up dat(1) prompt pool(4) m
    by (simp add: chan_open_sock_def bnd_def seq_def gets_def ret_def zoom_def sys_send_def modify_def
        chan_prompt_run [of _ v "[]"] sent_def del: chan_connect_loop.simps)
  have "chan_do_send E probe_msg ?s = chan_do_send E probe_msg ?t"
    using none pool(4) by (simp add: chan_do_send_def bnd_def seq_def gets_def ret_def open_sock set_tls_fd_def modify_def)
  then have "chan_probe E ?s = chan_probe E ?t"
    by (simp add: chan_probe_def seq_def bnd_def)
  moreover have "chan_probe E ?t = (Inr (), ?t\<lparr>x_net := set_rx fd evs (sent fd probe_msg x3 evs3 (x_net ?t))\<rparr>)"
    using chan_probe_run [of ?t E x3 evs3 w evs] up dat(2) pool(4) prompt2 m by (simp add: sent_def set_rx_def)
  moreover have "fd \<notin> set (open_fds (x_net s))" using pool(1-3) nth_mem by fastforce
  ultimately show ?thesis
    using pool(4) m
    by (simp add: chan_open_resolved [OF hp addrs] buf_call_def modify_def chan_connected_def sent_def set_rx_def)
qed

end
