(* ===== verification/CogStorage.thy ===== *)
theory CogStorage
  imports Channel ListUtils
begin

text \<open>
  \<open>cog-storage/CogStorage.cc\<close> and \<open>CogIO.cc\<close>: the multi-threaded storage node. Its methods run in
  the user's thread and hand their requests to the channel; the callbacks run in a worker thread
  on the reply.

  The record \<open>cog\<close> holds the fields of the node, the state its channel runs in, the function-static
  \<open>_fid_map\<close> of \<open>decode_atom_list\<close>, and the client's atomspaces. A pointer to an atomspace may also
  be the value \<open>(AtomSpace*) -1\<close> that \<open>is_ok\<close> stores.
\<close>

section \<open>State\<close>

datatype 'h ptr = Null | Ptr 'h | MinusOne

record 'h Pkt =
  p_table :: "'h ptr"
  p_h :: "'h option"
  p_key :: "'h option"

datatype handler = NoopConst | DecodeAtomList | DecodeValue | DecodeKvpList

record ('h, 'w, 'srv) cog =
  g_name :: string
  g_uri :: string
  g_x :: "(handler, 'h Pkt, 'srv) cst"
  g_fid_map :: "(string, 'h) umap"
  g_as :: 'w

type_synonym ('h, 'w, 'srv, 'a) gio = "(('h, 'w, 'srv) cog, 'a) io"

abbreviation on_chan :: "(handler, 'h Pkt, 'srv, 'a) cio \<Rightarrow> ('h, 'w, 'srv, 'a) gio" where
  "on_chan \<equiv> zoom g_x g_x_update"

abbreviation g_on_as :: "('w, 'a) io \<Rightarrow> ('h, 'w, 'srv, 'a) gio" where
  "g_on_as \<equiv> zoom g_as g_as_update"

text \<open>\<open>Pkt()\<close> is zeroed. \<open>Pkt pkt;\<close> leaves the pointer \<open>table\<close> as the stack had it: \<open>junk\<close>.\<close>

definition zero_pkt :: "'h Pkt" where
  "zero_pkt = \<lparr>p_table = Null, p_h = None, p_key = None\<rparr>"

definition raw_pkt :: "'h ptr \<Rightarrow> 'h Pkt" where
  "raw_pkt junk = \<lparr>p_table = junk, p_h = None, p_key = None\<rparr>"

fun ptr_of :: "'h option \<Rightarrow> 'h ptr" where
  "ptr_of None = Null" | "ptr_of (Some h) = Ptr h"

fun as_opt :: "'h ptr \<Rightarrow> 'h option" where
  "as_opt (Ptr h) = Some h" | "as_opt Null = None" | "as_opt MinusOne = None"

section \<open>The connection\<close>

definition cog_connected :: "('h, 'w, 'srv) cog \<Rightarrow> bool" where
  "cog_connected s \<longleftrightarrow> chan_connected (x_chan (g_x s))"

definition cog_open :: "'srv env \<Rightarrow> ('h, 'w, 'srv, unit) gio" where
  "cog_open E =
     bnd (gets cog_connected) (\<lambda>c.
     if c then ret ()
     else bnd (gets g_uri) (\<lambda>uri. on_chan (chan_open_connection E (c_str uri))))"

definition cog_barrier :: "('h, 'w, 'srv, unit) gio" where
  "cog_barrier = on_chan (chan_barrier zero_pkt)"

definition cog_proxy_open :: "'h ptr \<Rightarrow> ('h, 'w, 'srv, unit) gio" where
  "cog_proxy_open junk =
     seq (on_chan (chan_barrier zero_pkt))
     (seq (on_chan (chan_enqueue NoopConst (''(cog-proxy-open)'' @ [NL]) (raw_pkt junk)))
     (on_chan (chan_barrier zero_pkt)))"

definition cog_proxy_close :: "'h ptr \<Rightarrow> ('h, 'w, 'srv, unit) gio" where
  "cog_proxy_close junk =
     seq (on_chan (chan_barrier zero_pkt))
     (seq (on_chan (chan_enqueue NoopConst (''(cog-proxy-close)'' @ [NL]) (raw_pkt junk)))
     (on_chan (chan_barrier zero_pkt)))"

definition cog_close :: "'h ptr \<Rightarrow> ('h, 'w, 'srv, unit) gio" where
  "cog_close junk =
     bnd (gets cog_connected) (\<lambda>c.
     if \<not> c then ret ()
     else
       seq (cog_proxy_close junk)
       (seq (on_chan (chan_barrier zero_pkt))
       (on_chan chan_close_connection)))"

text \<open>The destructors of the node and of its channel.\<close>

definition cog_dtor :: "'h ptr \<Rightarrow> ('h, 'w, 'srv, unit) gio" where
  "cog_dtor junk = noexcept (seq (cog_close junk) (on_chan chan_dtor))"

definition cog_monitor :: "bufstats \<Rightarrow> ('h, 'w, 'srv) cog \<Rightarrow> string" where
  "cog_monitor b s = ''CogStorageNode I/O Queue Stats:'' @ [NL] @ chan_print_stats b (x_chan (g_x s))"

text \<open>The constructor, given the state the channel starts in.\<close>

definition cog_new ::
  "string \<Rightarrow> (handler, 'h Pkt, 'srv) cst \<Rightarrow> (string, 'h) umap \<Rightarrow> 'w \<Rightarrow> cxx_fail + ('h, 'w, 'srv) cog" where
  "cog_new uri x fid w =
     (case cog_init uri of
        Inl e \<Rightarrow> Inl e
      | Inr u \<Rightarrow> Inr \<lparr>g_name = uri, g_uri = u, g_x = x, g_fid_map = fid, g_as = w\<rparr>)"

definition CHECK_OPEN :: "('h, 'w, 'srv, unit) gio" where
  "CHECK_OPEN =
     bnd (gets cog_connected) (\<lambda>c.
     if \<not> c then bnd (gets g_name) (\<lambda>nm. throw (IOException (NodeNotOpen nm))) else ret ())"

section \<open>Texts\<close>

definition cog_SQ :: char where "cog_SQ = CHR 0x27"

definition cog_storeAtom_msg :: "('h, 'v, 't, 'w) atomlib \<Rightarrow> 'w \<Rightarrow> 'h \<Rightarrow> string" where
  "cog_storeAtom_msg L w h =
     (if haveValues L w h
      then ''(cog-set-values! '' @ encode_atom L w h False @ encode_atom_values L w h @ '')'' @ [NL]
      else ''(cog-set-value! '' @ encode_atom L w h False @
           ''(Predicate '' @ [DQ] @ ''*-TruthValueKey-*'' @ [DQ] @ '') #f)'' @ [NL])"

definition cog_removeAtom_msg :: "('h, 'v, 't, 'w) atomlib \<Rightarrow> 'w \<Rightarrow> 'h \<Rightarrow> bool \<Rightarrow> string" where
  "cog_removeAtom_msg L w h recursive =
     (if recursive then ''(cog-extract-recursive! '' @ encode_atom L w h False @ '')'' @ [NL]
      else ''(cog-extract! '' @ encode_atom L w h False @ '')'' @ [NL])"

definition cog_storeValue_msg :: "('h, 'v, 't, 'w) atomlib \<Rightarrow> 'w \<Rightarrow> 'h \<Rightarrow> 'h \<Rightarrow> string" where
  "cog_storeValue_msg L w h key =
     ''(cog-set-value! '' @ encode_atom L w h False @ encode_atom L w key False @
     encode_value L (getValue L w h key) @ '')'' @ [NL]"

definition cog_updateValue_msg :: "('h, 'v, 't, 'w) atomlib \<Rightarrow> 'w \<Rightarrow> 'h \<Rightarrow> 'h \<Rightarrow> 'v \<Rightarrow> string" where
  "cog_updateValue_msg L w h key delta =
     ''(cog-update-value! '' @ encode_atom L w h False @ encode_atom L w key False @
     encode_value L delta @ '')'' @ [NL]"

definition cog_loadValue_msg :: "('h, 'v, 't, 'w) atomlib \<Rightarrow> 'w \<Rightarrow> 'h \<Rightarrow> 'h \<Rightarrow> string" where
  "cog_loadValue_msg L w h key =
     ''(cog-value '' @ encode_atom L w h False @ encode_atom L w key False @ '')'' @ [NL]"

definition cog_typena :: "('h, 'v, 't, 'w) atomlib \<Rightarrow> 'w \<Rightarrow> 'h \<Rightarrow> string" where
  "cog_typena L w h =
     getTypeName L (get_type L h) @ '' '' @
     (if is_node L h then [DQ] @ get_name L h @ [DQ]
      else concat (map (\<lambda>ho. encode_atom L w ho False) (getOutgoingSet L h)))"

definition cog_iknow_msg :: "('h, 'v, 't, 'w) atomlib \<Rightarrow> 'w \<Rightarrow> 'h \<Rightarrow> string" where
  "cog_iknow_msg L w h =
     (if is_node L h then ''(cog-node '' @ [cog_SQ] @ cog_typena L w h @ '')'' @ [NL]
      else ''(cog-link '' @ [cog_SQ] @ cog_typena L w h @ '')'' @ [NL])"

definition cog_get_keys_msg :: "('h, 'v, 't, 'w) atomlib \<Rightarrow> 'w \<Rightarrow> 'h \<Rightarrow> string" where
  "cog_get_keys_msg L w h = ''(cog-keys->alist ('' @ cog_typena L w h @ ''))'' @ [NL]"

definition cog_runQuery_msg ::
  "('h, 'v, 't, 'w) atomlib \<Rightarrow> 'w \<Rightarrow> 'h \<Rightarrow> 'h \<Rightarrow> 'h option \<Rightarrow> bool \<Rightarrow> string" where
  "cog_runQuery_msg L w query key meta fresh =
     ''(cog-execute-cache! '' @ encode_atom L w query False @ encode_atom L w key False @
     (case meta of None \<Rightarrow> [] | Some m \<Rightarrow> encode_atom L w m False @ (if fresh then '' #t'' else [])) @
     '')'' @ [NL]"

definition cog_incoming_msg :: "('h, 'v, 't, 'w) atomlib \<Rightarrow> 'w \<Rightarrow> 'h \<Rightarrow> string" where
  "cog_incoming_msg L w h = ''(cog-incoming-set '' @ encode_atom L w h False @ '')'' @ [NL]"

definition cog_incoming_type_msg :: "('h, 'v, 't, 'w) atomlib \<Rightarrow> 'w \<Rightarrow> 'h \<Rightarrow> 't \<Rightarrow> string" where
  "cog_incoming_type_msg L w h t =
     ''(cog-incoming-by-type '' @ encode_atom L w h False @ '' '' @ [cog_SQ] @ getTypeName L t @ '')'' @ [NL]"

section \<open>Requests\<close>

definition cog_storeAtom :: "('h, 'v, 't, 'w) atomlib \<Rightarrow> 'h \<Rightarrow> ('h, 'w, 'srv, unit) gio" where
  "cog_storeAtom L h =
     seq CHECK_OPEN
     (bnd (gets (\<lambda>s. cog_storeAtom_msg L (g_as s) h)) (\<lambda>msg.
      on_chan (chan_enqueue_noreply zero_pkt msg)))"

definition cog_removeAtom :: "('h, 'v, 't, 'w) atomlib \<Rightarrow> 'h ptr \<Rightarrow> 'h \<Rightarrow> bool \<Rightarrow> ('h, 'w, 'srv, unit) gio" where
  "cog_removeAtom L junk h recursive =
     seq CHECK_OPEN
     (bnd (gets (\<lambda>s. cog_removeAtom_msg L (g_as s) h recursive)) (\<lambda>msg.
      on_chan (chan_enqueue NoopConst msg (raw_pkt junk))))"

definition cog_storeValue :: "('h, 'v, 't, 'w) atomlib \<Rightarrow> 'h \<Rightarrow> 'h \<Rightarrow> ('h, 'w, 'srv, unit) gio" where
  "cog_storeValue L h key =
     seq CHECK_OPEN
     (bnd (gets (\<lambda>s. cog_storeValue_msg L (g_as s) h key)) (\<lambda>msg.
      on_chan (chan_enqueue_noreply zero_pkt msg)))"

definition cog_updateValue :: "('h, 'v, 't, 'w) atomlib \<Rightarrow> 'h \<Rightarrow> 'h \<Rightarrow> 'v \<Rightarrow> ('h, 'w, 'srv, unit) gio" where
  "cog_updateValue L h key delta =
     seq CHECK_OPEN
     (bnd (gets (\<lambda>s. cog_updateValue_msg L (g_as s) h key delta)) (\<lambda>msg.
      on_chan (chan_enqueue_noreply zero_pkt msg)))"

definition cog_loadValue :: "('h, 'v, 't, 'w) atomlib \<Rightarrow> 'h \<Rightarrow> 'h \<Rightarrow> ('h, 'w, 'srv, unit) gio" where
  "cog_loadValue L h key =
     seq CHECK_OPEN
     (bnd (gets (\<lambda>s. cog_loadValue_msg L (g_as s) h key)) (\<lambda>msg.
      on_chan (chan_enqueue DecodeValue msg \<lparr>p_table = Null, p_h = Some h, p_key = Some key\<rparr>)))"

definition cog_is_ok :: "string \<Rightarrow> 'h Pkt \<Rightarrow> 'h Pkt" where
  "cog_is_ok reply pkt = (if \<not> compare0_eq 2 reply ''()'' then pkt\<lparr>p_table := MinusOne\<rparr> else pkt)"

definition cog_getAtom :: "('h, 'v, 't, 'w) atomlib \<Rightarrow> 'srv env \<Rightarrow> 'h ptr \<Rightarrow> 'h \<Rightarrow> ('h, 'w, 'srv, unit) gio" where
  "cog_getAtom L E junk h =
     seq CHECK_OPEN
     (bnd (gets g_as) (\<lambda>w.
      bnd (on_chan (chan_synchro E (cog_iknow_msg L w h))) (\<lambda>reply.
      if p_table (cog_is_ok reply (raw_pkt junk)) = Null then ret ()
      else on_chan (chan_enqueue DecodeKvpList (cog_get_keys_msg L w h)
             \<lparr>p_table = Null, p_h = Some h, p_key = None\<rparr>))))"

abbreviation table_pkt :: "'h option \<Rightarrow> 'h Pkt" where
  "table_pkt table \<equiv> \<lparr>p_table = ptr_of table, p_h = None, p_key = None\<rparr>"

definition cog_fetchIncomingSet ::
  "('h, 'v, 't, 'w) atomlib \<Rightarrow> 'h option \<Rightarrow> 'h \<Rightarrow> ('h, 'w, 'srv, unit) gio" where
  "cog_fetchIncomingSet L table h =
     seq CHECK_OPEN
     (bnd (gets (\<lambda>s. cog_incoming_msg L (g_as s) h)) (\<lambda>msg.
      on_chan (chan_enqueue DecodeAtomList msg (table_pkt table))))"

definition cog_fetchIncomingByType ::
  "('h, 'v, 't, 'w) atomlib \<Rightarrow> 'h option \<Rightarrow> 'h \<Rightarrow> 't \<Rightarrow> ('h, 'w, 'srv, unit) gio" where
  "cog_fetchIncomingByType L table h t =
     seq CHECK_OPEN
     (bnd (gets (\<lambda>s. cog_incoming_type_msg L (g_as s) h t)) (\<lambda>msg.
      on_chan (chan_enqueue DecodeAtomList msg (table_pkt table))))"

definition cog_loadAtomSpace :: "'h option \<Rightarrow> ('h, 'w, 'srv, unit) gio" where
  "cog_loadAtomSpace table =
     seq CHECK_OPEN
     (seq (on_chan (chan_enqueue DecodeAtomList
             (''(cog-get-atoms '' @ [cog_SQ] @ ''Node #t)'' @ [NL]) (table_pkt table)))
     (seq (on_chan chan_flush)
     (seq (on_chan (chan_enqueue DecodeAtomList
             (''(cog-get-atoms '' @ [cog_SQ] @ ''Link #t)'' @ [NL]) (table_pkt table)))
     (on_chan (chan_barrier zero_pkt)))))"

definition cog_loadType :: "('h, 'v, 't, 'w) atomlib \<Rightarrow> 'h option \<Rightarrow> 't \<Rightarrow> ('h, 'w, 'srv, unit) gio" where
  "cog_loadType L table t =
     seq CHECK_OPEN
     (on_chan (chan_enqueue DecodeAtomList
        (''(cog-get-atoms '' @ [cog_SQ] @ getTypeName L t @ '')'' @ [NL]) (table_pkt table)))"

definition cog_storeAtomSpace :: "('h, 'v, 't, 'w) atomlib \<Rightarrow> 'h \<Rightarrow> ('h, 'w, 'srv, unit) gio" where
  "cog_storeAtomSpace L table =
     seq CHECK_OPEN
     (bnd (gets (\<lambda>s. all_atoms L (g_as s) table)) (\<lambda>hs.
      seq (for_each (cog_storeAtom L) hs)
      (on_chan (chan_barrier zero_pkt))))"

definition cog_kill_data :: "'h ptr \<Rightarrow> ('h, 'w, 'srv, unit) gio" where
  "cog_kill_data junk =
     seq CHECK_OPEN
     (seq (on_chan (chan_barrier zero_pkt))
     (seq (on_chan (chan_enqueue NoopConst (''(cog-atomspace-clear)'' @ [NL]) (raw_pkt junk)))
     (on_chan (chan_barrier zero_pkt))))"

definition cog_create :: "('h, 'w, 'srv, unit) gio" where
  "cog_create = ret ()"

definition cog_destroy :: "'h ptr \<Rightarrow> ('h, 'w, 'srv, unit) gio" where
  "cog_destroy junk = cog_kill_data junk"

definition cog_erase :: "'h ptr \<Rightarrow> ('h, 'w, 'srv, unit) gio" where
  "cog_erase junk = cog_kill_data junk"

definition cog_set_proxy :: "('h, 'v, 't, 'w) atomlib \<Rightarrow> 'h ptr \<Rightarrow> 'h \<Rightarrow> ('h, 'w, 'srv, unit) gio" where
  "cog_set_proxy L junk h =
     seq CHECK_OPEN
     (seq (cog_storeAtom L h)
     (seq cog_barrier
     (bnd (gets (\<lambda>s. ''(cog-set-proxy! '' @ encode_atom L (g_as s) h False @ '')'' @ [NL])) (\<lambda>msg.
      seq (on_chan (chan_enqueue NoopConst msg (raw_pkt junk)))
      (on_chan (chan_barrier zero_pkt))))))"

definition cog_runQuery ::
  "('h, 'v, 't, 'w) atomlib \<Rightarrow> 'h \<Rightarrow> 'h \<Rightarrow> 'h option \<Rightarrow> bool \<Rightarrow> ('h, 'w, 'srv, unit) gio" where
  "cog_runQuery L query key meta fresh =
     seq CHECK_OPEN
     (bnd (gets (\<lambda>s. cog_runQuery_msg L (g_as s) query key meta fresh)) (\<lambda>msg.
      on_chan (chan_enqueue DecodeValue msg \<lparr>p_table = Null, p_h = Some query, p_key = Some key\<rparr>)))"

section \<open>Callbacks\<close>

definition cog_decode_value :: "('h, 'v, 't, 'w) atomlib \<Rightarrow> string \<Rightarrow> 'h Pkt \<Rightarrow> ('h, 'w, 'srv, unit) gio" where
  "cog_decode_value L reply pkt =
     g_on_as
       (bnd (lift_lib (decode_value L reply 0)) (\<lambda>(vp, pos).
        case (p_h pkt, p_key pkt) of
          (Some h, Some key) \<Rightarrow>
            bnd (gets (\<lambda>w. getAtomSpace L w h)) (\<lambda>as.
            bnd (case as of None \<Rightarrow> ret vp | Some a \<Rightarrow> lib_call (sexpr_add_atoms L a vp)) (\<lambda>vp.
            modify (setValue L h key vp)))
        | _ \<Rightarrow> throw NullHandle))"

definition cog_decode_kvp_list :: "('h, 'v, 't, 'w) atomlib \<Rightarrow> string \<Rightarrow> 'h Pkt \<Rightarrow> ('h, 'w, 'srv, unit) gio" where
  "cog_decode_kvp_list L reply pkt =
     (case p_h pkt of
        None \<Rightarrow> throw NullHandle
      | Some h \<Rightarrow> g_on_as (ro_decode_alist L (as_opt (p_table pkt)) h reply))"

fun cog_atoms_loop ::
  "nat \<Rightarrow> ('h, 'v, 't, 'w) atomlib \<Rightarrow> 'h option \<Rightarrow> string \<Rightarrow> nat \<Rightarrow> nat \<Rightarrow> ('h, 'w, 'srv, unit) gio" where
  "cog_atoms_loop 0 L table expr end_pos l = throw Diverges"
| "cog_atoms_loop (Suc fuel) L table expr end_pos l =
     bnd (lift_lib (get_next_expr L expr l end_pos)) (\<lambda>(pcnt, l, r).
     if l = r then ret ()
     else if 0 < pcnt then ret ()
     else
       bnd (gets g_fid_map) (\<lambda>fid.
       bnd (lift_lib (decode_atom_in L expr l r fid)) (\<lambda>(h, fid').
       seq (modify (g_fid_map_update (\<lambda>_. fid')))
       (bnd (g_on_as (lib_call (add_nocheck L table h))) (\<lambda>h.
        bnd (lift_res (substr expr l (size_add (size_sub r l) 1))) (\<lambda>sub.
        seq (on_chan (chan_enqueue DecodeKvpList (''(cog-keys->alist '' @ sub @ '')'' @ [NL])
               \<lparr>p_table = Null, p_h = Some h, p_key = None\<rparr>))
        (cog_atoms_loop fuel L table expr end_pos (size_add r 1))))))))"

definition cog_decode_atom_list :: "('h, 'v, 't, 'w) atomlib \<Rightarrow> string \<Rightarrow> 'h Pkt \<Rightarrow> ('h, 'w, 'srv, unit) gio" where
  "cog_decode_atom_list L expr pkt =
     (let l = size_add (find_char (CHR ''('') expr 0) 1;
          end_pos = rfind_char (CHR '')'') expr
      in if l = end_pos then ret ()
         else cog_atoms_loop (length expr + 2) L (as_opt (p_table pkt)) expr end_pos l)"

fun cog_callback :: "('h, 'v, 't, 'w) atomlib \<Rightarrow> handler \<Rightarrow> string \<Rightarrow> 'h Pkt \<Rightarrow> ('h, 'w, 'srv, unit) gio" where
  "cog_callback L NoopConst reply pkt = ret ()"
| "cog_callback L DecodeAtomList reply pkt = cog_decode_atom_list L reply pkt"
| "cog_callback L DecodeValue reply pkt = cog_decode_value L reply pkt"
| "cog_callback L DecodeKvpList reply pkt = cog_decode_kvp_list L reply pkt"

text \<open>A worker's turn: send the message and run its callback on the reply. A reply without a
  callback would be a call through a null pointer.\<close>

definition cog_work ::
  "('h, 'v, 't, 'w) atomlib \<Rightarrow> 'srv env \<Rightarrow> (handler, 'h Pkt) Msg \<Rightarrow> ('h, 'w, 'srv, unit) gio" where
  "cog_work L E m =
     bnd (on_chan (chan_reply_handler E m)) (\<lambda>r.
     case r of
       None \<Rightarrow> ret ()
     | Some reply \<Rightarrow>
         (case m_handler m of
            None \<Rightarrow> throw NullHandle
          | Some cb \<Rightarrow> cog_callback L cb reply (m_data m)))"

section \<open>The interface\<close>

text \<open>The calls a client can make that need an open node, as data. \<open>junk\<close> is what the uninitialised
  packets of a call hold.\<close>

datatype ('h, 'v, 't) cog_op =
    GGetAtom 'h
  | GFetchIncomingSet "'h option" 'h
  | GFetchIncomingByType "'h option" 'h 't
  | GStoreAtom 'h
  | GRemoveAtom 'h bool
  | GStoreValue 'h 'h
  | GUpdateValue 'h 'h 'v
  | GLoadValue 'h 'h
  | GRunQuery 'h 'h "'h option" bool
  | GLoadType "'h option" 't
  | GLoadAtomSpace "'h option"
  | GStoreAtomSpace 'h
  | GKillData
  | GSetProxy 'h

fun cog_run ::
  "('h, 'v, 't, 'w) atomlib \<Rightarrow> 'srv env \<Rightarrow> 'h ptr \<Rightarrow> ('h, 'v, 't) cog_op \<Rightarrow> ('h, 'w, 'srv, unit) gio" where
  "cog_run L E junk (GGetAtom h) = cog_getAtom L E junk h"
| "cog_run L E junk (GFetchIncomingSet table h) = cog_fetchIncomingSet L table h"
| "cog_run L E junk (GFetchIncomingByType table h t) = cog_fetchIncomingByType L table h t"
| "cog_run L E junk (GStoreAtom h) = cog_storeAtom L h"
| "cog_run L E junk (GRemoveAtom h r) = cog_removeAtom L junk h r"
| "cog_run L E junk (GStoreValue h key) = cog_storeValue L h key"
| "cog_run L E junk (GUpdateValue h key delta) = cog_updateValue L h key delta"
| "cog_run L E junk (GLoadValue h key) = cog_loadValue L h key"
| "cog_run L E junk (GRunQuery query key meta fresh) = cog_runQuery L query key meta fresh"
| "cog_run L E junk (GLoadType table t) = cog_loadType L table t"
| "cog_run L E junk (GLoadAtomSpace table) = cog_loadAtomSpace table"
| "cog_run L E junk (GStoreAtomSpace table) = cog_storeAtomSpace L table"
| "cog_run L E junk GKillData = cog_kill_data junk"
| "cog_run L E junk (GSetProxy h) = cog_set_proxy L junk h"

lemma CHECK_OPEN_run:
  "CHECK_OPEN s = (if cog_connected s then (Inr (), s) else (Inl (IOException (NodeNotOpen (g_name s))), s))"
  by (simp add: CHECK_OPEN_def bnd_def gets_def throw_def ret_def)

text \<open>Every call on a node that is not open throws, names the node, sends and queues nothing and
  changes nothing.\<close>

lemma cog_closed_rejects:
  assumes "\<not> cog_connected s"
  shows "cog_run L E junk op s = (Inl (IOException (NodeNotOpen (g_name s))), s)"
  using assms
  by (cases op)
     (simp_all add: cog_getAtom_def cog_fetchIncomingSet_def cog_fetchIncomingByType_def cog_storeAtom_def
       cog_removeAtom_def cog_storeValue_def cog_updateValue_def cog_loadValue_def cog_runQuery_def cog_loadType_def
       cog_loadAtomSpace_def cog_storeAtomSpace_def cog_kill_data_def cog_set_proxy_def CHECK_OPEN_run seq_def bnd_def)

text \<open>An open node of the example; the thread has the socket 3.\<close>

definition small_cog :: "recv_ev list \<Rightarrow> (nat, (nat \<times> nat \<times> nat) list, unit) cog" where
  "small_cog evs =
     \<lparr>g_name = ''cog://host/'', g_uri = ''cog://host/'',
      g_x = \<lparr>x_chan = \<lparr>c_id = 1, c_uri = ''cog://host/'', c_host = ''host'', c_port = ''17001'', c_servinfo = Some [6, 7],
                       c_nsocks = 1, c_calls = []\<rparr>,
             x_tls = \<lparr>t_sockfd = 3, t_owner = Some 1\<rparr>, x_rng = 1, x_seq = 0, x_net = small_net evs\<rparr>,
      g_fid_map = [], g_as = []\<rparr>"

lemma small_cog_simps [simp]:
  "cog_connected (small_cog evs)" "c_calls (x_chan (g_x (small_cog evs))) = []" "g_as (small_cog evs) = []"
  "x_tls (g_x (small_cog evs)) = \<lparr>t_sockfd = 3, t_owner = Some 1\<rparr>" "x_net (g_x (small_cog evs)) = small_net evs"
  "x_rng (g_x (small_cog evs)) = 1"
  by (simp_all add: small_cog_def cog_connected_def chan_connected_def)

section \<open>What the calls put into the buffer\<close>

abbreviation calls :: "('h, 'w, 'srv) cog \<Rightarrow> (handler, 'h Pkt) Msg bufcall list" where
  "calls s \<equiv> c_calls (x_chan (g_x s))"

definition plain :: "'c option \<Rightarrow> bool \<Rightarrow> string \<Rightarrow> 'd \<Rightarrow> ('c, 'd) Msg" where
  "plain cb nr str d = \<lparr>m_handler = cb, m_sequence = 0, m_noreply = nr, m_str = str, m_data = d\<rparr>"

text \<open>The literal that the constructor compares 19 characters with has 18: the test holds of that text
  alone.\<close>

lemma numbered_iff: "compare0_eq 19 str ''(cog-update-value!'' \<longleftrightarrow> str = ''(cog-update-value!''"
proof
  assume "compare0_eq 19 str ''(cog-update-value!''"
  then have t: "take 19 str = ''(cog-update-value!''" by (simp add: compare0_eq_def)
  then have "length (take 19 str) = 18" by simp
  then have "length str = 18" by (simp split: if_splits add: min_def)
  with t show "str = ''(cog-update-value!''" by simp
qed (simp add: compare0_eq_def)

lemma mk_Msg_plain: "str \<noteq> ''(cog-update-value!'' \<Longrightarrow> mk_Msg cb nr str d ctr = (plain cb nr str d, ctr)"
  by (simp add: mk_Msg_def numbered_iff plain_def)

lemma line_not_update: "last str = NL \<Longrightarrow> str \<noteq> ''(cog-update-value!''"
  by (auto simp: NL_def)

definition add_call :: "(handler, 'h Pkt) Msg bufcall \<Rightarrow> ('h, 'w, 'srv) cog \<Rightarrow> ('h, 'w, 'srv) cog" where
  "add_call c s = s\<lparr>g_x := (g_x s)\<lparr>x_chan := (x_chan (g_x s))\<lparr>c_calls := calls s @ [c]\<rparr>\<rparr>\<rparr>"

lemma add_call_fields [simp]:
  "calls (add_call c s) = calls s @ [c]" "g_as (add_call c s) = g_as s" "g_name (add_call c s) = g_name s"
  "cog_connected (add_call c s) = cog_connected s" "g_fid_map (add_call c s) = g_fid_map s"
  "x_net (g_x (add_call c s)) = x_net (g_x s)" "x_tls (g_x (add_call c s)) = x_tls (g_x s)"
  "x_rng (g_x (add_call c s)) = x_rng (g_x s)"
  by (simp_all add: add_call_def cog_connected_def chan_connected_def)

lemma enqueue_run:
  "str \<noteq> ''(cog-update-value!'' \<Longrightarrow>
     on_chan (chan_enqueue cb str d) s = (Inr (), add_call (BInsert (plain (Some cb) False str d)) s)"
  by (simp add: chan_enqueue_def new_msg_def mk_Msg_plain bnd_def zoom_def buf_call_def modify_def add_call_def)

lemma enqueue_noreply_run:
  "str \<noteq> ''(cog-update-value!'' \<Longrightarrow>
     on_chan (chan_enqueue_noreply d str) s = (Inr (), add_call (BInsert (plain None True str d)) s)"
  by (simp add: chan_enqueue_noreply_def new_msg_def mk_Msg_plain bnd_def zoom_def buf_call_def modify_def add_call_def)

definition fence :: "nat \<Rightarrow> 'd \<Rightarrow> ('c, 'd) Msg" where
  "fence x d = plain None True (barrier_text ''4'' (fst (barrier_rnd x))) d"

definition next_rng :: "('h, 'w, 'srv) cog \<Rightarrow> ('h, 'w, 'srv) cog" where
  "next_rng s = s\<lparr>g_x := (g_x s)\<lparr>x_rng := snd (barrier_rnd (x_rng (g_x s)))\<rparr>\<rparr>"

lemma next_rng_fields [simp]:
  "calls (next_rng s) = calls s" "g_as (next_rng s) = g_as s" "g_name (next_rng s) = g_name s"
  "cog_connected (next_rng s) = cog_connected s"
  by (simp_all add: next_rng_def cog_connected_def)

lemma barrier_run:
  "on_chan (chan_barrier d) s = (Inr (), add_call (BBarrierMsg (fence (x_rng (g_x s)) d)) (next_rng s))"
proof -
  obtain rnd x where r: "barrier_rnd (x_rng (g_x s)) = (rnd, x)" by fastforce
  have "barrier_msg ''4'' rnd = barrier_text ''4'' rnd" by (simp add: barrier_msg_whole)
  moreover have "barrier_text ''4'' rnd \<noteq> ''(cog-update-value!''"
    by (rule line_not_update) (simp add: barrier_text_def)
  ultimately show ?thesis
    by (simp add: chan_barrier_def bnd_def gets_def seq_def modify_def zoom_def new_msg_def mk_Msg_plain r buf_call_def
        add_call_def next_rng_def fence_def)
qed

text \<open>An update message never gets a sequence number. The constructor compares 19 characters of the
  message with a literal of 18, so the test fails for every message \<open>updateValue\<close> builds: it is
  treated as an idempotent message, and the counter stays where it was.\<close>

lemma cog_update_unnumbered:
  "mk_Msg cb nr (cog_updateValue_msg L w h key delta) d ctr =
     (\<lparr>m_handler = cb, m_sequence = 0, m_noreply = nr, m_str = cog_updateValue_msg L w h key delta, m_data = d\<rparr>, ctr)"
  using mk_Msg_plain [of "cog_updateValue_msg L w h key delta", OF line_not_update]
  by (simp add: cog_updateValue_msg_def plain_def)

lemma store_msg_line: "cog_storeAtom_msg L w h \<noteq> ''(cog-update-value!''"
  by (rule line_not_update) (simp add: cog_storeAtom_msg_def)

lemma storeAtom_run:
  "cog_connected s \<Longrightarrow>
     cog_storeAtom L h s = (Inr (), add_call (BInsert (plain None True (cog_storeAtom_msg L (g_as s) h) zero_pkt)) s)"
  by (simp add: cog_storeAtom_def CHECK_OPEN_run seq_def bnd_def gets_def enqueue_noreply_run store_msg_line)

lemma storeAtoms_run:
  assumes "cog_connected s"
  shows "\<exists>s'. for_each (cog_storeAtom L) hs s = (Inr (), s') \<and> cog_connected s' \<and> g_as s' = g_as s \<and>
    calls s' = calls s @ map (\<lambda>h. BInsert (plain None True (cog_storeAtom_msg L (g_as s) h) zero_pkt)) hs"
  using assms
proof (induction hs arbitrary: s)
  case (Cons h hs)
  let ?s = "add_call (BInsert (plain None True (cog_storeAtom_msg L (g_as s) h) zero_pkt)) s"
  from Cons.IH [of ?s] Cons.prems obtain s' where "for_each (cog_storeAtom L) hs ?s = (Inr (), s')" "cog_connected s'"
    "g_as s' = g_as s" "calls s' = calls ?s @ map (\<lambda>h. BInsert (plain None True (cog_storeAtom_msg L (g_as s) h) zero_pkt)) hs"
    by auto
  with Cons.prems show ?case by (simp add: storeAtom_run seq_def bnd_def)
qed (simp add: ret_def)

lemma storeAtomSpace_run:
  assumes "cog_connected s"
  shows "\<exists>s' k. cog_storeAtomSpace L table s = (Inr (), s') \<and>
    calls s' = calls s @ map (\<lambda>h. BInsert (plain None True (cog_storeAtom_msg L (g_as s) h) zero_pkt)) (all_atoms L (g_as s) table)
      @ [BBarrierMsg k]"
proof -
  from storeAtoms_run [OF assms] obtain s1 where
    "for_each (cog_storeAtom L) (all_atoms L (g_as s) table) s = (Inr (), s1)" "cog_connected s1"
    "calls s1 = calls s @ map (\<lambda>h. BInsert (plain None True (cog_storeAtom_msg L (g_as s) h) zero_pkt)) (all_atoms L (g_as s) table)"
    by blast
  with assms show ?thesis
    by (simp add: cog_storeAtomSpace_def CHECK_OPEN_run seq_def bnd_def gets_def barrier_run)
qed

lemma updateValue_run:
  "cog_connected s \<Longrightarrow>
     cog_updateValue L h key delta s =
       (Inr (), add_call (BInsert (plain None True (cog_updateValue_msg L (g_as s) h key delta) zero_pkt)) s)"
proof -
  have "cog_updateValue_msg L w h key delta \<noteq> ''(cog-update-value!''" for w
    by (rule line_not_update) (simp add: cog_updateValue_msg_def)
  then show "cog_connected s \<Longrightarrow> ?thesis"
    by (simp add: cog_updateValue_def CHECK_OPEN_run seq_def bnd_def gets_def enqueue_noreply_run)
qed

definition clear_msg :: "'h ptr \<Rightarrow> (handler, 'h Pkt) Msg" where
  "clear_msg junk = plain (Some NoopConst) False (''(cog-atomspace-clear)'' @ [NL]) (raw_pkt junk)"

lemma kill_data_run:
  assumes "cog_connected s"
  shows "\<exists>s' k1 k2. cog_kill_data junk s = (Inr (), s') \<and>
    calls s' = calls s @ [BBarrierMsg k1, BInsert (clear_msg junk), BBarrierMsg k2]"
  using assms
  by (simp add: cog_kill_data_def CHECK_OPEN_run seq_def bnd_def barrier_run enqueue_run clear_msg_def)

text \<open>\<open>close\<close> on an open node asks the server to close the proxy between two barriers, then drains
  and closes the buffer, and leaves the node not connected.\<close>

lemma cog_close_closes:
  assumes "cog_connected s"
  shows "\<exists>s' k1 k2 k3. cog_close junk s = (Inr (), s') \<and> \<not> cog_connected s' \<and>
    calls s' = calls s @ [BBarrierMsg k1, BInsert (plain (Some NoopConst) False (''(cog-proxy-close)'' @ [NL]) (raw_pkt junk)),
      BBarrierMsg k2, BBarrierMsg k3, BBarrier, BClose]"
  using assms
  by (simp add: cog_close_def cog_proxy_close_def seq_def bnd_def gets_def barrier_run enqueue_run)
     (simp add: chan_close_connection_def zoom_def buf_call_def set_servinfo_def seq_def bnd_def modify_def
       cog_connected_def chan_connected_def)

section \<open>Fetching\<close>

text \<open>The receiving side of a request, in the thread whose socket the state holds.\<close>

lemma synchro_run:
  assumes "protocol E" and "worker_in_sync x" and "wants_reply msg"
    and "is_reply (snd (on_data E (x_fd x) msg (srv (x_net x)))) m"
  shows "\<exists>n. chan_synchro E msg x = (Inr m, x\<lparr>x_net := n\<rparr>) \<and> worker_in_sync (x\<lparr>x_net := n\<rparr>) \<and>
    tx n = tx (x_net x) @ [(x_fd x, msg)]"
proof -
  have "wp (seq (chan_do_send E msg) (bnd (chan_do_recv False) ret))
    (\<lambda>r x'. \<exists>n. r = m \<and> x' = x\<lparr>x_net := n\<rparr> \<and> worker_in_sync (x\<lparr>x_net := n\<rparr>) \<and> tx n = tx (x_net x) @ [(x_fd x, msg)])
    (\<lambda>_ _. False) x"
  proof (rule wp_worker_exchange [OF assms(1-3)], goal_cases)
    case (1 n m')
    with assms(4) have "m' = m" by (simp add: is_reply_def)
    with 1 show ?case by (auto simp: wp_ret)
  qed
  from wp_returns [OF this] show ?thesis by (auto simp: chan_synchro_def bnd_ret_right)
qed

lemma iknow_wants_reply: "wants_reply (cog_iknow_msg L w h)"
  by (simp add: cog_iknow_msg_def wants_reply_iff)

lemma cog_getAtom_run:
  assumes "protocol E" and "cog_connected s" and "worker_in_sync (g_x s)"
    and "is_reply (snd (on_data E (x_fd (g_x s)) (cog_iknow_msg L (g_as s) h) (srv (x_net (g_x s))))) m"
  shows "\<exists>n. cog_getAtom L E junk h s =
      (Inr (), (if p_table (cog_is_ok m (raw_pkt junk)) = Null then s\<lparr>g_x := (g_x s)\<lparr>x_net := n\<rparr>\<rparr>
        else add_call (BInsert (plain (Some DecodeKvpList) False (cog_get_keys_msg L (g_as s) h)
               \<lparr>p_table = Null, p_h = Some h, p_key = None\<rparr>)) (s\<lparr>g_x := (g_x s)\<lparr>x_net := n\<rparr>\<rparr>))) \<and>
    worker_in_sync ((g_x s)\<lparr>x_net := n\<rparr>) \<and> tx n = tx (x_net (g_x s)) @ [(x_fd (g_x s), cog_iknow_msg L (g_as s) h)]"
proof -
  from synchro_run [OF assms(1,3) iknow_wants_reply assms(4)] obtain n where
    n: "chan_synchro E (cog_iknow_msg L (g_as s) h) (g_x s) = (Inr m, (g_x s)\<lparr>x_net := n\<rparr>)"
      "worker_in_sync ((g_x s)\<lparr>x_net := n\<rparr>)" "tx n = tx (x_net (g_x s)) @ [(x_fd (g_x s), cog_iknow_msg L (g_as s) h)]" by blast
  have l: "cog_get_keys_msg L w h \<noteq> ''(cog-update-value!''" for w
    by (rule line_not_update) (simp add: cog_get_keys_msg_def)
  have z: "on_chan (chan_synchro E (cog_iknow_msg L (g_as s) h)) s = (Inr m, s\<lparr>g_x := (g_x s)\<lparr>x_net := n\<rparr>\<rparr>)"
    using n(1) by (simp add: zoom_def)
  show ?thesis
    using assms(2) n(2,3)
    by (intro exI [of _ n]) (simp add: cog_getAtom_def CHECK_OPEN_run seq_def bnd_def gets_def ret_def enqueue_run l z)
qed

text \<open>\<open>getAtom\<close> asks the server whether it knows the atom, in the caller's thread, and queues the
  request for the atom's values if it does. If it does not, what happens depends on the uninitialised
  pointer \<open>pkt.table\<close>: the values are requested all the same, unless that pointer happens to be null.\<close>

lemma cog_getAtom_uninitialised:
  assumes "protocol E" and "cog_connected s" and "worker_in_sync (g_x s)"
    and "is_reply (snd (on_data E (x_fd (g_x s)) (cog_iknow_msg L (g_as s) h) (srv (x_net (g_x s))))) m"
  shows "\<exists>s'. cog_getAtom L E junk h s = (Inr (), s') \<and> g_as s' = g_as s \<and>
    tx (x_net (g_x s')) = tx (x_net (g_x s)) @ [(x_fd (g_x s), cog_iknow_msg L (g_as s) h)] \<and>
    calls s' = calls s @
      (if take 2 m = ''()'' \<and> junk = Null then []
       else [BInsert (plain (Some DecodeKvpList) False (cog_get_keys_msg L (g_as s) h) \<lparr>p_table = Null, p_h = Some h, p_key = None\<rparr>)])"
proof -
  have "p_table (cog_is_ok m (raw_pkt junk)) = Null \<longleftrightarrow> take 2 m = ''()'' \<and> junk = Null"
    by (simp add: cog_is_ok_def raw_pkt_def compare0_eq_def)
  with cog_getAtom_run [OF assms, of junk] show ?thesis by (auto simp: add_call_def)
qed

lemma small_worker: "worker_in_sync (g_x (small_cog []))"
  by (simp add: worker_in_sync_def small_net_def idle_only_def)

lemma cog_atoms_loop_ends:
  fixes s :: "('h, 'w, 'srv) cog"
  assumes fwd: "\<And>l p l' r. get_next_expr L expr l e = Inr (p, l', r) \<Longrightarrow> l' \<noteq> r \<Longrightarrow> \<not> 0 < p \<Longrightarrow> l \<le> r \<and> r < length expr"
    and "length expr < npos" and "0 < fuel" and "length expr < fuel + l"
  shows "fst (cog_atoms_loop fuel L table expr e l s) \<noteq> Inl Diverges"
  using assms(3,4)
proof (induction fuel arbitrary: l s)
  case (Suc fuel)
  have step: "fst (cog_atoms_loop fuel L table expr e (size_add r 1) t) \<noteq> Inl Diverges"
    if "get_next_expr L expr l e = Inr (p, l', r)" "l' \<noteq> r" "\<not> 0 < p" for p l' r and t :: "('h, 'w, 'srv) cog"
  proof -
    from fwd [OF that] have "l \<le> r" "r < length expr" by auto
    moreover from this assms(2) have "size_add r 1 = Suc r" by (simp add: size_add_def npos_def)
    ultimately show ?thesis using Suc.prems by (intro Suc.IH) auto
  qed
  show ?case
    using step
    by (auto simp: bnd_def seq_def lift_lib_def lift_res_def substr_def gets_def ret_def modify_def zoom_def lib_call_def
        chan_enqueue_def new_msg_def buf_call_def split: sum.splits prod.splits if_splits)
qed simp

text \<open>C36: the callback on a list of atoms ends, on any reply, as long as the coder's brackets move
  forward.\<close>

theorem cog_atom_list_terminates:
  assumes "length expr < npos"
    and "\<forall>l p l' r. get_next_expr L expr l (rfind_char (CHR '')'') expr) = Inr (p, l', r) \<longrightarrow> l' \<noteq> r \<longrightarrow> \<not> 0 < p \<longrightarrow>
           l \<le> r \<and> r < length expr"
  shows "fst (cog_decode_atom_list L expr pkt s) \<noteq> Inl Diverges"
  unfolding cog_decode_atom_list_def Let_def
  using cog_atoms_loop_ends [OF _ assms(1), of L "rfind_char (CHR '')'') expr" "length expr + 2"] assms(2)
  by (auto simp: ret_def)

theorem cog_atom_list_terminates_witness:
  "fst (cog_decode_atom_list small_lib (''(1.11.)'' @ [NL]) zero_pkt (small_cog [])) \<noteq> Inl Diverges"
proof (rule cog_atom_list_terminates)
  show "length (''(1.11.)'' @ [NL]) < npos" by (simp add: npos_def)
qed (auto simp: small_lib_def split: if_splits sum.splits dest!: read_num_advances)

end
