(* ===== verification/PersistSCM.thy ===== *)
theory PersistSCM
  imports SimpleIO CogStorage
begin

text \<open>
  \<open>CogSimplePersistSCM.cc\<close> and \<open>CogPersistSCM.cc\<close>: the scheme commands that open and close one storage
  node of the current atomspace. The two classes differ in the node they make and in the words of
  their messages, so the operations are given once, over the operations of a storage node, and
  applied to both.

  What the commands rely on is the locale \<open>storage_node\<close>: an \<open>open\<close> that returns leaves the node
  connected, a \<open>close\<close> that returns leaves it not connected, and what they throw are I/O exceptions
  and faults. Both storage nodes are instances.

  The storage nodes live in the atomspaces, by their name; \<open>sc_storage\<close> is the pointer \<open>_storage\<close>,
  given as the atomspace and name of the node it points to.
\<close>

record ('a, 'st) scm =
  sc_as :: "'a option"
  sc_storage :: "('a \<times> string) option"
  sc_nodes :: "'a \<times> string \<Rightarrow> 'st option"

record 'st node_ops =
  no_new :: "string \<Rightarrow> cxx_fail + 'st"
  no_open :: "('st, unit) io"
  no_close :: "('st, unit) io"
  no_connected :: "'st \<Rightarrow> bool"

definition scm_new :: "'a option \<Rightarrow> ('a, 'st) scm" where
  "scm_new as = \<lparr>sc_as = as, sc_storage = None, sc_nodes = (\<lambda>_. None)\<rparr>"

text \<open>A method of the node \<open>k\<close>.\<close>

definition on_node :: "'a \<times> string \<Rightarrow> ('st, 'r) io \<Rightarrow> (('a, 'st) scm, 'r) io" where
  "on_node k m s =
     (case sc_nodes s k of
        None \<Rightarrow> (Inl NullHandle, s)
      | Some st \<Rightarrow> (case m st of (r, st') \<Rightarrow> (r, s\<lparr>sc_nodes := (sc_nodes s)(k := Some st')\<rparr>)))"

text \<open>\<open>add_node\<close> finds the node if the atomspace has it and constructs it otherwise.\<close>

definition add_node :: "'st node_ops \<Rightarrow> 'a \<times> string \<Rightarrow> (('a, 'st) scm, unit) io" where
  "add_node N k s =
     (case sc_nodes s k of
        Some st \<Rightarrow> (Inr (), s)
      | None \<Rightarrow>
          (case no_new N (snd k) of
             Inl e \<Rightarrow> (Inl e, s)
           | Inr st \<Rightarrow> (Inr (), s\<lparr>sc_nodes := (sc_nodes s)(k := Some st)\<rparr>)))"

definition extract_node :: "'a \<times> string \<Rightarrow> (('a, 'st) scm, unit) io" where
  "extract_node k = modify (\<lambda>s. s\<lparr>sc_nodes := (sc_nodes s)(k := None)\<rparr>)"

text \<open>\<open>if (nullptr != as) _as = as;\<close>\<close>

definition set_env_as :: "'a option \<Rightarrow> (('a, 'st) scm, unit) io" where
  "set_env_as env_as = cond_do (env_as \<noteq> None) (modify (sc_as_update (\<lambda>_. env_as)))"

text \<open>\<open>env_as\<close> is what \<open>ss_get_env_as\<close> returns, \<open>ro\<close> which atomspaces are read-only.\<close>

definition do_open :: "'st node_ops \<Rightarrow> 'a option \<Rightarrow> ('a \<Rightarrow> bool) \<Rightarrow> string \<Rightarrow> (('a, 'st) scm, unit) io" where
  "do_open N env_as ro uri =
     bnd (gets sc_storage) (\<lambda>st.
     if st \<noteq> None then throw (RuntimeException AlreadyConnected)
     else
       seq (set_env_as env_as)
       (bnd (gets sc_as) (\<lambda>as.
        case as of
          None \<Rightarrow> throw (RuntimeException NoAtomSpace)
        | Some a \<Rightarrow>
            if ro a then throw (RuntimeException AtomSpaceReadOnly)
            else
              seq (add_node N (a, uri))
              (seq (modify (sc_storage_update (\<lambda>_. Some (a, uri))))
              (seq (on_node (a, uri) (no_open N))
              (bnd (on_node (a, uri) (gets (no_connected N))) (\<lambda>c.
               if \<not> c
               then seq (extract_node (a, uri))
                    (seq (modify (sc_storage_update (\<lambda>_. None)))
                    (throw (RuntimeException UnableToConnectDB)))
               else ret ())))))))"

definition do_close :: "'st node_ops \<Rightarrow> (('a, 'st) scm, unit) io" where
  "do_close N =
     bnd (gets sc_storage) (\<lambda>st.
     case st of
       None \<Rightarrow> throw (RuntimeException NotConnectedToServer)
     | Some k \<Rightarrow>
         seq (on_node k (no_close N))
         (bnd (gets sc_as) (\<lambda>as.
          case as of
            None \<Rightarrow> throw NullHandle
          | Some a \<Rightarrow>
              seq (extract_node (a, snd k))
              (modify (sc_storage_update (\<lambda>_. None))))))"

section \<open>The branches of the commands\<close>

definition the_as :: "'a option \<Rightarrow> ('a, 'st) scm \<Rightarrow> 'a option" where
  "the_as env_as s = (case env_as of None \<Rightarrow> sc_as s | Some a \<Rightarrow> Some a)"

definition node_at :: "'st node_ops \<Rightarrow> 'a \<times> string \<Rightarrow> ('a, 'st) scm \<Rightarrow> cxx_fail + 'st" where
  "node_at N k s = (case sc_nodes s k of Some st \<Rightarrow> Inr st | None \<Rightarrow> no_new N (snd k))"

definition opened :: "'a \<Rightarrow> string \<Rightarrow> 'st \<Rightarrow> ('a, 'st) scm \<Rightarrow> ('a, 'st) scm" where
  "opened a uri st s = s\<lparr>sc_as := Some a, sc_storage := Some (a, uri), sc_nodes := (sc_nodes s)((a, uri) := Some st)\<rparr>"

lemma set_as_run: "the_as env_as s = Some a \<Longrightarrow>
  set_env_as env_as s = (Inr (), s\<lparr>sc_as := Some a\<rparr>)"
  by (cases env_as; cases s) (auto simp: set_env_as_def the_as_def cond_do_def modify_def ret_def)

lemma add_node_run: "node_at N k s = Inr st \<Longrightarrow> add_node N k s = (Inr (), s\<lparr>sc_nodes := (sc_nodes s)(k := Some st)\<rparr>)"
  by (cases s) (auto simp: node_at_def add_node_def fun_upd_idem split: option.splits)

lemma add_node_fails: "node_at N k s = Inl e \<Longrightarrow> add_node N k s = (Inl e, s)"
  by (auto simp: node_at_def add_node_def split: option.splits)

lemma node_at_as [simp]: "node_at N k (s\<lparr>sc_as := a\<rparr>) = node_at N k s"
  by (simp add: node_at_def)

lemma do_open_run:
  assumes "sc_storage s = None" and "the_as env_as s = Some a" and "\<not> ro a" and "node_at N (a, uri) s = Inr st"
    and "no_open N st = (r, st')"
  shows "do_open N env_as ro uri s =
    (case r of
       Inl e \<Rightarrow> (Inl e, opened a uri st' s)
     | Inr _ \<Rightarrow>
         if no_connected N st' then (Inr (), opened a uri st' s)
         else (Inl (RuntimeException UnableToConnectDB),
               s\<lparr>sc_as := Some a, sc_storage := None, sc_nodes := (sc_nodes s)((a, uri) := None)\<rparr>))"
  using assms
  by (simp add: do_open_def bnd_def gets_def seq_def set_as_run [where a = a] add_node_run [where st = st] modify_def
      on_node_def extract_node_def opened_def ret_def throw_def split: sum.splits)

lemma do_open_rejected:
  "sc_storage s \<noteq> None \<Longrightarrow> do_open N env_as ro uri s = (Inl (RuntimeException AlreadyConnected), s)"
  "sc_storage s = None \<Longrightarrow> the_as env_as s = None \<Longrightarrow> fst (do_open N env_as ro uri s) = Inl (RuntimeException NoAtomSpace)"
  "sc_storage s = None \<Longrightarrow> the_as env_as s = Some a \<Longrightarrow> ro a \<Longrightarrow>
     fst (do_open N env_as ro uri s) = Inl (RuntimeException AtomSpaceReadOnly)"
  "sc_storage s = None \<Longrightarrow> the_as env_as s = Some a \<Longrightarrow> \<not> ro a \<Longrightarrow> node_at N (a, uri) s = Inl e \<Longrightarrow>
     do_open N env_as ro uri s = (Inl e, s\<lparr>sc_as := Some a\<rparr>)"
  by (simp_all add: do_open_def bnd_def gets_def seq_def set_as_run [where a = a] add_node_fails throw_def)
     (auto simp: set_env_as_def the_as_def cond_do_def ret_def bnd_def gets_def throw_def split: option.splits)

lemma do_close_run:
  assumes "sc_storage s = Some k" and "sc_as s = Some (fst k)" and "sc_nodes s k = Some st" and "no_close N st = (r, st')"
  shows "do_close N s =
    (case r of
       Inl e \<Rightarrow> (Inl e, s\<lparr>sc_nodes := (sc_nodes s)(k := Some st')\<rparr>)
     | Inr _ \<Rightarrow> (Inr (), s\<lparr>sc_nodes := (sc_nodes s)(k := None), sc_storage := None\<rparr>))"
  using assms by (simp add: do_close_def bnd_def gets_def seq_def on_node_def extract_node_def modify_def split: sum.splits)

section \<open>What the commands rely on\<close>

locale storage_node =
  fixes N :: "'st node_ops"
  assumes open_connects: "no_open N st = (Inr (), st') \<Longrightarrow> no_connected N st'"
    and close_disconnects: "no_close N st = (Inr (), st') \<Longrightarrow> \<not> no_connected N st'"
    and open_throws: "no_open N st \<noteq> (Inl (RuntimeException c), st')"
    and new_throws: "no_new N uri \<noteq> Inl (RuntimeException c)"
begin

text \<open>The branch that reports a node that is not connected after it was opened is never taken.\<close>

lemma never_unable: "fst (do_open N env_as ro uri s) \<noteq> Inl (RuntimeException UnableToConnectDB)"
proof (cases "sc_storage s = None")
  case None: True
  show ?thesis
  proof (cases "the_as env_as s")
    case (Some a)
    show ?thesis
    proof (cases "node_at N (a, uri) s")
      case (Inl e)
      have "e \<noteq> RuntimeException c" for c using Inl new_throws by (auto simp: node_at_def split: option.splits)
      then show ?thesis using None Some Inl by (cases "ro a") (simp_all add: do_open_rejected)
    next
      case (Inr st)
      obtain r st' where "no_open N st = (r, st')" by fastforce
      with None Some Inr open_connects open_throws show ?thesis
        by (cases "ro a"; cases r) (auto simp: do_open_rejected do_open_run)
    qed
  qed (simp add: None do_open_rejected)
qed (simp add: do_open_rejected)

text \<open>A command that succeeded leaves the node connected, and a close undoes it.\<close>

lemma open_then_close:
  assumes "do_open N env_as ro uri s = (Inr (), s1)"
  shows "\<exists>a st. sc_storage s1 = Some (a, uri) \<and> sc_as s1 = Some a \<and> sc_nodes s1 (a, uri) = Some st \<and> no_connected N st \<and>
    (\<forall>st'. no_close N st = (Inr (), st') \<longrightarrow>
       (\<exists>s2. do_close N s1 = (Inr (), s2) \<and> sc_storage s2 = None \<and> sc_nodes s2 = (sc_nodes s)((a, uri) := None)))"
proof -
  have st: "sc_storage s = None" using assms do_open_rejected(1) by (metis Inl_Inr_False prod.inject)
  then obtain a where a: "the_as env_as s = Some a"
    using assms do_open_rejected(2) [OF st] by (metis Inl_Inr_False fst_conv not_None_eq)
  then have ro: "\<not> ro a" using assms do_open_rejected(3) [OF st a, of ro] by (metis Inl_Inr_False fst_conv)
  obtain st0 where n: "node_at N (a, uri) s = Inr st0"
    using assms do_open_rejected(4) [where ro = ro, OF st a ro] by (cases "node_at N (a, uri) s") auto
  obtain r st1 where o: "no_open N st0 = (r, st1)" by fastforce
  with assms do_open_run [where ro = ro and r = r, OF st a ro n o] have "s1 = opened a uri st1 s" "no_connected N st1"
    by (auto split: sum.splits if_splits)
  then show ?thesis
    by (intro exI [of _ a] exI [of _ st1]) (auto simp: opened_def do_close_run)
qed

end

section \<open>The two kinds of node\<close>

text \<open>A new node starts with the atomspace, the random state, the sockets and the client state it is
  given; a channel starts with the state of its thread.\<close>

definition simple_node ::
  "'srv env \<Rightarrow> 'h option \<Rightarrow> nat \<Rightarrow> 'srv net \<Rightarrow> 'w \<Rightarrow> ('h, 'w, 'srv) simple node_ops" where
  "simple_node E as rng net w =
     \<lparr>no_new = (\<lambda>uri. simple_new uri as rng net w), no_open = simple_open E, no_close = simple_close E,
      no_connected = simple_connected\<rparr>"

definition cog_node ::
  "'srv env \<Rightarrow> 'h ptr \<Rightarrow> (handler, 'h Pkt, 'srv) cst \<Rightarrow> (string, 'h) umap \<Rightarrow> 'w \<Rightarrow> ('h, 'w, 'srv) cog node_ops" where
  "cog_node E junk x fid w =
     \<lparr>no_new = (\<lambda>uri. cog_new uri x fid w), no_open = cog_open E, no_close = cog_close junk, no_connected = cog_connected\<rparr>"

definition cog_do_open ::
  "'srv env \<Rightarrow> 'h ptr \<Rightarrow> (handler, 'h Pkt, 'srv) cst \<Rightarrow> (string, 'h) umap \<Rightarrow> 'w \<Rightarrow> 'a option \<Rightarrow> ('a \<Rightarrow> bool) \<Rightarrow> string \<Rightarrow>
   (('a, ('h, 'w, 'srv) cog) scm, unit) io" where
  "cog_do_open E junk x fid w = do_open (cog_node E junk x fid w)"

definition cog_do_close ::
  "'srv env \<Rightarrow> 'h ptr \<Rightarrow> (handler, 'h Pkt, 'srv) cst \<Rightarrow> (string, 'h) umap \<Rightarrow> 'w \<Rightarrow> (('a, ('h, 'w, 'srv) cog) scm, unit) io" where
  "cog_do_close E junk x fid w = do_close (cog_node E junk x fid w)"

lemma init_throws: "simple_init uri \<noteq> Inl (RuntimeException c)"
  by (auto simp: simple_init_def Let_def)

lemma simple_open_outcome:
  assumes "simple_open E s = (r, s')"
  shows "r = Inr () \<Longrightarrow> simple_connected s'" "r \<noteq> Inl (RuntimeException c)"
  using assms
  by (auto simp: connect_loop_returns simple_open_def bnd_def gets_def ret_def throw_def seq_def zoom_def sys_close_def sys_send_def
      set_sockfd_def modify_def simple_do_recv_def simple_recv_loop_def simple_connected_def
      split: if_splits option.splits prod.splits sum.splits rx_outcome.splits)

lemma simple_close_outcome: "simple_close E s = (Inr (), s') \<Longrightarrow> \<not> simple_connected s'"
  by (auto simp: simple_close_def bnd_def gets_def seq_def set_sockfd_def modify_def simple_connected_def
      split: prod.splits sum.splits)

interpretation sn: storage_node "simple_node E as rng net w" for E as rng net w
  by unfold_locales
     (auto simp: simple_node_def simple_new_def dest: simple_open_outcome simple_close_outcome init_throws [THEN notE] split: sum.splits)

lemma chan_open_outcome:
  assumes "chan_open_connection E uri s = (r, s')"
  shows "r = Inr () \<Longrightarrow> chan_connected (x_chan s')" "r \<noteq> Inl (RuntimeException c)"
proof -
  have both: "(r = Inr () \<longrightarrow> chan_connected (x_chan s')) \<and> r \<noteq> Inl (RuntimeException c)"
  proof (cases "chan_host_port uri")
    case (Inl e)
    then have "e \<noteq> RuntimeException c" by (auto simp: chan_host_port_def Let_def split: if_splits)
    with Inl assms show ?thesis by (auto simp: chan_open_connection_def bnd_def lift_res_def)
  next
    case (Inr uhp)
    obtain uri1 host port where hp: "chan_host_port uri = Inr (uri1, host, port)" using Inr by (cases uhp) auto
    show ?thesis
    proof (cases "getaddrinfo E host port")
      case None
      with hp assms show ?thesis
        by (auto simp: chan_open_connection_def bnd_def lift_res_def seq_def modify_def throw_def)
    next
      case (Some addrs)
      obtain p t where p: "chan_probe E (resolved uri1 host port addrs s) = (p, t)" by fastforce
      have "c_servinfo (x_chan t) = Some addrs"
        using keeps_state [OF keeps_calls_probe, of "\<lambda>cs i. i = Some addrs" "resolved uri1 host port addrs s" E] p by simp
      moreover have "no_rt e" if "p = Inl e" for e
        using keeps_fail [OF keeps_calls_probe, of "\<lambda>cs i. True" "resolved uri1 host port addrs s" E e] p that by simp
      ultimately show ?thesis
        using assms p
        by (auto simp: chan_open_resolved [OF hp Some] buf_call_def modify_def chan_connected_def no_rt_def
            split: sum.splits cxx_fail.splits)
    qed
  qed
  then show "r = Inr () \<Longrightarrow> chan_connected (x_chan s')" "r \<noteq> Inl (RuntimeException c)" by auto
qed

lemma cog_open_outcome:
  assumes "cog_open E s = (r, s')"
  shows "r = Inr () \<Longrightarrow> cog_connected s'" "r \<noteq> Inl (RuntimeException c)"
  using assms chan_open_outcome
  by (auto simp: cog_open_def bnd_def gets_def ret_def zoom_def cog_connected_def split: if_splits prod.splits) blast+

lemma cog_close_outcome: "cog_close junk s = (Inr (), s') \<Longrightarrow> \<not> cog_connected s'"
  by (auto simp: cog_close_def cog_proxy_close_def seq_def bnd_def gets_def ret_def zoom_def chan_close_connection_def
      buf_call_def set_servinfo_def modify_def cog_connected_def chan_connected_def split: if_splits prod.splits sum.splits)

interpretation cn: storage_node "cog_node E junk x fid w" for E junk x fid w
  by unfold_locales
     (auto simp: cog_node_def cog_new_def inits_agree dest: cog_open_outcome cog_close_outcome init_throws [THEN notE] split: sum.splits)

section \<open>The commands\<close>

text \<open>The last check of the open commands never fires. An \<open>open\<close> that returns leaves the node
  connected, for both kinds of node, so the branch that takes the node out of the atomspace again and
  says that it cannot connect is never reached.\<close>

lemma scm_never_unable:
  "fst (do_open (simple_node E as rng net w) env_as ro uri s) \<noteq> Inl (RuntimeException UnableToConnectDB) \<and>
   fst (cog_do_open E' junk x fid w' env_as ro uri s') \<noteq> Inl (RuntimeException UnableToConnectDB)"
  unfolding cog_do_open_def by (intro conjI sn.never_unable cn.never_unable)

text \<open>C40: an open command that fails to connect leaves \<open>_storage\<close> set. The exception of the node's
  \<open>open\<close> leaves \<open>do_open\<close> before the clean-up; from then on every open command, for any address, is
  refused as already connected, until a close command clears the pointer.\<close>

theorem scm_failed_open_sticks:
  assumes "sc_storage s = None" and "the_as env_as s = Some a" and "\<not> ro a"
    and "node_at (simple_node E as rng net w) (a, uri) s = Inr st"
    and "simple_open E st = (Inl (IOException c), st')" and "\<not> simple_connected st'"
  shows "\<exists>s1 s2. do_open (simple_node E as rng net w) env_as ro uri s = (Inl (IOException c), s1) \<and>
    (\<forall>env_as' uri'. do_open (simple_node E as rng net w) env_as' ro uri' s1 = (Inl (RuntimeException AlreadyConnected), s1)) \<and>
    do_close (simple_node E as rng net w) s1 = (Inr (), s2) \<and> sc_storage s2 = None"
proof -
  let ?N = "simple_node E as rng net w"
  have o: "no_open ?N st = (Inl (IOException c), st')" using assms(5) by (simp add: simple_node_def)
  have "do_open ?N env_as ro uri s = (Inl (IOException c), opened a uri st' s)"
    using do_open_run [where ro = ro, OF assms(1-4) o] by simp
  moreover have "do_open ?N env_as' ro uri' (opened a uri st' s) = (Inl (RuntimeException AlreadyConnected), opened a uri st' s)"
    for env_as' uri' by (rule do_open_rejected(1)) (simp add: opened_def)
  moreover have "no_close ?N st' = (Inr (), st'\<lparr>s_sockfd := -1\<rparr>)"
    using assms(6) by (simp add: simple_node_def simple_close_def bnd_def gets_def seq_def ret_def set_sockfd_def modify_def)
  ultimately show ?thesis
    using do_close_run [of "opened a uri st' s" "(a, uri)" st' ?N] by (simp add: opened_def)
qed

lemma small_new: "simple_new ''cog://down/'' (Some 8) 1 (small_net []) [] = Inr (small_closed ''cog://down/'')"
  by (simp add: simple_new_def init_accepts npos_def c_str_def NUL_def small_closed_def small_simple_def)

lemma small_down: "\<exists>st'. simple_open (small_env (\<lambda>_. [])) (small_closed ''cog://down/'') = (Inl (IOException (UnableToConnect ''down'')), st') \<and>
  \<not> simple_connected st'"
proof -
  have hp: "simple_host_port ''cog://down/'' = (''down'', ''17001'')"
    using simple_host_port_eq [of "''down/''"]
    by (simp add: npos_def NUL_def uri_host_def uri_port_def DEFAULT_COGSERVER_PORT_def)
  have "getaddrinfo (small_env (\<lambda>_. [])) ''down'' ''17001'' = Some [6]" by (simp add: small_env_def)
  then show ?thesis
    using open_starts [of "small_closed ''cog://down/''" "''down''" "''17001''" "small_env (\<lambda>_. [])" "[6]"]
    by (simp add: small_closed_simps hp)
       (simp add: small_closed_def small_simple_def small_net_def small_env_def bnd_def seq_def zoom_def sys_socket_def
         sys_connect_def sys_close_def set_sockfd_def modify_def ret_def throw_def simple_connected_def)
qed

abbreviation small_node :: "(string \<Rightarrow> recv_ev list) \<Rightarrow> (nat, (nat \<times> nat \<times> nat) list, unit) simple node_ops" where
  "small_node answer \<equiv> simple_node (small_env answer) (Some 8) 1 (small_net []) []"

theorem scm_failed_open_sticks_witness:
  "\<exists>s1 s2. do_open (small_node (\<lambda>_. [])) None (\<lambda>_. False) ''cog://down/'' (scm_new (Some (8 :: nat))) =
      (Inl (IOException (UnableToConnect ''down'')), s1) \<and>
    (\<forall>env_as' uri'. do_open (small_node (\<lambda>_. [])) env_as' (\<lambda>_. False) uri' s1 =
      (Inl (RuntimeException AlreadyConnected), s1)) \<and>
    do_close (small_node (\<lambda>_. [])) s1 = (Inr (), s2) \<and> sc_storage s2 = None"
proof -
  obtain st' where o: "simple_open (small_env (\<lambda>_. [])) (small_closed ''cog://down/'') = (Inl (IOException (UnableToConnect ''down'')), st')"
    "\<not> simple_connected st'" using small_down by blast
  show ?thesis
    by (rule scm_failed_open_sticks [OF _ _ _ _ o])
       (simp_all add: scm_new_def the_as_def node_at_def simple_node_def small_new del: One_nat_def)
qed

text \<open>An open command that succeeds leaves \<open>_storage\<close> pointing to a connected node of that name, and
  a close command that succeeds after it takes exactly this node out of its atomspace and clears the
  pointer, so that the next open command starts afresh.\<close>

lemma scm_open_close:
  assumes "do_open (simple_node E as rng net w) env_as ro uri s = (Inr (), s1)"
    and "do_close (simple_node E as rng net w) s1 = (Inr (), s2)"
  shows "\<exists>a st. sc_storage s1 = Some (a, uri) \<and> sc_nodes s1 (a, uri) = Some st \<and> simple_connected st \<and>
    sc_storage s2 = None \<and> sc_nodes s2 = (sc_nodes s)((a, uri) := None)"
proof -
  let ?N = "simple_node E as rng net w"
  from sn.open_then_close [OF assms(1)] obtain a st where
    st: "sc_storage s1 = Some (a, uri)" "sc_as s1 = Some (fst (a, uri))" "sc_nodes s1 (a, uri) = Some st" "no_connected ?N st"
    and c: "\<forall>st'. no_close ?N st = (Inr (), st') \<longrightarrow>
       (\<exists>s2. do_close ?N s1 = (Inr (), s2) \<and> sc_storage s2 = None \<and> sc_nodes s2 = (sc_nodes s)((a, uri) := None))"
    by auto
  obtain r st' where "no_close ?N st = (r, st')" by fastforce
  with do_close_run [OF st(1-3) this] assms(2) c st show ?thesis
    by (cases r) (auto simp: simple_node_def)
qed

text \<open>A server with a prompt.\<close>

end
