(* ===== verification/Guile.thy ===== *)
theory Guile
  imports PersistSCM
begin

text \<open>
  How the scheme commands get to their object (\<open>CogSimplePersistSCM.cc\<close>, \<open>CogPersistSCM.cc\<close>). The first
  object of a class that is constructed defines the two commands as its own methods; a function-static
  flag keeps every later object from defining them again. Loading the scheme module constructs one
  object, once. Objects are known by their addresses, which are not used again.

  The lemmas show that a module that is loaded first keeps its commands for good, whatever other objects
  come and go, and what happens when some other object was there before.
\<close>

section \<open>State\<close>

datatype prim = PrimOpen | PrimClose

record ('a, 'st) guile =
  u_is_init :: bool                                       \<comment> \<open>\<open>static bool is_init\<close>\<close>
  u_patty :: "nat option"                                 \<comment> \<open>\<open>static ... patty\<close>, once constructed\<close>
  u_fresh :: nat                                          \<comment> \<open>the address of the next object\<close>
  u_obj :: "nat \<Rightarrow> ('a option \<times> ('a \<times> string) option) option"  \<comment> \<open>\<open>_as\<close> and \<open>_storage\<close> of the objects that live\<close>
  u_nodes :: "'a \<times> string \<Rightarrow> 'st option"                  \<comment> \<open>the storage nodes in the atomspaces\<close>
  u_prims :: "string \<Rightarrow> (prim \<times> nat) option"              \<comment> \<open>the commands\<close>
  u_modules :: "string list"

text \<open>The names that differ between the two classes.\<close>

record scm_names =
  nm_module :: string
  nm_open :: string
  nm_close :: string

definition simple_names :: scm_names where
  "simple_names = \<lparr>nm_module = ''opencog persist-cog-simple'', nm_open = ''cog-simple-open'', nm_close = ''cog-simple-close''\<rparr>"

definition cog_names :: scm_names where
  "cog_names = \<lparr>nm_module = ''opencog persist-cog'', nm_open = ''cog-storage-open'', nm_close = ''cog-storage-close''\<rparr>"

definition guile_new :: "('a, 'st) guile" where
  "guile_new = \<lparr>u_is_init = False, u_patty = None, u_fresh = 0, u_obj = (\<lambda>_. None), u_nodes = (\<lambda>_. None), u_prims = (\<lambda>_. None), u_modules = []\<rparr>"

section \<open>Objects\<close>

definition define_scheme_primitive :: "string \<Rightarrow> prim \<Rightarrow> nat \<Rightarrow> (('a, 'st) guile, unit) io" where
  "define_scheme_primitive nm p self = modify (u_prims_update (\<lambda>ps. ps(nm \<mapsto> (p, self))))"

definition scm_init :: "scm_names \<Rightarrow> nat \<Rightarrow> (('a, 'st) guile, unit) io" where
  "scm_init N self =
     seq (define_scheme_primitive (nm_open N) PrimOpen self)
     (define_scheme_primitive (nm_close N) PrimClose self)"

text \<open>\<open>init_in_guile\<close> defines the module, whose initialiser is \<open>init_in_module\<close>.\<close>

definition init_in_guile :: "scm_names \<Rightarrow> nat \<Rightarrow> (('a, 'st) guile, unit) io" where
  "init_in_guile N self =
     seq (modify (u_modules_update (\<lambda>ms. nm_module N # ms)))
     (scm_init N self)"

definition scm_ctor :: "scm_names \<Rightarrow> 'a option \<Rightarrow> (('a, 'st) guile, nat) io" where
  "scm_ctor N as =
     bnd (gets u_fresh) (\<lambda>self.
     seq (modify (\<lambda>g. g\<lparr>u_fresh := Suc self, u_obj := (u_obj g)(self \<mapsto> (as, None))\<rparr>))
     (bnd (gets u_is_init) (\<lambda>i.
      if i then ret self
      else
        seq (modify (u_is_init_update (\<lambda>_. True)))
        (seq (init_in_guile N self)
        (ret self)))))"

text \<open>The destructor clears \<open>_storage\<close>; then the object is gone. It does not take the commands back.\<close>

definition scm_dtor :: "nat \<Rightarrow> (('a, 'st) guile, unit) io" where
  "scm_dtor self = modify (\<lambda>g. g\<lparr>u_obj := (u_obj g)(self := None)\<rparr>)"

text \<open>\<open>opencog_persist_cog_simple_init\<close> and \<open>opencog_persist_cog_init\<close>.\<close>

definition module_init :: "scm_names \<Rightarrow> (('a, 'st) guile, unit) io" where
  "module_init N =
     bnd (gets u_patty) (\<lambda>p.
     case p of
       Some _ \<Rightarrow> ret ()
     | None \<Rightarrow> bnd (scm_ctor N None) (\<lambda>self. modify (u_patty_update (\<lambda>_. Some self))))"

text \<open>The same members of \<open>CogPersistSCM\<close>.\<close>

definition cog_init_in_guile :: "nat \<Rightarrow> (('a, 'st) guile, unit) io" where
  "cog_init_in_guile = init_in_guile cog_names"

definition cog_scm_ctor :: "'a option \<Rightarrow> (('a, 'st) guile, nat) io" where
  "cog_scm_ctor = scm_ctor cog_names"

definition cog_scm_dtor :: "nat \<Rightarrow> (('a, 'st) guile, unit) io" where
  "cog_scm_dtor = scm_dtor"

definition cog_module_init :: "(('a, 'st) guile, unit) io" where
  "cog_module_init = module_init cog_names"

section \<open>Commands\<close>

text \<open>A method of the object at an address.\<close>

definition on_obj :: "nat \<Rightarrow> (('a, 'st) scm, unit) io \<Rightarrow> (('a, 'st) guile, unit) io" where
  "on_obj self m g =
     (case u_obj g self of
        None \<Rightarrow> (Inl UseAfterFree, g)
      | Some (as, st) \<Rightarrow>
          (case m \<lparr>sc_as = as, sc_storage = st, sc_nodes = u_nodes g\<rparr> of
             (r, s) \<Rightarrow> (r, g\<lparr>u_obj := (u_obj g)(self \<mapsto> (sc_as s, sc_storage s)), u_nodes := sc_nodes s\<rparr>)))"

text \<open>What a command does; a name that no module defines is an error of the interpreter.\<close>

definition scm_command ::
  "'st node_ops \<Rightarrow> 'a option \<Rightarrow> ('a \<Rightarrow> bool) \<Rightarrow> string \<Rightarrow> string \<Rightarrow> (('a, 'st) guile, unit) io" where
  "scm_command N env_as ro nm uri =
     bnd (gets u_prims) (\<lambda>ps.
     case ps nm of
       None \<Rightarrow> throw (LibraryThrow nm)
     | Some (PrimOpen, self) \<Rightarrow> on_obj self (do_open N env_as ro uri)
     | Some (PrimClose, self) \<Rightarrow> on_obj self (do_close N))"

section \<open>Who has the commands\<close>

datatype 'a scm_ev = LoadModule | NewObject "'a option" | DeleteObject nat | Command "'a option" string string

definition scm_event :: "scm_names \<Rightarrow> 'st node_ops \<Rightarrow> ('a \<Rightarrow> bool) \<Rightarrow> 'a scm_ev \<Rightarrow> ('a, 'st) guile \<Rightarrow> ('a, 'st) guile" where
  "scm_event C N ro ev g =
     (case ev of
        LoadModule \<Rightarrow> snd (module_init C g)
      | NewObject as \<Rightarrow> snd (scm_ctor C as g)
      | DeleteObject self \<Rightarrow> snd (scm_dtor self g)
      | Command env_as nm uri \<Rightarrow> snd (scm_command N env_as ro nm uri g))"

definition bound_to :: "scm_names \<Rightarrow> nat \<Rightarrow> ('a, 'st) guile \<Rightarrow> bool" where
  "bound_to C self g \<longleftrightarrow> u_is_init g \<and> self < u_fresh g \<and>
     u_prims g (nm_open C) = Some (PrimOpen, self) \<and> u_prims g (nm_close C) = Some (PrimClose, self)"

definition lives :: "nat \<Rightarrow> ('a, 'st) guile \<Rightarrow> bool" where
  "lives self g \<longleftrightarrow> u_obj g self \<noteq> None"

lemma ctor_first:
  assumes "\<not> u_is_init g" and "nm_open C \<noteq> nm_close C"
  shows "\<exists>g'. scm_ctor C as g = (Inr (u_fresh g), g') \<and> bound_to C (u_fresh g) g' \<and> lives (u_fresh g) g'"
  using assms
  by (simp add: scm_ctor_def init_in_guile_def scm_init_def define_scheme_primitive_def bound_to_def lives_def bnd_def seq_def
      gets_def modify_def ret_def)

lemma ctor_later: "u_is_init g \<Longrightarrow>
    scm_ctor C as g = (Inr (u_fresh g), g\<lparr>u_fresh := Suc (u_fresh g), u_obj := (u_obj g)(u_fresh g \<mapsto> (as, None))\<rparr>)"
  by (simp add: scm_ctor_def bnd_def seq_def gets_def modify_def ret_def)

lemma on_obj_keeps:
  "u_prims (snd (on_obj a m g)) = u_prims g" "u_is_init (snd (on_obj a m g)) = u_is_init g" "u_fresh (snd (on_obj a m g)) = u_fresh g"
  "lives b (snd (on_obj a m g)) = lives b g"
  by (auto simp: on_obj_def lives_def split: option.splits prod.splits)

text \<open>The commands stay with the first object, and it lives until it is destroyed.\<close>

lemma event_keeps_binding:
  assumes "bound_to C self g"
  shows "bound_to C self (scm_event C N ro ev g)"
    and "lives self g \<Longrightarrow> ev \<noteq> DeleteObject self \<Longrightarrow> lives self (scm_event C N ro ev g)"
proof -
  have i: "self < u_fresh g" "u_is_init g" using assms by (simp_all add: bound_to_def)
  with assms show "bound_to C self (scm_event C N ro ev g)"
    by (cases ev)
       (auto simp: scm_event_def module_init_def scm_dtor_def scm_command_def bound_to_def ctor_later bnd_def gets_def modify_def
          ret_def throw_def on_obj_keeps split: option.splits prim.splits)
  assume l: "lives self g" and "ev \<noteq> DeleteObject self"
  then show "lives self (scm_event C N ro ev g)"
  proof (cases ev)
    case (Command env_as nm uri)
    then show ?thesis using l
      by (auto simp: scm_event_def scm_command_def bnd_def gets_def throw_def on_obj_keeps split: option.splits prim.splits)
  qed (use i in \<open>auto simp: scm_event_def module_init_def scm_dtor_def lives_def ctor_later bnd_def gets_def modify_def ret_def split: option.splits\<close>)
qed

lemma commands_stay:
  "bound_to C self g \<Longrightarrow> lives self g \<Longrightarrow> DeleteObject self \<notin> set evs \<Longrightarrow>
     bound_to C self (fold (scm_event C N ro) evs g) \<and> lives self (fold (scm_event C N ro) evs g)"
proof (induction evs arbitrary: g)
  case (Cons ev evs)
  have "bound_to C self (scm_event C N ro ev g)" by (rule event_keeps_binding(1) [OF Cons.prems(1)])
  moreover have "lives self (scm_event C N ro ev g)" by (rule event_keeps_binding(2) [OF Cons.prems(1,2)]) (use Cons.prems(3) in auto)
  ultimately show ?case using Cons.IH [of "scm_event C N ro ev g"] Cons.prems(3) by simp
qed simp

lemma command_run:
  "bound_to C self g \<Longrightarrow> scm_command N env_as ro (nm_open C) uri g = on_obj self (do_open N env_as ro uri) g"
  "bound_to C self g \<Longrightarrow> scm_command N env_as ro (nm_close C) uri g = on_obj self (do_close N) g"
  by (simp_all add: bound_to_def scm_command_def bnd_def gets_def)

lemma guile_new_fields [simp]: "\<not> u_is_init guile_new" "u_fresh guile_new = 0" "u_patty guile_new = None"
  by (simp_all add: guile_new_def)

lemma names_differ: "nm_open simple_names \<noteq> nm_close simple_names" "nm_open cog_names \<noteq> nm_close cog_names"
  by (simp_all add: simple_names_def cog_names_def)

text \<open>When the module is loaded before anything else, the commands are the methods of its static object
  whatever happens later, as long as nobody destroys that object; no call of them finds it gone.\<close>

lemma module_keeps_commands:
  fixes N :: "'st node_ops" and ro :: "'a \<Rightarrow> bool"
  assumes "nm_open C \<noteq> nm_close C" and "DeleteObject 0 \<notin> set evs"
    and "g = fold (scm_event C N ro) (LoadModule # evs) guile_new"
  shows "scm_command N env_as ro (nm_open C) uri g = on_obj 0 (do_open N env_as ro uri) g \<and>
    scm_command N env_as ro (nm_close C) uri g = on_obj 0 (do_close N) g \<and> lives 0 g"
proof -
  from ctor_first [where g = "guile_new :: ('a, 'st) guile" and as = None, OF _ assms(1)] obtain g1 :: "('a, 'st) guile" where
    c: "scm_ctor C None guile_new = (Inr 0, g1)" "bound_to C 0 g1" "lives 0 g1" by auto
  then have "scm_event C N ro LoadModule guile_new = g1\<lparr>u_patty := Some 0\<rparr>"
    by (simp add: scm_event_def module_init_def bnd_def gets_def modify_def)
  moreover have "bound_to C 0 (g1\<lparr>u_patty := Some 0\<rparr>)" "lives 0 (g1\<lparr>u_patty := Some 0\<rparr>)"
    using c(2,3) by (simp_all add: bound_to_def lives_def)
  ultimately have "bound_to C 0 g \<and> lives 0 g" using commands_stay [of C 0 _ evs N ro] assms(2,3) by simp
  then show ?thesis by (simp add: command_run)
qed

text \<open>When a program constructs an object of its own first and destroys it again, loading the module does
  not help: the commands call a method of the destroyed object.\<close>

lemma destroyed_object_called:
  fixes N :: "'st node_ops" and ro :: "'a \<Rightarrow> bool"
  assumes "nm_open C \<noteq> nm_close C" and "g = fold (scm_event C N ro) [NewObject as, DeleteObject 0, LoadModule] guile_new"
  shows "scm_command N env_as ro (nm_open C) uri g = (Inl UseAfterFree, g)"
proof -
  from ctor_first [where g = "guile_new :: ('a, 'st) guile" and as = as, OF _ assms(1)] obtain g1 :: "('a, 'st) guile" where
    c: "scm_event C N ro (NewObject as) guile_new = g1" "bound_to C 0 g1" by (auto simp: scm_event_def)
  let ?g2 = "scm_event C N ro (DeleteObject 0) g1"
  have b: "bound_to C 0 ?g2" by (rule event_keeps_binding(1) [OF c(2)])
  have d: "u_obj ?g2 0 = None" by (simp add: scm_event_def scm_dtor_def modify_def)
  have "bound_to C 0 g" using event_keeps_binding(1) [OF b, of N ro LoadModule] assms(2) c(1) by simp
  moreover have "u_obj g 0 = None"
  proof -
    from b have "u_is_init ?g2" "0 < u_fresh ?g2" by (simp_all add: bound_to_def)
    with d show ?thesis
      unfolding assms(2) by (simp add: c(1)) (auto simp: scm_event_def [of _ _ _ LoadModule] module_init_def bnd_def gets_def ret_def modify_def ctor_later split: option.splits)
  qed
  ultimately show ?thesis by (simp add: command_run on_obj_def)
qed

text \<open>Both classes register commands of different names.\<close>

lemmas simple_module_keeps_commands = module_keeps_commands [OF names_differ(1)]
lemmas cog_module_keeps_commands = module_keeps_commands [OF names_differ(2)]

end
