(* ===== verification/FrameMaps.thy ===== *)
theory FrameMaps
  imports SimpleIO
begin

text \<open>
  The frame maps of the single-socket node as a typed store: \<open>_frame_map\<close> maps a frame to its short form,
  \<open>_fid_map\<close> a name to the frame of that name. Every call keeps this, whatever the server sends and
  however the call ends.
\<close>

definition names_ok :: "('h, 'v, 't, 'w) atomlib \<Rightarrow> (string, 'h) umap \<Rightarrow> bool" where
  "names_ok L fid \<longleftrightarrow> (\<forall>(name, h) \<in> set fid. get_name L h = name)"

definition shorts_ok :: "('h, 'v, 't, 'w) atomlib \<Rightarrow> ('h, string) umap \<Rightarrow> bool" where
  "shorts_ok L fm \<longleftrightarrow> (\<forall>(h, t) \<in> set fm. t = space_shorty (get_name L h))"

definition maps_ok :: "('h, 'v, 't, 'w) atomlib \<Rightarrow> ('h, 'w, 'srv) simple \<Rightarrow> bool" where
  "maps_ok L s \<longleftrightarrow> shorts_ok L (s_frame_map s) \<and> names_ok L (s_fid_map s)"

text \<open>The decoders enter a frame into the map they are given under the name of the frame.\<close>

definition names_frames :: "('h, 'v, 't, 'w) atomlib \<Rightarrow> bool" where
  "names_frames L \<longleftrightarrow>
     (\<forall>s p fid h fid'. names_ok L fid \<and> decode_frame L s p fid = Inr (h, fid') \<longrightarrow> names_ok L fid') \<and>
     (\<forall>s l r fid h fid'. names_ok L fid \<and> decode_atom_in L s l r fid = Inr (h, fid') \<longrightarrow> names_ok L fid')"

lemma maps_frames_ok: "maps_ok L s \<Longrightarrow> frames_ok L (s_frame_map s, s_fid_map s)"
  by (auto simp: maps_ok_def frames_ok_def shorts_ok_def names_ok_def dest!: map_of_SomeD)

lemma umap_insert_set: "set (umap_insert k v m) \<subseteq> insert (k, v) (set m)"
  by (auto simp: umap_insert_def split: option.splits)

lemma shorts_insert: "shorts_ok L fm \<Longrightarrow> t = space_shorty (get_name L h) \<Longrightarrow> shorts_ok L (umap_insert h t fm)"
  unfolding shorts_ok_def using umap_insert_set [of h t fm] by blast

lemma names_insert: "names_ok L fid \<Longrightarrow> get_name L h = n \<Longrightarrow> names_ok L (umap_insert n h fid)"
  unfolding names_ok_def using umap_insert_set [of n h fid] by blast

lemma shorts_fold:
  "shorts_ok L fm \<Longrightarrow> names_ok L fid \<Longrightarrow> shorts_ok L (fold (\<lambda>(name, h). umap_insert h (space_shorty name)) fid fm)"
  by (induction fid arbitrary: fm) (auto simp: names_ok_def intro: shorts_insert)

lemma fold_opt_keeps:
  assumes "\<And>x m m'. f x m = Some m' \<Longrightarrow> I m \<Longrightarrow> I m'"
  shows "fold_opt f xs m = Some m' \<Longrightarrow> I m \<Longrightarrow> I m'"
  by (induction xs arbitrary: m) (auto split: option.splits intro: assms)

lemma cacheFrame_keeps:
  "cacheFrame n L h maps = Some maps' \<Longrightarrow> shorts_ok L (fst maps) \<and> names_ok L (snd maps) \<Longrightarrow> shorts_ok L (fst maps') \<and> names_ok L (snd maps')"
proof (induction n arbitrary: h maps maps')
  case (Suc n)
  from Suc.prems(1) obtain fm fid where m: "fold_opt (cacheFrame n L) (getOutgoingSet L h) maps = Some (fm, fid)"
    "maps' = (umap_insert h (space_shorty (get_name L h)) fm, umap_insert (get_name L h) h fid)" by (auto split: option.splits)
  from fold_opt_keeps [where I = "\<lambda>m. shorts_ok L (fst m) \<and> names_ok L (snd m)", OF Suc.IH m(1)] Suc.prems(2) show ?case
    by (simp add: m(2) shorts_insert names_insert)
qed simp

section \<open>Every call keeps the maps\<close>

abbreviation any_fail :: "cxx_fail \<Rightarrow> bool" where
  "any_fail \<equiv> \<lambda>_. True"

lemma maps_net: "keeps (maps_ok L) any_fail (on_net m)"
  by (rule keeps_zoom) (auto simp: maps_ok_def intro: keeps_any)

lemma maps_as: "keeps (maps_ok L) any_fail (on_as m)"
  by (rule keeps_zoom) (auto simp: maps_ok_def intro: keeps_any)

lemma maps_modify: "(\<And>s. s_frame_map (f s) = s_frame_map s \<and> s_fid_map (f s) = s_fid_map s) \<Longrightarrow> keeps (maps_ok L) K (modify f)"
  by (rule keeps_modify) (simp add: maps_ok_def)

lemma maps_send: "keeps (maps_ok L) any_fail (simple_do_send E msg)"
  unfolding simple_do_send_def by (intro keeps_rules maps_net TrueI)

lemma maps_recv: "keeps (maps_ok L) any_fail (simple_do_recv g)"
proof -
  have r: "keeps (maps_ok L) any_fail (simple_recv_loop g)"
    by (rule keepsI) (auto simp: wp_def simple_recv_loop_def maps_ok_def split: prod.splits)
  show ?thesis
    unfolding simple_do_recv_def set_sockfd_def
    by (intro keeps_rules r) (auto split: rx_outcome.split intro!: keeps_rules maps_net maps_modify)
qed

lemma maps_lift: "keeps (maps_ok L) any_fail (lift_res x)" "keeps (maps_ok L) any_fail (lift_lib y)"
  by (auto intro: keeps_lift_lib keepsI simp: wp_lift_res split: sum.split)

lemma maps_multi: "keeps (maps_ok L) any_fail (set_multi b)"
  unfolding set_multi_def by (rule maps_modify) simp

lemma maps_cache:
  fixes L :: "('h, 'v, 't, 'w) atomlib"
  shows "keeps (maps_ok L) any_fail (simple_cacheFrame L h :: ('h, 'w, 'srv, unit) sio)"
proof (rule keepsI)
  fix s :: "('h, 'w, 'srv) simple" assume "maps_ok L s"
  with cacheFrame_keeps [of "stack_depth L" L h "(s_frame_map s, s_fid_map s)"]
  show "wp (simple_cacheFrame L h) (\<lambda>_. maps_ok L) (\<lambda>e s'. maps_ok L s' \<and> True) s"
    by (auto simp: wp_def simple_cacheFrame_def maps_ok_def split: option.splits)
qed

lemmas maps_rules = keeps_ret keeps_gets_bnd keeps_gets keeps_bnd keeps_seq keeps_cond_do keeps_if keeps_for_each keeps_option keeps_pair
  keeps_throw maps_send maps_recv maps_as maps_lift maps_multi maps_cache TrueI

lemma maps_writeFrame: "keeps (maps_ok L) any_fail (simple_writeFrame L E hasp)"
  unfolding simple_writeFrame_def by (intro maps_rules)

lemma maps_stores:
  "keeps (maps_ok L) any_fail (simple_storeAtom L E h)" "keeps (maps_ok L) any_fail (simple_storeValue L E h key)"
  "keeps (maps_ok L) any_fail (simple_updateValue L E h key delta)"
  unfolding simple_storeAtom_def simple_storeValue_def simple_updateValue_def simple_write_space_def
  by (intro maps_rules maps_writeFrame)+

text \<open>A step that decodes with \<open>_fid_map\<close> and writes the map back.\<close>

lemma maps_decode:
  fixes L :: "('h, 'v, 't, 'w) atomlib" and k :: "'x \<Rightarrow> ('h, 'w, 'srv, 'y) sio"
  assumes "\<And>fid h fid'. names_ok L fid \<Longrightarrow> d fid = Inr (h, fid') \<Longrightarrow> names_ok L fid'"
    and "\<And>fid' s. maps_ok L s \<Longrightarrow> names_ok L fid' \<Longrightarrow> maps_ok L (u fid' s)"
    and "\<And>h. keeps (maps_ok L) any_fail (k h)"
  shows "keeps (maps_ok L) any_fail (bnd (gets s_fid_map) (\<lambda>fid. bnd (lift_lib (d fid)) (\<lambda>(h, fid'). seq (modify (u fid')) (k h))))"
proof (rule keepsI)
  fix s :: "('h, 'w, 'srv) simple" assume s: "maps_ok L s"
  show "wp (bnd (gets s_fid_map) (\<lambda>fid. bnd (lift_lib (d fid)) (\<lambda>(h, fid'). seq (modify (u fid')) (k h)))) (\<lambda>_. maps_ok L)
      (\<lambda>e s'. maps_ok L s' \<and> True) s"
  proof (cases "d (s_fid_map s)")
    case (Inr x)
    obtain h fid' where x: "x = (h, fid')" by (cases x)
    have "names_ok L fid'" by (rule assms(1) [of "s_fid_map s"]) (use s Inr x in \<open>simp_all add: maps_ok_def\<close>)
    with assms(2) s keepsD [OF assms(3)] Inr x show ?thesis by (simp add: wp_rules)
  qed (simp add: wp_rules s)
qed

lemma maps_loadFrameDAG:
  assumes "names_frames L"
  shows "keeps (maps_ok L) any_fail (simple_loadFrameDAG L E)"
proof -
  have d: "names_ok L fid \<Longrightarrow> decode_frame L rply p fid = Inr (h, fid') \<Longrightarrow> names_ok L fid'" for rply p fid h fid'
    using assms unfolding names_frames_def by blast
  have u: "maps_ok L s \<Longrightarrow> names_ok L fid' \<Longrightarrow>
      maps_ok L (s\<lparr>s_fid_map := fid', s_frame_map := fold (\<lambda>(name, h). umap_insert h (space_shorty name)) fid' (s_frame_map s)\<rparr>)" for s fid'
    by (simp add: maps_ok_def shorts_fold)
  show ?thesis
    unfolding simple_loadFrameDAG_def
    by (intro keeps_seq keeps_bnd keeps_if keeps_ret maps_send maps_recv maps_multi maps_decode [OF d u])
qed

lemma maps_atoms_loop:
  assumes "names_frames L"
  shows "keeps (maps_ok L) any_fail (simple_atoms_loop fuel L E table expr e l)"
proof (induction fuel arbitrary: l)
  case (Suc fuel)
  have d: "names_ok L fid \<Longrightarrow> decode_atom_in L expr p r fid = Inr (h, fid') \<Longrightarrow> names_ok L fid'" for p r fid h fid'
    using assms unfolding names_frames_def by blast
  have u: "maps_ok L s \<Longrightarrow> names_ok L fid' \<Longrightarrow> maps_ok L (s_fid_map_update (\<lambda>_. fid') s)" for s fid'
    by (simp add: maps_ok_def)
  show ?case
    unfolding simple_atoms_loop.simps
    by (intro keeps_pair keeps_if keeps_ret keeps_option maps_as maps_lift maps_decode [OF d u] keeps_gets_bnd maps_send maps_recv
        keeps_bnd keeps_seq Suc.IH)
qed (auto intro: keeps_throw)

lemma maps_atom_list: "names_frames L \<Longrightarrow> keeps (maps_ok L) any_fail (simple_decode_atom_list L E table)"
  unfolding simple_decode_atom_list_def Let_def by (intro maps_rules maps_atoms_loop)

lemma maps_loads:
  assumes "names_frames L"
  shows "keeps (maps_ok L) any_fail (simple_fetchIncomingSet L E table h)"
    "keeps (maps_ok L) any_fail (simple_fetchIncomingByType L E table h t)"
    "keeps (maps_ok L) any_fail (simple_loadType L E table t)" "keeps (maps_ok L) any_fail (simple_loadAtomSpace L E table)"
  unfolding simple_fetchIncomingSet_def simple_fetchIncomingByType_def simple_loadType_def simple_loadAtomSpace_def
  by (intro maps_rules maps_atom_list assms)+

lemma maps_requests:
  "keeps (maps_ok L) any_fail (simple_getAtom L E h)" "keeps (maps_ok L) any_fail (simple_loadValue L E h key)"
  "keeps (maps_ok L) any_fail (simple_runQuery L E query key meta fresh)" "keeps (maps_ok L) any_fail (simple_removeAtom L E h rec)"
  "keeps (maps_ok L) any_fail (simple_set_proxy L E h)" "keeps (maps_ok L) any_fail (simple_proxy_open E)"
  "keeps (maps_ok L) any_fail (simple_storeAtomSpace L E table)" "keeps (maps_ok L) any_fail (simple_storeFrameDAG L E top_as)"
  unfolding simple_getAtom_def simple_loadValue_def simple_runQuery_def simple_removeAtom_def simple_set_proxy_def
    simple_proxy_open_def simple_storeAtomSpace_def simple_storeFrameDAG_def
  by (intro maps_rules maps_stores maps_writeFrame)+

lemma maps_barrier: "keeps (maps_ok L) any_fail (simple_barrier E)"
  unfolding simple_barrier_def by (intro maps_rules maps_modify) simp

lemma maps_proxy_close: "keeps (maps_ok L) any_fail (simple_proxy_close E)"
  unfolding simple_proxy_close_def by (intro maps_rules maps_barrier)

lemma maps_kill: "keeps (maps_ok L) any_fail (simple_kill_data E)"
proof -
  have "keeps (maps_ok L) any_fail (modify (\<lambda>s. s\<lparr>s_frame_map := [], s_fid_map := []\<rparr>))"
    by (rule keeps_modify) (simp add: maps_ok_def shorts_ok_def names_ok_def)
  then show ?thesis unfolding simple_kill_data_def by (intro maps_rules)
qed

lemma maps_run: "names_frames L \<Longrightarrow> keeps (maps_ok L) any_fail (simple_run L E op)"
  by (cases op)
     (auto simp: ignore_def intro!: maps_stores maps_loads maps_requests maps_barrier maps_proxy_close maps_kill keeps_seq maps_loadFrameDAG)

lemma maps_session:
  assumes "names_frames L"
  shows "simple_session L E ops s = (rs, s') \<Longrightarrow> maps_ok L s \<Longrightarrow> maps_ok L s'"
proof (induction ops arbitrary: s rs)
  case (Cons op ops)
  from Cons.prems(1) obtain r s1 rs' where "simple_run L E op s = (r, s1)" "simple_session L E ops s1 = (rs', s')"
    by (auto split: prod.splits)
  with keeps_state [OF maps_run [OF assms], of s E op] Cons.IH Cons.prems(2) show ?case by simp
qed simp

text \<open>C26: the frame maps keep their type. After any session, with any server and also when calls fail, every
  short form in \<open>_frame_map\<close> is the one of its frame, and \<open>_fid_map\<close> maps each name to a frame of that
  name, as long as the coder enters the frames it decodes under their names.\<close>

theorem simple_session_frame_maps:
  assumes "names_frames L" and "maps_ok L s" and "simple_session L E ops s = (rs, s')"
  shows "maps_ok L s' \<and> frames_ok L (s_frame_map s', s_fid_map s')"
  using maps_session [OF assms(1,3,2)] by (simp add: maps_frames_ok)

text \<open>A coder that enters the frame 8 under its name.\<close>

definition naming_lib :: "(nat, nat, unit, (nat \<times> nat \<times> nat) list) atomlib" where
  "naming_lib = small_lib\<lparr>decode_frame := (\<lambda>s p fid. Inr (8, umap_insert (num_text 8) 8 fid))\<rparr>"

theorem simple_session_frame_maps_witness:
  "\<exists>rs s'. simple_session naming_lib (small_env small_answer) [StoreAtom 7, LoadFrameDAG, StoreAtom 1] (small_simple []) = (rs, s') \<and>
    maps_ok naming_lib s'"
proof -
  have "names_frames naming_lib"
    by (auto simp: names_frames_def naming_lib_def small_lib_def names_ok_def umap_insert_def split: sum.splits option.splits)
  moreover have "maps_ok naming_lib (small_simple [])" by (simp add: maps_ok_def shorts_ok_def names_ok_def small_simple_def)
  ultimately show ?thesis using simple_session_frame_maps by (metis surj_pair)
qed

end
