(* ===== verification/Steps.thy ===== *)
theory Steps
  imports LineClient
begin

text \<open>
  Methods as programs of steps. A method of a storage node that several threads share is not one
  atomic action: it takes and releases mutexes, sends and receives on the socket, and between these
  it reads and writes the fields of the node and the atomspaces. The datatype \<open>prog\<close> has one
  constructor per kind of step; \<open>'c\<close> is the part of the node that local steps work on, and which
  does not contain the socket.

  A program has two meanings here: \<open>exec\<close> runs it alone on the sockets, ignoring the mutexes, and
  \<open>rpc_exec\<close> runs it on an ideal connection, where a request is a call of a function of the server.
  The locale \<open>node_client\<close> shows once that the first refines the second for every program that pairs
  its requests with receives. The theory \<open>Threads\<close> gives the third meaning, the interleaving of the
  programs of several threads.
\<close>

datatype mtx = MtxSock | MtxFrame   \<comment> \<open>\<open>_mtx\<close> and \<open>_mtx_frame\<close>\<close>

datatype ('c, 'a) prog =
    Return 'a
  | Raise cxx_fail
  | Lock mtx "('c, 'a) prog"
  | Unlock mtx "('c, 'a) prog"
  | Send string "('c, 'a) prog"
  | Recv "string \<Rightarrow> ('c, 'a) prog"
  | Local "'c \<Rightarrow> ('c, 'a) prog \<times> 'c"

lemma prog_induct [case_names Return Raise Lock Unlock Send Recv Local]:
  assumes "\<And>x. P (Return x)" and "\<And>e. P (Raise e)" and "\<And>m p. P p \<Longrightarrow> P (Lock m p)" and "\<And>m p. P p \<Longrightarrow> P (Unlock m p)"
    and "\<And>msg p. P p \<Longrightarrow> P (Send msg p)" and "\<And>f. (\<And>r. P (f r)) \<Longrightarrow> P (Recv f)"
    and "\<And>f. (\<And>c. P (fst (f c))) \<Longrightarrow> P (Local f)"
  shows "P p"
  using assms by (induction p) (auto 4 4 simp: prod_set_defs intro: prod.collapse [symmetric])

primrec pbnd :: "('c, 'a) prog \<Rightarrow> ('a \<Rightarrow> ('c, 'b) prog) \<Rightarrow> ('c, 'b) prog" where
  "pbnd (Return x) k = k x"
| "pbnd (Raise e) k = Raise e"
| "pbnd (Lock m p) k = Lock m (pbnd p k)"
| "pbnd (Unlock m p) k = Unlock m (pbnd p k)"
| "pbnd (Send msg p) k = Send msg (pbnd p k)"
| "pbnd (Recv f) k = Recv (\<lambda>r. pbnd (f r) k)"
| "pbnd (Local f) k = Local (\<lambda>c. map_prod (\<lambda>p. pbnd p k) id (f c))"

definition pseq :: "('c, 'a) prog \<Rightarrow> ('c, 'b) prog \<Rightarrow> ('c, 'b) prog" where
  "pseq p q = pbnd p (\<lambda>_. q)"

fun pfor :: "('x \<Rightarrow> ('c, unit) prog) \<Rightarrow> 'x list \<Rightarrow> ('c, unit) prog" where
  "pfor f [] = Return ()"
| "pfor f (x # xs) = pseq (f x) (pfor f xs)"

text \<open>An action on the fields of the node, as one step.\<close>

definition act :: "('c, 'a) io \<Rightarrow> ('c, 'a) prog" where
  "act m = Local (\<lambda>c. case m c of (Inl e, c') \<Rightarrow> (Raise e, c') | (Inr x, c') \<Rightarrow> (Return x, c'))"

text \<open>A scope that starts with \<open>std::lock_guard lck(m)\<close>.\<close>

definition locked :: "mtx \<Rightarrow> ('c, 'a) prog \<Rightarrow> ('c, 'a) prog" where
  "locked m p = Lock m (pbnd p (\<lambda>x. Unlock m (Return x)))"

definition say :: "string \<Rightarrow> ('c, unit) prog" where
  "say msg = Send msg (Return ())"

text \<open>\<open>do_send(msg); ... = do_recv();\<close>\<close>

definition ask :: "string \<Rightarrow> ('c, string) prog" where
  "ask msg = Send msg (Recv Return)"

section \<open>Running a program alone\<close>

primrec exec ::
  "(string \<Rightarrow> ('s, unit) io) \<Rightarrow> ('s, string) io \<Rightarrow> ('s \<Rightarrow> 'c) \<Rightarrow> ('c \<Rightarrow> 's \<Rightarrow> 's) \<Rightarrow> ('c, 'a) prog \<Rightarrow> ('s, 'a) io" where
  "exec sd rcv gt pt (Return x) = ret x"
| "exec sd rcv gt pt (Raise e) = throw e"
| "exec sd rcv gt pt (Lock m p) = exec sd rcv gt pt p"
| "exec sd rcv gt pt (Unlock m p) = exec sd rcv gt pt p"
| "exec sd rcv gt pt (Send msg p) = seq (sd msg) (exec sd rcv gt pt p)"
| "exec sd rcv gt pt (Recv f) = bnd rcv (\<lambda>r. exec sd rcv gt pt (f r))"
| "exec sd rcv gt pt (Local f) =
     (\<lambda>s. case map_prod (exec sd rcv gt pt) id (f (gt s)) of (g, c) \<Rightarrow> g (pt c s))"

lemma exec_Local: "exec sd rcv gt pt (Local f) s = exec sd rcv gt pt (fst (f (gt s))) (pt (snd (f (gt s))) s)"
  by (simp add: map_prod_def split: prod.splits)

declare exec.simps(7) [simp del]

lemma exec_pbnd: "exec sd rcv gt pt (pbnd p k) = bnd (exec sd rcv gt pt p) (\<lambda>x. exec sd rcv gt pt (k x))"
proof (induction p rule: prog_induct)
  case (Local f)
  then show ?case by (intro ext) (simp add: exec_Local bnd_def)
qed (simp_all add: bnd_ret_left seq_def bnd_assoc, simp add: throw_def bnd_def fun_eq_iff)

lemma exec_pseq: "exec sd rcv gt pt (pseq p q) = seq (exec sd rcv gt pt p) (exec sd rcv gt pt q)"
  by (simp add: pseq_def exec_pbnd seq_def)

lemma exec_pfor: "exec sd rcv gt pt (pfor f xs) = for_each (\<lambda>x. exec sd rcv gt pt (f x)) xs"
  by (induction xs) (simp_all add: exec_pseq)

lemma exec_locked: "exec sd rcv gt pt (locked m p) = exec sd rcv gt pt p"
  by (simp add: locked_def exec_pbnd bnd_ret_right)

lemma exec_say: "exec sd rcv gt pt (say msg) = sd msg"
  using bnd_ret_right [of "sd msg"] by (simp add: say_def seq_def)

lemma exec_ask: "exec sd rcv gt pt (ask msg) = seq (sd msg) rcv"
  by (simp add: ask_def bnd_ret_right)

lemma exec_act: "exec sd rcv gt pt (act m) s = (case m (gt s) of (r, c) \<Rightarrow> (r, pt c s))"
  by (simp add: act_def exec_Local throw_def ret_def split: prod.splits sum.splits)

lemmas exec_simps = exec_pbnd exec_pseq exec_pfor exec_locked exec_say exec_ask

section \<open>An ideal connection\<close>

text \<open>The client's part, the server, and the reply that waits to be read. \<open>ans msg x\<close> is what the server
  in state \<open>x\<close> does with a message: its next state, and its reply if it gives one.\<close>

record ('c, 'srv) rpc =
  r_client :: 'c
  r_srv :: 'srv
  r_reply :: "string option"

definition rpc_send :: "(string \<Rightarrow> 'srv \<Rightarrow> 'srv \<times> string option) \<Rightarrow> string \<Rightarrow> (('c, 'srv) rpc, unit) io" where
  "rpc_send ans msg r = (case ans msg (r_srv r) of (x, rep) \<Rightarrow> (Inr (), r\<lparr>r_srv := x, r_reply := rep\<rparr>))"

definition rpc_recv :: "(('c, 'srv) rpc, string) io" where
  "rpc_recv r = (case r_reply r of None \<Rightarrow> (Inl Blocked, r) | Some m \<Rightarrow> (Inr m, r\<lparr>r_reply := None\<rparr>))"

definition rpc_exec ::
  "(string \<Rightarrow> 'srv \<Rightarrow> 'srv \<times> string option) \<Rightarrow> ('c, 'a) prog \<Rightarrow> (('c, 'srv) rpc, 'a) io" where
  "rpc_exec ans = exec (rpc_send ans) rpc_recv r_client (\<lambda>c r. r\<lparr>r_client := c\<rparr>)"

text \<open>The server behind a connection computes \<open>ans\<close>: it answers the commands that want a reply by one
  line, however it is cut up on the way, and the others by nothing.\<close>

definition serves :: "'srv env \<Rightarrow> int \<Rightarrow> (string \<Rightarrow> 'srv \<Rightarrow> 'srv \<times> string option) \<Rightarrow> bool" where
  "serves E fd ans \<longleftrightarrow>
     (\<forall>msg x. \<not> broken E fd x \<and>
        (wants_reply msg \<longrightarrow>
           (\<exists>m. ans msg x = (fst (on_data E fd msg x), Some m) \<and> is_reply (snd (on_data E fd msg x)) m)) \<and>
        (noreply msg \<longrightarrow> ans msg x = (fst (on_data E fd msg x), None) \<and> snd (on_data E fd msg x) = []))"

lemma servesD:
  assumes "serves E fd ans"
  shows "\<not> broken E fd x"
    and "wants_reply msg \<Longrightarrow> \<exists>m. ans msg x = (fst (on_data E fd msg x), Some m) \<and> is_reply (snd (on_data E fd msg x)) m"
    and "noreply msg \<Longrightarrow> ans msg x = (fst (on_data E fd msg x), None) \<and> snd (on_data E fd msg x) = []"
  using assms unfolding serves_def by blast+

text \<open>The requests of a program are paired with receives; \<open>w\<close> says that a reply is due.\<close>

primrec paired :: "('c, 'a) prog \<Rightarrow> bool \<Rightarrow> bool" where
  "paired (Return x) w \<longleftrightarrow> \<not> w"
| "paired (Raise e) w \<longleftrightarrow> \<not> w"
| "paired (Lock m p) w \<longleftrightarrow> \<not> w \<and> paired p False"
| "paired (Unlock m p) w \<longleftrightarrow> \<not> w \<and> paired p False"
| "paired (Send msg p) w \<longleftrightarrow> \<not> w \<and> (if wants_reply msg then paired p True else noreply msg \<and> paired p False)"
| "paired (Recv f) w \<longleftrightarrow> w \<and> (\<forall>r. paired (f r) False)"
| "paired (Local f) w \<longleftrightarrow> \<not> w \<and> (\<forall>c. fst (map_prod paired id (f c)) False)"

lemma paired_Local [simp]: "paired (Local f) w \<longleftrightarrow> \<not> w \<and> (\<forall>c. paired (fst (f c)) False)"
  by simp

declare paired.simps(7) [simp del]

lemma paired_pbnd: "paired p w \<Longrightarrow> (\<And>x. paired (k x) False) \<Longrightarrow> paired (pbnd p k) w"
proof (induction p arbitrary: w rule: prog_induct)
  case (Send msg p)
  then show ?case by (auto split: if_splits)
qed auto

section \<open>Lock discipline\<close>

text \<open>Where a thread is: which mutexes it holds, and whether it waits for a reply.\<close>

datatype phase = Out | OutF | In | InF | Await

fun enter :: "mtx \<Rightarrow> phase \<Rightarrow> phase option" where
  "enter MtxSock Out = Some In"
| "enter MtxFrame Out = Some OutF"
| "enter MtxFrame In = Some InF"
| "enter _ _ = None"

fun leave :: "mtx \<Rightarrow> phase \<Rightarrow> phase option" where
  "leave MtxSock In = Some Out"
| "leave MtxFrame OutF = Some Out"
| "leave MtxFrame InF = Some In"
| "leave _ _ = None"

fun holds :: "phase \<Rightarrow> mtx set" where
  "holds Out = {}" | "holds OutF = {MtxFrame}" | "holds In = {MtxSock}" | "holds InF = {MtxSock, MtxFrame}"
| "holds Await = {MtxSock}"

text \<open>\<open>disc K p ph q\<close>: started in the phase \<open>ph\<close>, the program uses the socket only under \<open>_mtx\<close>, reads
  every reply before it does anything else, takes \<open>_mtx\<close> only with no mutex held, fails only with
  failures in \<open>K\<close>, and returns in the phase \<open>q\<close>.\<close>

primrec disc :: "(cxx_fail \<Rightarrow> bool) \<Rightarrow> ('c, 'a) prog \<Rightarrow> phase \<Rightarrow> phase \<Rightarrow> bool" where
  "disc K (Return x) ph q \<longleftrightarrow> ph = q"
| "disc K (Raise e) ph q \<longleftrightarrow> ph \<noteq> Await \<and> K e"
| "disc K (Lock m p) ph q \<longleftrightarrow> (case enter m ph of None \<Rightarrow> False | Some ph' \<Rightarrow> disc K p ph' q)"
| "disc K (Unlock m p) ph q \<longleftrightarrow> (case leave m ph of None \<Rightarrow> False | Some ph' \<Rightarrow> disc K p ph' q)"
| "disc K (Send msg p) ph q \<longleftrightarrow> ph = In \<and> (if wants_reply msg then disc K p Await q else noreply msg \<and> disc K p In q)"
| "disc K (Recv f) ph q \<longleftrightarrow> ph = Await \<and> (\<forall>r. disc K (f r) In q)"
| "disc K (Local f) ph q \<longleftrightarrow> ph \<noteq> Await \<and> (\<forall>c. fst (map_prod (disc K) id (f c)) ph q)"

lemma disc_Local [simp]: "disc K (Local f) ph q \<longleftrightarrow> ph \<noteq> Await \<and> (\<forall>c. disc K (fst (f c)) ph q)"
  by simp

declare disc.simps(7) [simp del]

lemma enter_leave: "enter m ph = Some ph' \<Longrightarrow> ph \<noteq> Await \<and> ph' \<noteq> Await \<and> holds ph' = insert m (holds ph) \<and> m \<notin> holds ph"
  by (cases "(m, ph)" rule: enter.cases) auto

lemma leave_enter: "leave m ph = Some ph' \<Longrightarrow> ph \<noteq> Await \<and> ph' \<noteq> Await \<and> holds ph' = holds ph - {m}"
  by (cases "(m, ph)" rule: leave.cases) auto

lemma disc_paired: "disc K p ph q \<Longrightarrow> q \<noteq> Await \<Longrightarrow> paired p (ph = Await)"
proof (induction p arbitrary: ph rule: prog_induct)
  case (Lock m p)
  then obtain ph' where "enter m ph = Some ph'" "disc K p ph' q" by (auto split: option.splits)
  with Lock.IH [of ph'] Lock.prems(2) enter_leave [of m ph ph'] show ?case by simp
next
  case (Unlock m p)
  then obtain ph' where "leave m ph = Some ph'" "disc K p ph' q" by (auto split: option.splits)
  with Unlock.IH [of ph'] Unlock.prems(2) leave_enter [of m ph ph'] show ?case by simp
next
  case (Send msg p)
  with Send.IH [of Await] Send.IH [of In] show ?case by (simp split: if_splits)
next
  case (Recv f)
  with Recv.IH [of _ In] show ?case by simp
next
  case (Local f)
  then have ph: "ph \<noteq> Await" "disc K (fst (f c)) ph q" for c by simp_all
  from Local.IH [OF ph(2) Local.prems(2)] ph(1) show ?case by simp
qed auto

lemma disc_pbnd: "disc K p ph q \<Longrightarrow> (\<And>x. disc K (k x) q q') \<Longrightarrow> disc K (pbnd p k) ph q'"
  by (induction p arbitrary: ph rule: prog_induct) (auto split: option.splits if_splits)

lemma disc_pseq: "disc K p ph q \<Longrightarrow> disc K p' q q' \<Longrightarrow> disc K (pseq p p') ph q'"
  by (simp add: pseq_def disc_pbnd)

lemma disc_keeps:
  "disc K p ph ph \<Longrightarrow> (\<And>x. disc K (k x) ph ph) \<Longrightarrow> disc K (pbnd p k) ph ph"
  "disc K p ph ph \<Longrightarrow> disc K p' ph ph \<Longrightarrow> disc K (pseq p p') ph ph"
  by (rule disc_pbnd disc_pseq; assumption)+

lemma disc_pfor: "(\<And>x. disc K (f x) ph ph) \<Longrightarrow> disc K (pfor f xs) ph ph"
  by (induction xs) (auto intro: disc_pseq)

lemma disc_locked:
  "disc K p In In \<Longrightarrow> disc K (locked MtxSock p) Out Out"
  "disc K p OutF OutF \<Longrightarrow> disc K (locked MtxFrame p) Out Out"
  "disc K p InF InF \<Longrightarrow> disc K (locked MtxFrame p) In In"
  by (simp_all add: locked_def) (rule disc_pbnd, assumption, simp)+

lemma disc_say: "noreply msg \<Longrightarrow> disc K (say msg) In In"
  by (simp add: say_def wants_reply_def)

lemma disc_ask: "wants_reply msg \<Longrightarrow> disc K (ask msg) In In"
  by (simp add: ask_def)

lemma disc_act:
  assumes "ph \<noteq> Await" and "keeps (\<lambda>_. True) K m"
  shows "disc K (act m) ph ph"
proof -
  have "K e" if "m c = (Inl e, c')" for c c' e using keeps_fail [OF assms(2), of c e] that by simp
  with assms(1) show ?thesis by (auto simp: act_def split: prod.splits sum.splits)
qed

lemma disc_if: "disc K p ph q \<Longrightarrow> disc K p' ph q \<Longrightarrow> disc K (if b then p else p') ph q"
  by simp

lemma disc_option: "disc K p ph q \<Longrightarrow> (\<And>y. disc K (f y) ph q) \<Longrightarrow> disc K (case x of None \<Rightarrow> p | Some y \<Rightarrow> f y) ph q"
  by (cases x) auto

lemma disc_pair: "(\<And>y z. disc K (f y z) ph q) \<Longrightarrow> disc K (case x of (y, z) \<Rightarrow> f y z) ph q"
  by (cases x) auto

section \<open>Refinement\<close>

locale node_client = line_client fd_of net_of put_net E send_line recv_line
  for fd_of :: "'s \<Rightarrow> int" and net_of :: "'s \<Rightarrow> 'srv net" and put_net and E and send_line and recv_line +
  fixes get_c :: "'s \<Rightarrow> 'c" and put_c :: "'c \<Rightarrow> 's \<Rightarrow> 's"
  assumes get_put: "get_c (put_c c s) = c"
    and put_c_net: "net_of (put_c c s) = net_of s" "fd_of (put_c c s) = fd_of s"
    and get_put_net: "get_c (put_net n s) = get_c s"
begin

text \<open>What the ideal connection keeps of a state.\<close>

definition view :: "'s \<Rightarrow> ('c, 'srv) rpc" where
  "view s = \<lparr>r_client = get_c s, r_srv = srv (net_of s), r_reply = None\<rparr>"

definition due :: "string \<Rightarrow> 's \<Rightarrow> bool" where
  "due m s \<longleftrightarrow> 0 < fd_of s \<and> fd_of s \<in> set (open_fds (net_of s)) \<and>
     (\<exists>pre rs. rx (net_of s) (fd_of s) = pre @ rs \<and> idle_only pre \<and> is_reply rs m)"

lemma recv_due:
  assumes "due m s"
  shows "\<exists>s'. recv_line s = (Inr m, s') \<and> in_step s' \<and> view s' = view s \<and> fd_of s' = fd_of s"
proof -
  from assms obtain pre rs where "0 < fd_of s" "fd_of s \<in> set (open_fds (net_of s))"
    "rx (net_of s) (fd_of s) = pre @ rs" "idle_only pre" "is_reply rs m"
    unfolding due_def by blast
  from recv_run [OF this] this(1,2) show ?thesis
    by (auto simp: in_step_def view_def put_get get_put_net set_rx_def)
qed

lemma send_due:
  assumes "serves E (fd_of s) ans" and "in_step s" and "wants_reply msg"
  shows "\<exists>m s'. send_line msg s = (Inr (), s') \<and> due m s' \<and> fd_of s' = fd_of s \<and>
    rpc_send ans msg (view s) = (Inr (), view s'\<lparr>r_reply := Some m\<rparr>)"
proof -
  obtain x evs where d: "on_data E (fd_of s) msg (srv (net_of s)) = (x, evs)" by fastforce
  with servesD(2) [OF assms(1,3), of "srv (net_of s)"] obtain m where
    m: "ans msg (srv (net_of s)) = (x, Some m)" "is_reply evs m" by auto
  from send_run [OF _ _ _ servesD(1) [OF assms(1)] d] assms(2)
  have "send_line msg s = (Inr (), put_net (sent (fd_of s) msg x evs (net_of s)) s)" by (simp add: in_step_def)
  with assms(2) m show ?thesis
    by (intro exI [of _ m]) (auto simp: due_def in_step_def sent_def put_get rpc_send_def view_def get_put_net)
qed

lemma send_silent:
  assumes "serves E (fd_of s) ans" and "in_step s" and "noreply msg"
  shows "\<exists>s'. send_line msg s = (Inr (), s') \<and> in_step s' \<and> fd_of s' = fd_of s \<and>
    rpc_send ans msg (view s) = (Inr (), view s')"
proof -
  obtain x evs where d: "on_data E (fd_of s) msg (srv (net_of s)) = (x, evs)" by fastforce
  with servesD(3) [OF assms(1,3), of "srv (net_of s)"] have
    m: "ans msg (srv (net_of s)) = (x, None)" "evs = []" by auto
  from send_run [OF _ _ _ servesD(1) [OF assms(1)] d] assms(2)
  have "send_line msg s = (Inr (), put_net (sent (fd_of s) msg x evs (net_of s)) s)" by (simp add: in_step_def)
  with assms(2) m show ?thesis
    by (auto simp: in_step_def sent_def put_get rpc_send_def view_def get_put_net)
qed

text \<open>A program that pairs its requests with receives, run over the sockets, does what it does over the
  ideal connection.\<close>

abbreviation run :: "('c, 'a) prog \<Rightarrow> ('s, 'a) io" where
  "run \<equiv> exec send_line recv_line get_c put_c"

lemma exec_refines_both:
  assumes "serves E fd ans"
  shows "fd_of s = fd \<Longrightarrow> in_step s \<Longrightarrow> paired p False \<Longrightarrow>
      \<exists>r s'. run p s = (r, s') \<and> in_step s' \<and> fd_of s' = fd \<and> rpc_exec ans p (view s) = (r, view s')"
    and "fd_of s = fd \<Longrightarrow> due m s \<Longrightarrow> paired p True \<Longrightarrow>
      \<exists>r s'. run p s = (r, s') \<and> in_step s' \<and> fd_of s' = fd \<and> rpc_exec ans p (view s\<lparr>r_reply := Some m\<rparr>) = (r, view s')"
proof (induction p arbitrary: s m rule: prog_induct)
  case (Return x)
  { case 1 then show ?case by (simp add: ret_def rpc_exec_def) }
  { case 2 then show ?case by simp }
next
  case (Raise e)
  { case 1 then show ?case by (simp add: throw_def rpc_exec_def) }
  { case 2 then show ?case by simp }
next
  case (Lock k p)
  { case 1 then show ?case using Lock.IH(1) by (simp add: rpc_exec_def) }
  { case 2 then show ?case by simp }
next
  case (Unlock k p)
  { case 1 then show ?case using Unlock.IH(1) by (simp add: rpc_exec_def) }
  { case 2 then show ?case by simp }
next
  case (Send msg p)
  { case 1
    note s = 1 assms [folded 1(1)]
    show ?case
    proof (cases "wants_reply msg")
      case True
      from send_due [OF s(4,2) True] obtain m s' where
        "send_line msg s = (Inr (), s')" "due m s'" "fd_of s' = fd"
        "rpc_send ans msg (view s) = (Inr (), view s'\<lparr>r_reply := Some m\<rparr>)" using s(1) by auto
      with Send.IH(2) [of s' m] s(3) True show ?thesis by (auto simp: rpc_exec_def seq_def bnd_def)
    next
      case False
      with s(3) have "noreply msg" "paired p False" by auto
      with send_silent [OF s(4,2)] obtain s' where
        "send_line msg s = (Inr (), s')" "in_step s'" "fd_of s' = fd" "rpc_send ans msg (view s) = (Inr (), view s')"
        using s(1) by auto
      with Send.IH(1) [of s'] \<open>paired p False\<close> show ?thesis by (auto simp: rpc_exec_def seq_def bnd_def)
    qed }
  { case 2 then show ?case by simp }
next
  case (Recv f)
  { case 1 then show ?case by simp }
  { case 2
    from recv_due [OF 2(2)] 2(1) obtain s' where
      "recv_line s = (Inr m, s')" "in_step s'" "view s' = view s" "fd_of s' = fd" by auto
    moreover have "rpc_recv (view s\<lparr>r_reply := Some m\<rparr>) = (Inr m, view s)"
      by (simp add: rpc_recv_def view_def)
    ultimately show ?case using Recv.IH(1) [of s' m] 2(3) by (auto simp: rpc_exec_def bnd_def) }
next
  case (Local f)
  { case 1
    let ?c = "snd (f (get_c s))"
    have p: "fd_of (put_c ?c s) = fd" "in_step (put_c ?c s)" "paired (fst (f (get_c s))) False"
      and v: "view (put_c ?c s) = view s\<lparr>r_client := ?c\<rparr>" "r_client (view s) = get_c s"
      using 1 by (simp_all add: in_step_def view_def get_put put_c_net)
    from Local.IH(1) [OF p] v show ?case by (auto simp: rpc_exec_def exec_Local) }
  { case 2 then show ?case by simp }
qed

lemmas exec_refines = exec_refines_both(1)

end

end
