(* ===== verification/SimpleSteps.thy ===== *)
theory SimpleSteps
  imports SimpleIO Steps
begin

text \<open>
  The methods of \<open>CogSimpleStorage\<close> as programs of steps, with the scopes of \<open>_mtx\<close> and \<open>_mtx_frame\<close>
  where the code has them. What a thread does between two mutex or socket operations is a sequence
  of local steps on the fields that the threads share (\<open>shared\<close>) and on the thread's own random
  generator; a step is one use of a field or one call on the atomspace.

  \<open>proxy_open\<close> and \<open>proxy_close\<close> send and receive without taking \<open>_mtx\<close>; all others hold it from the
  request to the end of the reply.

  Run alone, every program is the method of the theories \<open>SimpleStorage\<close> and \<open>SimpleIO\<close>.
\<close>

section \<open>State\<close>

record ('h, 'w) shared =
  h_multi_space :: bool
  h_frame_map :: "('h, string) umap"
  h_fid_map :: "(string, 'h) umap"
  h_atom_space :: "'h option"
  h_as :: 'w

type_synonym ('h, 'w, 'a) sprog = "(nat \<times> ('h, 'w) shared, 'a) prog"

definition shared_of :: "('h, 'w, 'srv) simple \<Rightarrow> ('h, 'w) shared" where
  "shared_of s = \<lparr>h_multi_space = s_multi_space s, h_frame_map = s_frame_map s, h_fid_map = s_fid_map s,
     h_atom_space = s_atom_space s, h_as = s_as s\<rparr>"

definition put_shared :: "('h, 'w) shared \<Rightarrow> ('h, 'w, 'srv) simple \<Rightarrow> ('h, 'w, 'srv) simple" where
  "put_shared h s = s\<lparr>s_multi_space := h_multi_space h, s_frame_map := h_frame_map h, s_fid_map := h_fid_map h,
     s_atom_space := h_atom_space h, s_as := h_as h\<rparr>"

definition node_get :: "('h, 'w, 'srv) simple \<Rightarrow> nat \<times> ('h, 'w) shared" where
  "node_get s = (s_rng s, shared_of s)"

definition node_put :: "nat \<times> ('h, 'w) shared \<Rightarrow> ('h, 'w, 'srv) simple \<Rightarrow> ('h, 'w, 'srv) simple" where
  "node_put c s = (put_shared (snd c) s)\<lparr>s_rng := fst c\<rparr>"

definition rd :: "(('h, 'w) shared \<Rightarrow> 'a) \<Rightarrow> ('h, 'w, 'a) sprog" where
  "rd f = act (gets (\<lambda>c. f (snd c)))"

definition wr :: "(('h, 'w) shared \<Rightarrow> ('h, 'w) shared) \<Rightarrow> ('h, 'w, unit) sprog" where
  "wr f = act (modify (\<lambda>c. (fst c, f (snd c))))"

definition on_space :: "('w, 'a) io \<Rightarrow> ('h, 'w, 'a) sprog" where
  "on_space m = act (\<lambda>c. case m (h_as (snd c)) of (r, w) \<Rightarrow> (r, (fst c, (snd c)\<lparr>h_as := w\<rparr>)))"

definition of_lib :: "string + 'a \<Rightarrow> ('c, 'a) prog" where
  "of_lib r = (case r of Inl e \<Rightarrow> Raise (LibraryThrow e) | Inr x \<Rightarrow> Return x)"

definition of_res :: "cxx_fail + 'a \<Rightarrow> ('c, 'a) prog" where
  "of_res r = (case r of Inl e \<Rightarrow> Raise e | Inr x \<Rightarrow> Return x)"

section \<open>Frames\<close>

definition t_set_multi :: "bool \<Rightarrow> ('h, 'w, unit) sprog" where
  "t_set_multi b = wr (\<lambda>h. h\<lparr>h_multi_space := b\<rparr>)"

fun t_cacheFrame :: "nat \<Rightarrow> ('h, 'v, 't, 'w) atomlib \<Rightarrow> 'h \<Rightarrow> ('h, 'w, unit) sprog" where
  "t_cacheFrame 0 L hasp = Raise StackOverflow"
| "t_cacheFrame (Suc n) L hasp =
     pseq (pfor (t_cacheFrame n L) (getOutgoingSet L hasp))
     (locked MtxFrame
       (wr (\<lambda>h. h\<lparr>h_frame_map := umap_insert hasp (space_shorty (get_name L hasp)) (h_frame_map h),
                    h_fid_map := umap_insert (get_name L hasp) hasp (h_fid_map h)\<rparr>)))"

definition t_writeFrame :: "('h, 'v, 't, 'w) atomlib \<Rightarrow> 'h option \<Rightarrow> ('h, 'w, string) sprog" where
  "t_writeFrame L hasp =
     pbnd (locked MtxFrame (rd (\<lambda>g. Option.bind hasp (map_of (h_frame_map g))))) (\<lambda>it.
     case it of
       Some shorty \<Rightarrow> Return shorty
     | None \<Rightarrow>
         pseq (t_set_multi True)
         (case hasp of
            None \<Rightarrow> Raise NullHandle
          | Some h \<Rightarrow>
              pseq (locked MtxSock (say (simple_define_msg L h)))
              (pseq (t_cacheFrame (stack_depth L) L h)
              (Return (space_shorty (get_name L h))))))"

definition t_storeFrameDAG :: "('h, 'v, 't, 'w) atomlib \<Rightarrow> 'h option \<Rightarrow> ('h, 'w, unit) sprog" where
  "t_storeFrameDAG L top_as = pseq (t_writeFrame L top_as) (t_set_multi True)"

text \<open>\<open>loadFrameDAG\<close> uses both maps without \<open>_mtx_frame\<close>.\<close>

definition t_loadFrameDAG :: "('h, 'v, 't, 'w) atomlib \<Rightarrow> ('h, 'w, 'h list) sprog" where
  "t_loadFrameDAG L =
     pseq (t_set_multi True)
     (locked MtxSock
       (pbnd (ask (''(cog-atomspace)'' @ [NL])) (\<lambda>rply.
        if length rply < 5 then Return []
        else
          pbnd (rd h_fid_map) (\<lambda>fid.
          pbnd (of_lib (decode_frame L rply 0 fid)) (\<lambda>(top_as, fid').
          pseq (wr (\<lambda>h. h\<lparr>h_fid_map := fid',
                 h_frame_map := fold (\<lambda>(name, x). umap_insert x (space_shorty name)) fid' (h_frame_map h)\<rparr>))
          (Return [top_as]))))))"

section \<open>Storing\<close>

definition t_write_space :: "('h, 'v, 't, 'w) atomlib \<Rightarrow> 'h \<Rightarrow> ('h, 'w, unit) sprog" where
  "t_write_space L h =
     pbnd (rd h_multi_space) (\<lambda>m.
     if m
     then pbnd (rd (\<lambda>g. getAtomSpace L (h_as g) h)) (\<lambda>as. pseq (t_writeFrame L as) (Return ()))
     else Return ())"

definition t_storeAtom :: "('h, 'v, 't, 'w) atomlib \<Rightarrow> 'h \<Rightarrow> ('h, 'w, unit) sprog" where
  "t_storeAtom L h =
     pbnd (rd (\<lambda>g. \<not> h_multi_space g \<and> h_atom_space g \<noteq> None \<and> getAtomSpace L (h_as g) h \<noteq> h_atom_space g)) (\<lambda>other.
     pseq (if other then t_set_multi True else Return ())
     (pseq (t_write_space L h)
     (pbnd (rd (\<lambda>g. simple_storeAtom_msg L (h_as g) (h_multi_space g) h)) (\<lambda>msg.
      locked MtxSock (say msg)))))"

definition t_storeValue :: "('h, 'v, 't, 'w) atomlib \<Rightarrow> 'h \<Rightarrow> 'h \<Rightarrow> ('h, 'w, unit) sprog" where
  "t_storeValue L h key =
     pbnd (rd (\<lambda>g. \<not> h_multi_space g \<and> getAtomSpace L (h_as g) h \<noteq> h_atom_space g)) (\<lambda>other.
     pseq (if other then t_set_multi True else Return ())
     (pseq (t_write_space L h)
     (pbnd (rd (\<lambda>g. simple_storeValue_msg L (h_as g) (h_multi_space g) h key)) (\<lambda>msg.
      locked MtxSock (say msg)))))"

definition t_updateValue :: "('h, 'v, 't, 'w) atomlib \<Rightarrow> 'h \<Rightarrow> 'h \<Rightarrow> 'v \<Rightarrow> ('h, 'w, unit) sprog" where
  "t_updateValue L h key delta =
     pbnd (rd (\<lambda>g. \<not> h_multi_space g \<and> getAtomSpace L (h_as g) h \<noteq> h_atom_space g)) (\<lambda>other.
     pseq (if other then t_set_multi True else Return ())
     (pseq (t_write_space L h)
     (pbnd (rd (\<lambda>g. simple_updateValue_msg L (h_as g) (h_multi_space g) h key delta)) (\<lambda>msg.
      locked MtxSock (say msg)))))"

definition t_storeAtomSpace :: "('h, 'v, 't, 'w) atomlib \<Rightarrow> 'h \<Rightarrow> ('h, 'w, unit) sprog" where
  "t_storeAtomSpace L table = pbnd (rd (\<lambda>g. all_atoms L (h_as g) table)) (\<lambda>hs. pfor (t_storeAtom L) hs)"

text \<open>\<open>do_send(msg); do_recv();\<close> with the reply flushed, under the lock.\<close>

definition locked_ask :: "string \<Rightarrow> ('h, 'w, unit) sprog" where
  "locked_ask msg = locked MtxSock (pbnd (ask msg) (\<lambda>_. Return ()))"

definition t_set_proxy :: "('h, 'v, 't, 'w) atomlib \<Rightarrow> 'h \<Rightarrow> ('h, 'w, unit) sprog" where
  "t_set_proxy L h =
     pseq (t_storeAtom L h)
     (pbnd (rd (\<lambda>g. ''(cog-set-proxy! '' @ encode_atom L (h_as g) h False @ '')'' @ [NL])) locked_ask)"

definition t_removeAtom :: "('h, 'v, 't, 'w) atomlib \<Rightarrow> 'h \<Rightarrow> bool \<Rightarrow> ('h, 'w, unit) sprog" where
  "t_removeAtom L h recursive = pbnd (rd (\<lambda>g. simple_removeAtom_msg L (h_as g) h recursive)) locked_ask"

definition t_kill_data :: "('h, 'w, unit) sprog" where
  "t_kill_data =
     locked MtxSock
       (pseq (ask (''(cog-atomspace-clear)'' @ [NL]))
       (pseq (t_set_multi False)
       (locked MtxFrame (wr (\<lambda>h. h\<lparr>h_frame_map := [], h_fid_map := []\<rparr>)))))"

section \<open>Fetching\<close>

definition t_loadValue :: "('h, 'v, 't, 'w) atomlib \<Rightarrow> 'h \<Rightarrow> 'h \<Rightarrow> ('h, 'w, unit) sprog" where
  "t_loadValue L h key =
     pbnd (rd (\<lambda>g. simple_loadValue_msg L (h_as g) h key)) (\<lambda>msg.
     locked MtxSock (pbnd (ask msg) (\<lambda>rply. on_space (simple_take_value L h key rply))))"

text \<open>Here the lock ends before the value is decoded and set.\<close>

definition t_runQuery ::
  "('h, 'v, 't, 'w) atomlib \<Rightarrow> 'h \<Rightarrow> 'h \<Rightarrow> 'h option \<Rightarrow> bool \<Rightarrow> ('h, 'w, unit) sprog" where
  "t_runQuery L query key meta fresh =
     pbnd (rd (\<lambda>g. simple_runQuery_msg L (h_as g) query key meta fresh)) (\<lambda>msg.
     pbnd (locked MtxSock (ask msg)) (\<lambda>rply. on_space (simple_take_value L query key rply)))"

definition t_getAtom :: "('h, 'v, 't, 'w) atomlib \<Rightarrow> 'h \<Rightarrow> ('h, 'w, unit) sprog" where
  "t_getAtom L h =
     pbnd (rd h_as) (\<lambda>w.
     locked MtxSock
       (pbnd (ask (simple_iknow_msg L w h)) (\<lambda>msg.
        if compare0_eq 2 msg ''()'' then Return ()
        else
          pbnd (ask (simple_get_keys_msg L w h)) (\<lambda>msg.
          pbnd (rd h_atom_space) (\<lambda>as.
          on_space (ro_decode_alist L as h msg))))))"

fun t_atoms_loop ::
  "nat \<Rightarrow> ('h, 'v, 't, 'w) atomlib \<Rightarrow> 'h option \<Rightarrow> string \<Rightarrow> nat \<Rightarrow> nat \<Rightarrow> ('h, 'w, unit) sprog" where
  "t_atoms_loop 0 L table expr end_pos l = Raise Diverges"
| "t_atoms_loop (Suc fuel) L table expr end_pos l =
     pbnd (of_lib (get_next_expr L expr l end_pos)) (\<lambda>(pcnt, l, r).
     if l = r then Return ()
     else if 0 < pcnt then Return ()
     else
       pbnd (rd h_fid_map) (\<lambda>fid.
       pbnd (of_lib (decode_atom_in L expr l r fid)) (\<lambda>(h, fid').
       pseq (wr (\<lambda>g. g\<lparr>h_fid_map := fid'\<rparr>))
       (pbnd (rd (\<lambda>g. getAtomSpace L (h_as g) h)) (\<lambda>home.
        pbnd (case home of None \<Rightarrow> on_space (lib_call (add_nocheck L table h)) | Some _ \<Rightarrow> Return h) (\<lambda>h.
        pbnd (of_res (substr expr l (size_add (size_sub r l) 1))) (\<lambda>sub.
        pbnd (ask (''(cog-keys->alist '' @ sub @ '')'' @ [NL])) (\<lambda>msg.
        pseq (on_space (ro_decode_alist L table h msg))
        (t_atoms_loop fuel L table expr end_pos (size_add r 1))))))))))"

definition t_ask_atoms :: "('h, 'v, 't, 'w) atomlib \<Rightarrow> 'h option \<Rightarrow> string \<Rightarrow> ('h, 'w, unit) sprog" where
  "t_ask_atoms L table msg =
     pbnd (ask msg) (\<lambda>expr.
     let l = size_add (find_char (CHR ''('') expr 0) 1;
         end_pos = rfind_char (CHR '')'') expr
     in if l = end_pos then Return ()
        else t_atoms_loop (length expr + 2) L table expr end_pos l)"

definition t_fetchIncomingSet :: "('h, 'v, 't, 'w) atomlib \<Rightarrow> 'h option \<Rightarrow> 'h \<Rightarrow> ('h, 'w, unit) sprog" where
  "t_fetchIncomingSet L table h =
     pbnd (rd (\<lambda>g. ''(cog-incoming-set '' @ encode_atom L (h_as g) h False @ '')'' @ [NL])) (\<lambda>atom.
     locked MtxSock (t_ask_atoms L table atom))"

definition t_fetchIncomingByType ::
  "('h, 'v, 't, 'w) atomlib \<Rightarrow> 'h option \<Rightarrow> 'h \<Rightarrow> 't \<Rightarrow> ('h, 'w, unit) sprog" where
  "t_fetchIncomingByType L table h t =
     pbnd (rd (\<lambda>g. ''(cog-incoming-by-type '' @ encode_atom L (h_as g) h False @
                   '' '' @ [SQ] @ getTypeName L t @ '')'' @ [NL])) (\<lambda>msg.
     locked MtxSock (t_ask_atoms L table msg))"

definition t_loadAtomSpace :: "('h, 'v, 't, 'w) atomlib \<Rightarrow> 'h option \<Rightarrow> ('h, 'w, unit) sprog" where
  "t_loadAtomSpace L table =
     locked MtxSock
       (pseq (t_ask_atoms L table (get_atoms_msg ''Node'' '' #t''))
       (t_ask_atoms L table (get_atoms_msg ''Link'' '' #t'')))"

definition t_loadType :: "('h, 'v, 't, 'w) atomlib \<Rightarrow> 'h option \<Rightarrow> 't \<Rightarrow> ('h, 'w, unit) sprog" where
  "t_loadType L table t = locked MtxSock (t_ask_atoms L table (get_atoms_msg (getTypeName L t) []))"

section \<open>Fences and proxies\<close>

definition t_barrier :: "('h, 'w, unit) sprog" where
  "t_barrier =
     pbnd (act (\<lambda>c. case barrier_rnd (fst c) of (rnd, x) \<Rightarrow> (Inr rnd, (x, snd c)))) (\<lambda>rnd.
     locked MtxSock (say (barrier_msg ''1'' rnd)))"

definition t_proxy_open :: "('h, 'w, unit) sprog" where
  "t_proxy_open = pbnd (ask (''(cog-proxy-open)'' @ [NL])) (\<lambda>_. Return ())"

definition t_proxy_close :: "('h, 'w, unit) sprog" where
  "t_proxy_close = pseq t_barrier (pbnd (ask (''(cog-proxy-close)'' @ [NL])) (\<lambda>_. Return ()))"

fun t_run :: "('h, 'v, 't, 'w) atomlib \<Rightarrow> ('h, 'v, 't) simple_op \<Rightarrow> ('h, 'w, unit) sprog" where
  "t_run L (GetAtom h) = t_getAtom L h"
| "t_run L (FetchIncomingSet table h) = t_fetchIncomingSet L table h"
| "t_run L (FetchIncomingByType table h t) = t_fetchIncomingByType L table h t"
| "t_run L (StoreAtom h) = t_storeAtom L h"
| "t_run L (RemoveAtom h rec) = t_removeAtom L h rec"
| "t_run L (StoreValue h key) = t_storeValue L h key"
| "t_run L (UpdateValue h key delta) = t_updateValue L h key delta"
| "t_run L (LoadValue h key) = t_loadValue L h key"
| "t_run L (RunQuery query key meta fresh) = t_runQuery L query key meta fresh"
| "t_run L (LoadType table t) = t_loadType L table t"
| "t_run L (LoadAtomSpace table) = t_loadAtomSpace L table"
| "t_run L (StoreAtomSpace table) = t_storeAtomSpace L table"
| "t_run L LoadFrameDAG = pseq (t_loadFrameDAG L) (Return ())"
| "t_run L (StoreFrameDAG top_as) = t_storeFrameDAG L top_as"
| "t_run L KillData = t_kill_data"
| "t_run L (SetProxy h) = t_set_proxy L h"
| "t_run L ProxyOpen = t_proxy_open"
| "t_run L ProxyClose = t_proxy_close"
| "t_run L Fence = t_barrier"

section \<open>The programs are the methods\<close>

text \<open>A thread alone: its program on the sockets of the node.\<close>

definition simple_exec :: "'srv env \<Rightarrow> ('h, 'w, 'a) sprog \<Rightarrow> ('h, 'w, 'srv, 'a) sio" where
  "simple_exec E = exec (simple_do_send E) (simple_do_recv False) node_get node_put"

text \<open>Two methods agree when they give the same result and, unless the stack overflowed, leave the same
  state.\<close>

definition agree :: "('s, 'a) io \<Rightarrow> ('s, 'a) io \<Rightarrow> bool" where
  "agree m k \<longleftrightarrow> (\<forall>s. fst (m s) = fst (k s) \<and> (fst (m s) \<noteq> Inl StackOverflow \<longrightarrow> snd (m s) = snd (k s)))"

lemma agree_eq: "m = k \<Longrightarrow> agree m k"
  by (simp add: agree_def)

lemma agree_bnd:
  assumes "agree m k" and "\<And>x. agree (f x) (g x)"
  shows "agree (bnd m f) (bnd k g)"
  unfolding agree_def
proof (intro allI)
  fix s
  obtain a t b u where m: "m s = (a, t)" and k: "k s = (b, u)" by fastforce
  with assms(1) have "a = b" "a \<noteq> Inl StackOverflow \<Longrightarrow> t = u" unfolding agree_def by (metis fst_conv snd_conv)+
  with assms(2) m k show "fst (bnd m f s) = fst (bnd k g s) \<and>
      (fst (bnd m f s) \<noteq> Inl StackOverflow \<longrightarrow> snd (bnd m f s) = snd (bnd k g s))"
    by (cases a) (auto simp: bnd_def agree_def)
qed

lemma agree_seq: "agree m k \<Longrightarrow> agree n l \<Longrightarrow> agree (seq m n) (seq k l)"
  by (simp add: seq_def agree_bnd)

lemma agree_for_each: "(\<And>x. agree (f x) (g x)) \<Longrightarrow> agree (for_each f xs) (for_each g xs)"
  by (induction xs) (auto intro: agree_seq agree_eq)

lemma agree_if: "agree m k \<Longrightarrow> agree n l \<Longrightarrow> agree (if b then m else n) (if b then k else l)"
  by simp

lemma agree_option:
  "agree m k \<Longrightarrow> (\<And>y. agree (f y) (g y)) \<Longrightarrow>
     agree (case x of None \<Rightarrow> m | Some y \<Rightarrow> f y) (case x of None \<Rightarrow> k | Some y \<Rightarrow> g y)"
  by (cases x) auto

lemma node_put_get [simp]: "node_put (node_get s) s = s"
  by (simp add: node_put_def node_get_def put_shared_def shared_of_def)

lemma exec_rd: "simple_exec E (rd f) = gets (\<lambda>s. f (shared_of s))"
proof
  show "simple_exec E (rd f) s = gets (\<lambda>s. f (shared_of s)) s" for s
    by (simp add: simple_exec_def rd_def exec_act gets_def) (simp add: node_get_def)
qed

lemma exec_wr: "simple_exec E (wr f) = modify (\<lambda>s. put_shared (f (shared_of s)) s)"
  by (rule ext) (simp add: simple_exec_def wr_def exec_act modify_def node_put_def node_get_def put_shared_def)

lemma exec_on_space: "simple_exec E (on_space m) = on_as m"
  by (rule ext)
     (simp add: simple_exec_def on_space_def exec_act zoom_def node_put_def node_get_def put_shared_def shared_of_def split: prod.splits)

lemma exec_of_lib: "simple_exec E (of_lib r) = lift_lib r"
  by (rule ext) (simp add: simple_exec_def of_lib_def lift_lib_def ret_def throw_def split: sum.splits)

lemma exec_of_res: "simple_exec E (of_res r) = lift_res r"
  by (rule ext) (simp add: simple_exec_def of_res_def lift_res_def ret_def throw_def split: sum.splits)

lemma simple_exec_simps:
  "simple_exec E (Return x) = ret x" "simple_exec E (Raise e) = throw e"
  "simple_exec E (pbnd p k) = bnd (simple_exec E p) (\<lambda>x. simple_exec E (k x))"
  "simple_exec E (pseq p q) = seq (simple_exec E p) (simple_exec E q)"
  "simple_exec E (pfor f xs) = for_each (\<lambda>x. simple_exec E (f x)) xs"
  "simple_exec E (locked m p) = simple_exec E p" "simple_exec E (say msg) = simple_do_send E msg"
  "simple_exec E (ask msg) = seq (simple_do_send E msg) (simple_do_recv False)"
  by (simp_all add: simple_exec_def exec_simps)

lemma exec_if: "simple_exec E (if b then p else q) = (if b then simple_exec E p else simple_exec E q)"
  by simp

lemma exec_option:
  "simple_exec E (case x of None \<Rightarrow> p | Some y \<Rightarrow> f y) = (case x of None \<Rightarrow> simple_exec E p | Some y \<Rightarrow> simple_exec E (f y))"
  by (cases x) auto

lemma exec_pair: "simple_exec E (case x of (y, z) \<Rightarrow> f y z) = (case x of (y, z) \<Rightarrow> simple_exec E (f y z))"
  by (cases x) auto

lemma exec_set_multi: "simple_exec E (t_set_multi b) = set_multi b"
  by (rule ext) (simp add: t_set_multi_def exec_wr set_multi_def modify_def put_shared_def shared_of_def)

lemma shared_fields [simp]:
  "h_multi_space (shared_of s) = s_multi_space s" "h_frame_map (shared_of s) = s_frame_map s"
  "h_fid_map (shared_of s) = s_fid_map s" "h_atom_space (shared_of s) = s_atom_space s" "h_as (shared_of s) = s_as s"
  by (simp_all add: shared_of_def)

lemmas run_simps = simple_exec_simps exec_rd exec_on_space exec_of_lib exec_of_res exec_if exec_option exec_pair exec_set_multi

lemma seq_recv: "bnd (seq m n) f = seq m (bnd n f)"
  by (simp add: seq_def bnd_assoc)

lemma run_cacheFrame:
  "case cacheFrame n L h (s_frame_map s, s_fid_map s) of
     None \<Rightarrow> fst (simple_exec E (t_cacheFrame n L h) s) = Inl StackOverflow
   | Some (fm, fid) \<Rightarrow> simple_exec E (t_cacheFrame n L h) s = (Inr (), s\<lparr>s_frame_map := fm, s_fid_map := fid\<rparr>)"
proof (induction n arbitrary: h s)
  case 0
  show ?case by (simp add: run_simps throw_def)
next
  case (Suc n)
  have list: "case fold_opt (cacheFrame n L) hs (s_frame_map s, s_fid_map s) of
      None \<Rightarrow> fst (for_each (\<lambda>h. simple_exec E (t_cacheFrame n L h)) hs s) = Inl StackOverflow
    | Some (fm, fid) \<Rightarrow> for_each (\<lambda>h. simple_exec E (t_cacheFrame n L h)) hs s = (Inr (), s\<lparr>s_frame_map := fm, s_fid_map := fid\<rparr>)" for hs
  proof (induction hs arbitrary: s)
    case (Cons x xs)
    show ?case
    proof (cases "cacheFrame n L x (s_frame_map s, s_fid_map s)")
      case None
      with Suc.IH [of x s] show ?thesis by (cases "simple_exec E (t_cacheFrame n L x) s") (simp add: seq_def bnd_def)
    next
      case (Some m)
      obtain fm fid where m: "m = (fm, fid)" by (cases m)
      from Some m Suc.IH [of x s] Cons.IH [of "s\<lparr>s_frame_map := fm, s_fid_map := fid\<rparr>"] show ?thesis
        by (simp add: seq_def bnd_def split: option.splits prod.splits)
    qed
  qed (simp add: ret_def)
  show ?case
    using list [of "getOutgoingSet L h"]
    by (cases "for_each (\<lambda>h. simple_exec E (t_cacheFrame n L h)) (getOutgoingSet L h) s")
       (auto simp: run_simps exec_wr seq_def bnd_def modify_def put_shared_def split: option.splits prod.splits)
qed

lemma agree_cacheFrame: "agree (simple_exec E (t_cacheFrame (stack_depth L) L h)) (simple_cacheFrame L h)"
  unfolding agree_def
proof (intro allI)
  fix s
  show "fst (simple_exec E (t_cacheFrame (stack_depth L) L h) s) = fst (simple_cacheFrame L h s) \<and>
      (fst (simple_exec E (t_cacheFrame (stack_depth L) L h) s) \<noteq> Inl StackOverflow \<longrightarrow>
       snd (simple_exec E (t_cacheFrame (stack_depth L) L h) s) = snd (simple_cacheFrame L h s))"
    using run_cacheFrame [where n = "stack_depth L" and L = L and h = h and s = s and E = E] by (auto simp: simple_cacheFrame_def split: option.splits)
qed

lemma agree_writeFrame: "agree (simple_exec E (t_writeFrame L hasp)) (simple_writeFrame L E hasp)"
proof (cases hasp)
  case None
  then show ?thesis
    unfolding t_writeFrame_def simple_writeFrame_def run_simps shared_fields
    by (intro agree_eq) (simp add: fun_eq_iff bnd_def gets_def)
next
  case (Some h)
  show ?thesis
    unfolding Some t_writeFrame_def simple_writeFrame_def run_simps shared_fields option.case Option.bind.simps
    by (intro agree_bnd agree_option agree_seq agree_cacheFrame) (rule agree_eq, simp)+
qed

lemma cond_do_if: "(if b then m else ret ()) = cond_do b m"
  by (simp add: cond_do_def)

lemma agree_write_space: "agree (simple_exec E (t_write_space L h)) (simple_write_space L E h)"
  unfolding t_write_space_def simple_write_space_def run_simps shared_fields
  by (intro agree_bnd agree_if agree_seq agree_writeFrame agree_eq refl)

lemma agree_store:
  "agree (simple_exec E (t_storeAtom L h)) (simple_storeAtom L E h)"
  "agree (simple_exec E (t_storeValue L h key)) (simple_storeValue L E h key)"
  "agree (simple_exec E (t_updateValue L h key delta)) (simple_updateValue L E h key delta)"
  unfolding t_storeAtom_def simple_storeAtom_def t_storeValue_def simple_storeValue_def
    t_updateValue_def simple_updateValue_def run_simps shared_fields cond_do_if
  by (intro agree_bnd agree_seq agree_write_space agree_eq refl)+

lemma run_locked_ask: "simple_exec E (locked_ask msg) = seq (simple_do_send E msg) (bnd (simple_do_recv False) (\<lambda>_. ret ()))"
  by (simp add: locked_ask_def run_simps seq_recv)

lemma agree_frames:
  "agree (simple_exec E (t_storeFrameDAG L top_as)) (simple_storeFrameDAG L E top_as)"
  "agree (simple_exec E (t_storeAtomSpace L table)) (simple_storeAtomSpace L E table)"
  "agree (simple_exec E (t_set_proxy L h)) (simple_set_proxy L E h)"
  unfolding t_storeFrameDAG_def simple_storeFrameDAG_def t_storeAtomSpace_def simple_storeAtomSpace_def
    t_set_proxy_def simple_set_proxy_def run_simps run_locked_ask shared_fields
  by (intro agree_bnd agree_seq agree_for_each agree_writeFrame agree_store agree_eq refl)+

lemma run_atoms_loop: "simple_exec E (t_atoms_loop fuel L table expr e l) = simple_atoms_loop fuel L E table expr e l"
proof (induction fuel arbitrary: l)
  case (Suc fuel)
  have w: "simple_exec E (wr (\<lambda>g. g\<lparr>h_fid_map := fid\<rparr>)) = modify (s_fid_map_update (\<lambda>_. fid))" for fid
    by (rule ext) (simp add: exec_wr modify_def put_shared_def)
  show ?case unfolding t_atoms_loop.simps simple_atoms_loop.simps run_simps w Suc.IH seq_recv shared_fields ..
qed (simp add: run_simps)

lemma run_ask_atoms:
  "simple_exec E (t_ask_atoms L table msg) = seq (simple_do_send E msg) (simple_decode_atom_list L E table)"
  unfolding t_ask_atoms_def simple_decode_atom_list_def Let_def run_simps run_atoms_loop seq_recv ..

lemma run_fetch:
  "simple_exec E (t_fetchIncomingSet L table h) = simple_fetchIncomingSet L E table h"
  "simple_exec E (t_fetchIncomingByType L table h t) = simple_fetchIncomingByType L E table h t"
  "simple_exec E (t_loadAtomSpace L table) = simple_loadAtomSpace L E table"
  "simple_exec E (t_loadType L table t) = simple_loadType L E table t"
  "simple_exec E (t_loadValue L h key) = simple_loadValue L E h key"
  "simple_exec E (t_runQuery L query key meta fresh) = simple_runQuery L E query key meta fresh"
  "simple_exec E (t_getAtom L h) = simple_getAtom L E h"
  "simple_exec E (t_removeAtom L h recursive) = simple_removeAtom L E h recursive"
  unfolding t_fetchIncomingSet_def simple_fetchIncomingSet_def t_fetchIncomingByType_def simple_fetchIncomingByType_def
      t_loadAtomSpace_def simple_loadAtomSpace_def t_loadType_def simple_loadType_def t_loadValue_def simple_loadValue_def
      t_runQuery_def simple_runQuery_def t_getAtom_def simple_getAtom_def t_removeAtom_def simple_removeAtom_def
      run_simps run_ask_atoms run_locked_ask seq_recv shared_fields
  by (simp_all add: seq_def bnd_assoc)

lemma run_writes:
  "simple_exec E (wr (\<lambda>h. h\<lparr>h_frame_map := [], h_fid_map := []\<rparr>)) = modify (\<lambda>s. s\<lparr>s_frame_map := [], s_fid_map := []\<rparr>)"
  "simple_exec E (wr (\<lambda>h. h\<lparr>h_fid_map := fid, h_frame_map := F (h_frame_map h)\<rparr>)) =
     modify (\<lambda>s. s\<lparr>s_fid_map := fid, s_frame_map := F (s_frame_map s)\<rparr>)"
  by (simp_all add: fun_eq_iff exec_wr modify_def put_shared_def)

lemma run_kill_data: "simple_exec E t_kill_data = simple_kill_data E"
  unfolding t_kill_data_def simple_kill_data_def run_simps run_writes by (simp add: seq_def bnd_assoc)

lemma run_loadFrameDAG: "simple_exec E (t_loadFrameDAG L) = simple_loadFrameDAG L E"
  unfolding t_loadFrameDAG_def simple_loadFrameDAG_def run_simps run_writes seq_recv shared_fields ..

lemma run_barrier: "simple_exec E t_barrier = simple_barrier E"
proof
  show "simple_exec E t_barrier s = simple_barrier E s" for s
  proof -
    obtain rnd x where "barrier_rnd (s_rng s) = (rnd, x)" by fastforce
    moreover from this have "simple_exec E (act (\<lambda>c. case barrier_rnd (fst c) of (rnd, x) \<Rightarrow> (Inr rnd, (x, snd c)))) s =
        (Inr rnd, s\<lparr>s_rng := x\<rparr>)"
      by (simp add: simple_exec_def exec_act) (simp add: node_get_def node_put_def put_shared_def shared_of_def)
    ultimately show ?thesis
      by (simp add: t_barrier_def simple_barrier_def run_simps) (simp add: bnd_def seq_def gets_def modify_def)
  qed
qed

lemma run_proxy:
  "simple_exec E t_proxy_open = simple_proxy_open E" "simple_exec E t_proxy_close = simple_proxy_close E"
  by (simp_all add: t_proxy_open_def simple_proxy_open_def t_proxy_close_def simple_proxy_close_def run_simps run_barrier seq_recv)

lemma t_run_agrees: "agree (simple_exec E (t_run L op)) (simple_run L E op)"
  by (cases op)
     (simp_all add: agree_store agree_frames run_fetch run_kill_data run_loadFrameDAG run_barrier run_proxy run_simps
        ignore_def agree_eq)

section \<open>The programs keep to the discipline\<close>

lemma disc_rd: "ph \<noteq> Await \<Longrightarrow> disc K (rd f) ph ph"
  unfolding rd_def by (intro disc_act keeps_gets)

lemma disc_rd_bnd: "ph \<noteq> Await \<Longrightarrow> (\<And>g. disc K (k (f g)) ph q) \<Longrightarrow> disc K (pbnd (rd f) k) ph q"
  by (simp add: rd_def act_def gets_def)

lemma disc_wr: "ph \<noteq> Await \<Longrightarrow> disc K (wr f) ph ph"
  unfolding wr_def by (intro disc_act keeps_modify)

lemma disc_on_space: "ph \<noteq> Await \<Longrightarrow> keeps (\<lambda>_. True) K m \<Longrightarrow> disc K (on_space m) ph ph"
  unfolding on_space_def
  by (intro disc_act) (auto simp: keeps_def wp_def split: prod.splits sum.splits)

lemma disc_of_lib: "ph \<noteq> Await \<Longrightarrow> (\<And>e. K (LibraryThrow e)) \<Longrightarrow> disc K (of_lib r) ph ph"
  by (simp add: of_lib_def split: sum.splits)

lemma disc_substr: "ph \<noteq> Await \<Longrightarrow> K OutOfRange \<Longrightarrow> disc K (of_res (substr s l n)) ph ph"
  by (simp add: of_res_def substr_def)

lemma disc_Return: "disc K (Return x) ph ph"
  by simp

lemma disc_Raise: "ph \<noteq> Await \<Longrightarrow> K e \<Longrightarrow> disc K (Raise e) ph q"
  by simp

lemma disc_set_multi: "ph \<noteq> Await \<Longrightarrow> disc K (t_set_multi b) ph ph"
  unfolding t_set_multi_def by (rule disc_wr)

lemmas disc_rules = disc_rd_bnd disc_keeps disc_pfor disc_locked disc_say disc_ask disc_rd disc_wr disc_on_space
  disc_of_lib disc_substr disc_Return disc_Raise disc_set_multi disc_if disc_option disc_pair

lemma disc_cacheFrame: "disc benign (t_cacheFrame n L h) Out Out"
proof (induction n arbitrary: h)
  case (Suc n)
  show ?case unfolding t_cacheFrame.simps by (intro disc_rules Suc.IH) auto
qed auto

lemma disc_writeFrame: "disc benign (t_writeFrame L hasp) Out Out"
  unfolding t_writeFrame_def by (intro disc_rules disc_cacheFrame store_no_reply) auto

lemma disc_stores:
  "disc benign (t_storeAtom L h) Out Out" "disc benign (t_storeValue L h key) Out Out"
  "disc benign (t_updateValue L h key delta) Out Out"
  unfolding t_storeAtom_def t_storeValue_def t_updateValue_def t_write_space_def
  by (intro disc_rules disc_writeFrame store_no_reply; simp)+


lemma disc_locked_ask: "wants_reply msg \<Longrightarrow> disc K (locked_ask msg) Out Out"
  unfolding locked_ask_def by (intro disc_rules)

lemma disc_atoms_loop: "disc benign (t_atoms_loop fuel L table expr e l) In In"
proof (induction fuel arbitrary: l)
  case (Suc fuel)
  have w: "wants_reply (''(cog-keys->alist '' @ sub @ '')'' @ [NL])" for sub
    by (simp add: wants_reply_iff)
  show ?case
    unfolding t_atoms_loop.simps
    by (intro disc_rules w keeps_lib_call keeps_ro_decode_alist Suc.IH) auto
qed simp

lemma disc_ask_atoms: "wants_reply msg \<Longrightarrow> disc benign (t_ask_atoms L table msg) In In"
  unfolding t_ask_atoms_def Let_def by (intro disc_rules disc_atoms_loop)

lemma disc_fetches:
  "disc benign (t_getAtom L h) Out Out" "disc benign (t_fetchIncomingSet L table h) Out Out"
  "disc benign (t_fetchIncomingByType L table h t) Out Out" "disc benign (t_loadType L table t) Out Out"
  "disc benign (t_loadAtomSpace L table) Out Out" "disc benign (t_loadValue L h key) Out Out"
  "disc benign (t_runQuery L query key meta fresh) Out Out"
  unfolding t_getAtom_def t_fetchIncomingSet_def t_fetchIncomingByType_def t_loadType_def t_loadAtomSpace_def
    t_loadValue_def t_runQuery_def
  by (intro disc_rules disc_ask_atoms fetch_reply keeps_ro_decode_alist keeps_take_value; simp add: wants_reply_iff)+

lemma disc_others:
  "disc benign (t_storeFrameDAG L top_as) Out Out" "disc benign (t_storeAtomSpace L table) Out Out"
  "disc benign (t_set_proxy L h) Out Out" "disc benign (t_removeAtom L h recursive) Out Out"
  "disc benign t_kill_data Out Out" "disc benign (t_loadFrameDAG L) Out Out" "disc benign t_barrier Out Out"
proof -
  have r: "keeps (\<lambda>_. True) benign (\<lambda>c. case barrier_rnd (fst c) of (rnd, x) \<Rightarrow> (Inr rnd, x, snd c))"
    by (simp add: keeps_def wp_def split: prod.splits)
  show "disc benign t_barrier Out Out"
    unfolding t_barrier_def by (intro disc_rules disc_act r barrier_no_reply) simp
  show "disc benign t_kill_data Out Out"
    unfolding t_kill_data_def by (intro disc_rules) (simp_all add: wants_reply_iff)
qed (unfold t_storeFrameDAG_def t_storeAtomSpace_def t_set_proxy_def t_removeAtom_def t_loadFrameDAG_def,
     (intro disc_rules disc_writeFrame disc_stores disc_locked_ask fetch_reply; simp add: wants_reply_iff)+)

text \<open>The calls that use the socket without the lock.\<close>

fun unlocked :: "('h, 'v, 't) simple_op \<Rightarrow> bool" where
  "unlocked ProxyOpen = True" | "unlocked ProxyClose = True" | "unlocked _ = False"

lemma t_run_disc: "\<not> unlocked op \<Longrightarrow> disc benign (t_run L op) Out Out"
  by (cases op) (simp_all add: disc_fetches disc_stores disc_others disc_keeps(2))

lemma proxy_paired: "paired t_barrier False" "paired t_proxy_open False" "paired t_proxy_close False"
proof -
  have ask: "paired (pbnd (ask msg) (\<lambda>_. Return ())) False" if "wants_reply msg" for msg
    using that by (simp add: ask_def)
  show bar: "paired t_barrier False"
    using disc_paired [OF disc_others(7)] by simp
  show "paired t_proxy_open False"
    unfolding t_proxy_open_def by (rule ask) (simp add: wants_reply_iff)
  show "paired t_proxy_close False"
    unfolding t_proxy_close_def pseq_def using disc_paired [OF disc_others(7)]
    by (intro paired_pbnd ask) (simp_all add: wants_reply_iff)
qed

lemma t_run_paired: "paired (t_run L op) False"
  using disc_paired [OF t_run_disc, of op L] proxy_paired(2,3) by (cases op) simp_all


end
