(* ===== verification/Threads.thy ===== *)
theory Threads
  imports SimpleSteps
begin

text \<open>
  Threads that share one \<open>CogSimpleStorage\<close>. A configuration holds the node, and for every thread the
  rest of its program, the mutexes it holds and its random generator (\<open>rng\<close> is \<open>static
  thread_local\<close>). A step of one thread is one step of its program: a mutex is taken when no thread
  holds it (\<open>std::mutex\<close> is not recursive), a receive that would block makes no step, and a thread that
  raises an exception releases the mutexes it holds as the \<open>lock_guard\<close>s are unwound.

  The design note in \<open>CogSimpleIO.cc\<close> says that the calls grab a lock to protect the send-recv pair, so
  that threads sharing a socket do not get confused about whose data is whose. That is proved here for
  all calls that do; \<open>proxy_open\<close> and \<open>proxy_close\<close> do not, and are shown to break it.
\<close>

record ('h, 'w, 'srv) conf =
  k_node :: "('h, 'w, 'srv) simple"
  k_rng :: "nat \<Rightarrow> nat"
  k_prog :: "nat \<Rightarrow> ('h, 'w, unit) sprog"
  k_held :: "nat \<Rightarrow> mtx set"

datatype sock_ev = TSend string | TRecv string

definition goes_on :: "nat \<Rightarrow> ('h, 'w, unit) sprog \<Rightarrow> ('h, 'w, 'srv) simple \<Rightarrow> ('h, 'w, 'srv) conf \<Rightarrow> ('h, 'w, 'srv) conf" where
  "goes_on t p s c = c\<lparr>k_node := s, k_prog := (k_prog c)(t := p)\<rparr>"

definition set_held :: "nat \<Rightarrow> mtx set \<Rightarrow> ('h, 'w, 'srv) conf \<Rightarrow> ('h, 'w, 'srv) conf" where
  "set_held t ms c = c\<lparr>k_held := (k_held c)(t := ms)\<rparr>"

inductive tstep :: "'srv env \<Rightarrow> ('h, 'w, 'srv) conf \<Rightarrow> (nat \<times> sock_ev) list \<Rightarrow> ('h, 'w, 'srv) conf \<Rightarrow> bool" for E where
  lock: "k_prog c t = Lock m p \<Longrightarrow> \<forall>u. m \<notin> k_held c u \<Longrightarrow>
    tstep E c [] (set_held t (insert m (k_held c t)) (goes_on t p (k_node c) c))"
| unlock: "k_prog c t = Unlock m p \<Longrightarrow> tstep E c [] (set_held t (k_held c t - {m}) (goes_on t p (k_node c) c))"
| send: "k_prog c t = Send msg p \<Longrightarrow> simple_do_send E msg (k_node c) = (Inr (), s) \<Longrightarrow>
    tstep E c [(t, TSend msg)] (goes_on t p s c)"
| send_fails: "k_prog c t = Send msg p \<Longrightarrow> simple_do_send E msg (k_node c) = (Inl e, s) \<Longrightarrow>
    tstep E c [] (goes_on t (Raise e) s c)"
| recv: "k_prog c t = Recv f \<Longrightarrow> simple_do_recv False (k_node c) = (Inr r, s) \<Longrightarrow>
    tstep E c [(t, TRecv r)] (goes_on t (f r) s c)"
| recv_fails: "k_prog c t = Recv f \<Longrightarrow> simple_do_recv False (k_node c) = (Inl e, s) \<Longrightarrow> e \<noteq> Blocked \<Longrightarrow>
    tstep E c [] (goes_on t (Raise e) s c)"
| local: "k_prog c t = Local f \<Longrightarrow> f (k_rng c t, shared_of (k_node c)) = (p, x, h) \<Longrightarrow>
    tstep E c [] ((goes_on t p (put_shared h (k_node c)) c)\<lparr>k_rng := (k_rng c)(t := x)\<rparr>)"
| unwind: "k_prog c t = Raise e \<Longrightarrow> k_held c t \<noteq> {} \<Longrightarrow> tstep E c [] (set_held t {} c)"

inductive tsteps :: "'srv env \<Rightarrow> ('h, 'w, 'srv) conf \<Rightarrow> (nat \<times> sock_ev) list \<Rightarrow> ('h, 'w, 'srv) conf \<Rightarrow> bool" for E c0 where
  start: "tsteps E c0 [] c0"
| step: "tsteps E c0 tr c \<Longrightarrow> tstep E c l c' \<Longrightarrow> tsteps E c0 (tr @ l) c'"

text \<open>The threads start calls of the interface on an open node; \<open>None\<close> is a thread that makes no call.\<close>

definition start_conf ::
  "('h, 'v, 't, 'w) atomlib \<Rightarrow> ('h, 'w, 'srv) simple \<Rightarrow> (nat \<Rightarrow> nat) \<Rightarrow> (nat \<Rightarrow> ('h, 'v, 't) simple_op list) \<Rightarrow>
   ('h, 'w, 'srv) conf" where
  "start_conf L s rngs ops =
     \<lparr>k_node = s, k_rng = rngs, k_prog = (\<lambda>t. pfor (t_run L) (ops t)), k_held = (\<lambda>t. {})\<rparr>"

fun finished :: "('h, 'w, 'srv) conf \<Rightarrow> nat \<Rightarrow> bool" where
  "finished c t \<longleftrightarrow> (case k_prog c t of Return x \<Rightarrow> True | Raise e \<Rightarrow> k_held c t = {} | _ \<Rightarrow> False)"

section \<open>The invariant\<close>

text \<open>A request was sent on the socket and its reply, in pieces, is what waits there.\<close>

definition awaiting :: "'srv env \<Rightarrow> string \<Rightarrow> ('h, 'w, 'srv) simple \<Rightarrow> bool" where
  "awaiting E msg s \<longleftrightarrow> 0 < s_sockfd s \<and> s_sockfd s \<in> set (open_fds (s_net s)) \<and> wants_reply msg \<and>
     (\<exists>pre rs m x. rx (s_net s) (s_sockfd s) = pre @ rs \<and> idle_only pre \<and> is_reply rs m \<and>
        rs = snd (on_data E (s_sockfd s) msg x))"

definition stream_ok :: "'srv env \<Rightarrow> (nat \<Rightarrow> phase) \<Rightarrow> (nat \<times> sock_ev) list \<Rightarrow> ('h, 'w, 'srv) simple \<Rightarrow> bool" where
  "stream_ok E ph tr s \<longleftrightarrow>
     (\<exists>t msg zs. ph t = Await \<and> tr = zs @ [(t, TSend msg)] \<and> awaiting E msg s) \<or>
     ((\<forall>t. ph t \<noteq> Await) \<and> in_sync s)"

definition own_replies :: "'srv env \<Rightarrow> int \<Rightarrow> (nat \<times> sock_ev) list \<Rightarrow> bool" where
  "own_replies E fd tr \<longleftrightarrow>
     (\<forall>xs t r ys. tr = xs @ (t, TRecv r) # ys \<longrightarrow>
        (\<exists>zs msg x. xs = zs @ [(t, TSend msg)] \<and> wants_reply msg \<and> is_reply (snd (on_data E fd msg x)) r))"

definition tinv :: "'srv env \<Rightarrow> int \<Rightarrow> (nat \<Rightarrow> phase) \<Rightarrow> (nat \<times> sock_ev) list \<Rightarrow> ('h, 'w, 'srv) conf \<Rightarrow> bool" where
  "tinv E fd ph tr c \<longleftrightarrow>
     (\<forall>t. disc benign (k_prog c t) (ph t) Out) \<and> (\<forall>t. k_held c t = holds (ph t)) \<and>
     (\<forall>t u m. m \<in> holds (ph t) \<longrightarrow> m \<in> holds (ph u) \<longrightarrow> t = u) \<and>
     stream_ok E ph tr (k_node c) \<and> own_replies E fd tr \<and> s_sockfd (k_node c) = fd"

text \<open>Steps that leave the socket alone.\<close>

lemma stream_ok_upd:
  assumes "stream_ok E ph tr s" and "ph t \<noteq> Await" and "q \<noteq> Await"
    and "s_sockfd s' = s_sockfd s" and "s_net s' = s_net s"
  shows "stream_ok E (ph(t := q)) tr s'"
proof -
  have "awaiting E msg s' = awaiting E msg s" "in_sync s' = in_sync s" for msg
    using assms(4,5) by (simp_all add: awaiting_def in_sync_def)
  with assms(1-3) show ?thesis unfolding stream_ok_def by (metis fun_upd_other fun_upd_same)
qed

lemma in_sync_of:
  assumes "stream_ok E ph tr s" and "MtxSock \<in> holds (ph t)" and "ph t \<noteq> Await"
    and "\<forall>t u m. m \<in> holds (ph t) \<longrightarrow> m \<in> holds (ph u) \<longrightarrow> t = u"
  shows "in_sync s" and "ph u \<noteq> Await"
proof -
  show "ph u \<noteq> Await" for u using assms(2-4) by (metis holds.simps(5) singletonI)
  with assms(1) show "in_sync s" unfolding stream_ok_def by blast
qed

lemma awaiting_of:
  assumes "stream_ok E ph tr s" and "ph t = Await"
    and "\<forall>t u m. m \<in> holds (ph t) \<longrightarrow> m \<in> holds (ph u) \<longrightarrow> t = u"
  shows "\<exists>msg zs. tr = zs @ [(t, TSend msg)] \<and> awaiting E msg s" and "ph u = Await \<Longrightarrow> u = t"
proof -
  show one: "ph u = Await \<Longrightarrow> u = t" for u using assms(2,3) by (metis holds.simps(5) singletonI)
  from assms(1,2) show "\<exists>msg zs. tr = zs @ [(t, TSend msg)] \<and> awaiting E msg s"
    unfolding stream_ok_def using one by blast
qed

lemma thread_send:
  assumes "protocol E" and "in_sync s"
  shows "wants_reply msg \<Longrightarrow> \<exists>s'. simple_do_send E msg s = (Inr (), s') \<and> awaiting E msg s' \<and> s_sockfd s' = s_sockfd s"
    and "noreply msg \<Longrightarrow> \<exists>s'. simple_do_send E msg s = (Inr (), s') \<and> in_sync s' \<and> s_sockfd s' = s_sockfd s"
proof -
  obtain x evs where d: "on_data E (s_sockfd s) msg (srv (s_net s)) = (x, evs)" by fastforce
  note p = protocolD [OF assms(1) d]
  have run: "simple_do_send E msg s = (Inr (), s\<lparr>s_net := sent (s_sockfd s) msg x evs (s_net s)\<rparr>)"
    by (rule do_send_run [OF assms(2) p(1) d])
  { assume w: "wants_reply msg"
    from p(2) [OF w] obtain m where "is_reply evs m" ..
    moreover have "evs = snd (on_data E (s_sockfd s) msg (srv (s_net s)))" using d by simp
    ultimately have "awaiting E msg (s\<lparr>s_net := sent (s_sockfd s) msg x evs (s_net s)\<rparr>)"
      using assms(2) w unfolding awaiting_def by (simp add: in_sync_def sent_def) blast
    with run show "\<exists>s'. simple_do_send E msg s = (Inr (), s') \<and> awaiting E msg s' \<and> s_sockfd s' = s_sockfd s" by simp }
  { assume "noreply msg"
    with p(3) run assms(2) show "\<exists>s'. simple_do_send E msg s = (Inr (), s') \<and> in_sync s' \<and> s_sockfd s' = s_sockfd s"
      by (auto simp: in_sync_def sent_def) }
qed

lemma thread_recv:
  assumes "awaiting E msg s"
  shows "\<exists>s' m x. simple_do_recv False s = (Inr m, s') \<and> in_sync s' \<and> s_sockfd s' = s_sockfd s \<and>
    is_reply (snd (on_data E (s_sockfd s) msg x)) m"
proof -
  from assms obtain pre m x where "0 < s_sockfd s" "s_sockfd s \<in> set (open_fds (s_net s))"
    "rx (s_net s) (s_sockfd s) = pre @ snd (on_data E (s_sockfd s) msg x)" "idle_only pre"
    and m: "is_reply (snd (on_data E (s_sockfd s) msg x)) m" unfolding awaiting_def by blast
  from do_recv_reply [OF this] this(1,2) m show ?thesis by (auto simp: in_sync_def set_rx_def)
qed

lemma own_replies_snoc:
  assumes "own_replies E fd tr"
    and "\<And>t r. e = (t, TRecv r) \<Longrightarrow>
      \<exists>zs msg x. tr = zs @ [(t, TSend msg)] \<and> wants_reply msg \<and> is_reply (snd (on_data E fd msg x)) r"
  shows "own_replies E fd (tr @ [e])"
  unfolding own_replies_def
proof (intro allI impI)
  fix xs u r ys assume e: "tr @ [e] = xs @ (u, TRecv r) # ys"
  show "\<exists>zs msg x. xs = zs @ [(u, TSend msg)] \<and> wants_reply msg \<and> is_reply (snd (on_data E fd msg x)) r"
  proof (cases ys rule: rev_cases)
    case Nil
    with e assms(2) show ?thesis by auto
  next
    case (snoc ys' y)
    with e have "tr = xs @ (u, TRecv r) # ys'" by auto
    with assms(1) show ?thesis unfolding own_replies_def by blast
  qed
qed

section \<open>Every step keeps it\<close>

lemma holds_upd:
  assumes "\<forall>t u m. m \<in> holds (ph t) \<longrightarrow> m \<in> holds (ph u) \<longrightarrow> t = u" and "holds q \<subseteq> holds (ph t) \<union> M" and "\<forall>u. M \<inter> holds (ph u) = {}"
  shows "\<forall>a b m. m \<in> holds ((ph(t := q)) a) \<longrightarrow> m \<in> holds ((ph(t := q)) b) \<longrightarrow> a = b"
  using assms by (auto simp del: holds.simps; blast)

lemma conf_fields [simp]:
  "k_node (goes_on t p s c) = s" "k_prog (goes_on t p s c) = (k_prog c)(t := p)" "k_held (goes_on t p s c) = k_held c"
  "k_node (set_held t ms c) = k_node c" "k_prog (set_held t ms c) = k_prog c" "k_held (set_held t ms c) = (k_held c)(t := ms)"
  "k_rng (goes_on t p s c) = k_rng c" "k_rng (set_held t ms c) = k_rng c"
  by (simp_all add: goes_on_def set_held_def)

lemma tinv_step:
  assumes "protocol E" and "tinv E fd ph tr c" and "tstep E c l c'"
  shows "\<exists>ph'. tinv E fd ph' (tr @ l) c'"
proof -
  from assms(2) have d: "\<And>t. disc benign (k_prog c t) (ph t) Out" and h: "\<And>t. k_held c t = holds (ph t)"
    and ex: "\<forall>t u m. m \<in> holds (ph t) \<longrightarrow> m \<in> holds (ph u) \<longrightarrow> t = u"
    and st: "stream_ok E ph tr (k_node c)" and own: "own_replies E fd tr" and fd: "s_sockfd (k_node c) = fd"
    unfolding tinv_def by auto
  have upd: "\<exists>ph'. tinv E fd ph' (tr @ l) c'"
    if "disc benign (k_prog c' t) q Out" "\<And>u. u \<noteq> t \<Longrightarrow> k_prog c' u = k_prog c u"
      "k_held c' = (k_held c)(t := holds q)" "holds q \<subseteq> holds (ph t) \<union> M" "\<forall>u. M \<inter> holds (ph u) = {}"
      "stream_ok E (ph(t := q)) (tr @ l) (k_node c')" "own_replies E fd (tr @ l)" "s_sockfd (k_node c') = s_sockfd (k_node c)" for t q M
  proof -
    have "\<forall>u. disc benign (k_prog c' u) ((ph(t := q)) u) Out" "\<forall>u. k_held c' u = holds ((ph(t := q)) u)"
      using d h that(1-3) by simp_all
    then show ?thesis
      unfolding tinv_def using holds_upd [OF ex that(4,5)] that(6-8) fd by metis
  qed
  have moves: "\<exists>ph'. tinv E fd ph' (tr @ l) c'"
    if "l = []" "ph t \<noteq> Await" "q \<noteq> Await" "disc benign (k_prog c' t) q Out" "\<And>u. u \<noteq> t \<Longrightarrow> k_prog c' u = k_prog c u"
      "k_held c' = (k_held c)(t := holds q)" "holds q \<subseteq> holds (ph t) \<union> M" "\<forall>u. M \<inter> holds (ph u) = {}"
      "s_sockfd (k_node c') = s_sockfd (k_node c)" "s_net (k_node c') = s_net (k_node c)" for t q M
    using upd [OF that(4-8)] stream_ok_upd [OF st that(2,3,9,10)] own that(1,9) by simp
  have talks: "\<exists>ph'. tinv E fd ph' (tr @ l) c'"
    if "c' = goes_on t p s c" "disc benign p q Out" "holds q = holds (ph t)"
      "stream_ok E (ph(t := q)) (tr @ l) s" "own_replies E fd (tr @ l)" "s_sockfd s = s_sockfd (k_node c)" for t p q s
  proof (rule upd [of t q "{}"])
    show "k_held c' = (k_held c)(t := holds q)" using that(1,3) h [of t] fun_upd_triv [of "k_held c" t] by simp
  qed (use that in auto)
  from assms(3) show ?thesis
  proof cases
    case (lock t m p)
    from d [of t] lock obtain q where q: "enter m (ph t) = Some q" "disc benign p q Out" by (auto split: option.splits)
    from enter_leave [OF q(1)] lock h show ?thesis
      using moves [of t q "{m}"] q(2) by auto
  next
    case (unlock t m p)
    from d [of t] unlock obtain q where q: "leave m (ph t) = Some q" "disc benign p q Out" by (auto split: option.splits)
    from leave_enter [OF q(1)] unlock h show ?thesis
      using moves [of t q "{}"] q(2) by auto
  next
    case (send t msg p s)
    from d [of t] send have ph: "ph t = In" by simp
    have i: "in_sync (k_node c)" "\<And>u. ph u \<noteq> Await" using in_sync_of [OF st _ _ ex, of t] ph by auto
    have own': "own_replies E fd (tr @ [(t, TSend msg)])" by (rule own_replies_snoc [OF own]) simp
    show ?thesis
    proof (cases "wants_reply msg")
      case True
      with thread_send(1) [OF assms(1) i(1) True] send have s: "awaiting E msg s" "s_sockfd s = s_sockfd (k_node c)" by auto
      then have "stream_ok E (ph(t := Await)) (tr @ [(t, TSend msg)]) s" unfolding stream_ok_def by auto
      with talks [OF send(2), of Await] True s(2) own' send(1,3) d [of t] ph show ?thesis by simp
    next
      case False
      with d [of t] send ph have n: "noreply msg" "disc benign p In Out" by auto
      with thread_send(2) [OF assms(1) i(1) n(1)] send have s: "in_sync s" "s_sockfd s = s_sockfd (k_node c)" by auto
      with i(2) have "stream_ok E (ph(t := In)) (tr @ [(t, TSend msg)]) s" unfolding stream_ok_def by auto
      with talks [OF send(2) n(2)] s(2) own' send(1) ph show ?thesis by simp
    qed
  next
    case (send_fails t msg p e s)
    from d [of t] send_fails have ph: "ph t = In" "wants_reply msg \<or> noreply msg" by (auto split: if_splits)
    have "in_sync (k_node c)" using in_sync_of [OF st _ _ ex, of t] ph by auto
    from thread_send [OF assms(1) this, of msg] send_fails ph(2) show ?thesis by auto
  next
    case (recv t f r s)
    from d [of t] recv have ph: "ph t = Await" "disc benign (f r) In Out" by auto
    from awaiting_of(1) [OF st ph(1) ex] obtain msg zs where tr: "tr = zs @ [(t, TSend msg)]" "awaiting E msg (k_node c)" by blast
    have one: "\<And>u. ph u = Await \<Longrightarrow> u = t" by (rule awaiting_of(2) [OF st ph(1) ex])
    from thread_recv [OF tr(2)] recv obtain x where
      s: "in_sync s" "s_sockfd s = s_sockfd (k_node c)" "is_reply (snd (on_data E (s_sockfd (k_node c)) msg x)) r" by auto
    moreover have "wants_reply msg" using tr(2) by (simp add: awaiting_def)
    ultimately have "own_replies E fd (tr @ [(t, TRecv r)])" using fd tr(1) by (intro own_replies_snoc own) auto
    moreover have "stream_ok E (ph(t := In)) (tr @ [(t, TRecv r)]) s" unfolding stream_ok_def using s(1) one by auto
    ultimately show ?thesis using talks [OF recv(2) ph(2)] s(2) recv(1) ph by simp
  next
    case (recv_fails t f e s)
    from d [of t] recv_fails have ph: "ph t = Await" by auto
    from awaiting_of(1) [OF st ph(1) ex] obtain msg where "awaiting E msg (k_node c)" by blast
    from thread_recv [OF this] recv_fails show ?thesis by simp
  next
    case (local t f p x h)
    from d [of t] local have "ph t \<noteq> Await" "disc benign p (ph t) Out" by (auto) (metis fst_conv)
    with local h show ?thesis
      using moves [of t "ph t" "{}"] fun_upd_triv [of "k_held c" t] by (auto simp: put_shared_def)
  next
    case (unwind t e)
    from d [of t] unwind have "ph t \<noteq> Await" "benign e" by auto
    with unwind h show ?thesis using moves [of t Out "{}"] by auto
  qed
qed

lemma tinv_steps: "protocol E \<Longrightarrow> tinv E fd ph [] c0 \<Longrightarrow> tsteps E c0 tr c \<Longrightarrow> \<exists>ph. tinv E fd ph tr c"
proof (rotate_tac 2, induction rule: tsteps.induct)
  case (step tr c l c')
  then show ?case using tinv_step by blast
qed blast

lemma tinv_start:
  assumes "in_sync s" and "\<forall>t. list_all (\<lambda>op. \<not> unlocked op) (ops t)"
  shows "tinv E (s_sockfd s) (\<lambda>t. Out) [] (start_conf L s rngs ops)"
proof -
  have "disc benign (pfor (t_run L) xs) Out Out" if "list_all (\<lambda>op. \<not> unlocked op) xs" for xs
    using that by (induction xs) (auto intro: disc_pseq t_run_disc)
  with assms show ?thesis by (simp add: tinv_def start_conf_def stream_ok_def own_replies_def)
qed

lemma tinv_progress:
  assumes "protocol E" and "tinv E fd ph tr c" and "\<not> finished c t"
  shows "\<exists>l c'. tstep E c l c'"
proof -
  from assms(2) have d: "\<And>t. disc benign (k_prog c t) (ph t) Out" and h: "\<And>t. k_held c t = holds (ph t)"
    and ex: "\<forall>t u m. m \<in> holds (ph t) \<longrightarrow> m \<in> holds (ph u) \<longrightarrow> t = u"
    and st: "stream_ok E ph tr (k_node c)" unfolding tinv_def by auto
  have free: "\<exists>l c'. tstep E c l c'"
    if "\<not> finished c u" "\<And>m p. k_prog c u = Lock m p \<Longrightarrow> \<forall>v. m \<notin> holds (ph v)" for u
  proof (cases "k_prog c u")
    case (Send msg p)
    with d [of u] have u: "ph u = In" "wants_reply msg \<or> noreply msg" by (auto split: if_splits)
    then have "in_sync (k_node c)" using in_sync_of [OF st _ _ ex, of u] by auto
    from thread_send [OF assms(1) this] u(2) Send show ?thesis by (metis tstep.send)
  next
    case (Recv f)
    with d [of u] have "ph u = Await" by simp
    from awaiting_of(1) [OF st this ex] obtain msg where "awaiting E msg (k_node c)" by blast
    from thread_recv [OF this] Recv show ?thesis by (metis tstep.recv)
  next
    case (Local f)
    then show ?thesis by (metis prod.exhaust tstep.local)
  next
    case (Lock m p)
    with tstep.lock [OF Lock] that(2) h show ?thesis by blast
  next
    case (Unlock m p)
    from tstep.unlock [OF Unlock] show ?thesis by blast
  next
    case (Raise e)
    with tstep.unwind [OF Raise] that(1) show ?thesis by auto
  qed (use that in auto)
  consider v where "MtxFrame \<in> holds (ph v)" | v where "MtxSock \<in> holds (ph v)" "\<forall>u. MtxFrame \<notin> holds (ph u)"
    | "\<forall>u m. m \<notin> holds (ph u)" by (metis mtx.exhaust)
  then show ?thesis
  proof cases
    case 1
    then have "ph v \<in> {OutF, InF}" by (cases "ph v") auto
    with d [of v] h [of v] show ?thesis
      by (intro free [of v]) (auto split: option.splits prog.splits elim: enter.elims)
  next
    case 2
    from this(1) this(2) [rule_format, of v] have "ph v \<in> {In, Await}" by (cases "ph v") auto
    with d [of v] h [of v] 2 show ?thesis
      by (intro free [of v]) (auto split: option.splits prog.splits elim: enter.elims)
  next
    case 3
    with assms(3) show ?thesis by (intro free) auto
  qed
qed

section \<open>Whose reply is whose\<close>

text \<open>Two threads of the example: one clears the server, the other one is about to store an atom.\<close>

definition small_ops :: "nat \<Rightarrow> (nat, nat, unit) simple_op list" where
  "small_ops t = (if t = 0 then [KillData] else if t = 1 then [StoreAtom 1] else [])"

abbreviation small_start :: "(nat, (nat \<times> nat \<times> nat) list, unit) conf" where
  "small_start \<equiv> start_conf small_lib (small_simple []) (\<lambda>t. 1) small_ops"

lemma small_ops_locked: "\<forall>t. list_all (\<lambda>op. \<not> unlocked op) (small_ops t)"
  by (simp add: small_ops_def)

lemma small_thread_run:
  "\<exists>c r. tsteps (small_env small_answer) small_start [(0, TSend (''(cog-atomspace-clear)'' @ [NL])), (0, TRecv r)] c"
proof -
  let ?E = "small_env small_answer" let ?m = "''(cog-atomspace-clear)'' @ [NL]"
  have w: "wants_reply ?m" by (simp add: wants_reply_iff)
  from thread_send(1) [OF small_protocol small_in_sync w] obtain s1 where
    s1: "simple_do_send ?E ?m (small_simple []) = (Inr (), s1)" "awaiting ?E ?m s1" by blast
  from thread_recv [OF s1(2)] obtain s2 r where s2: "simple_do_recv False s1 = (Inr r, s2)" by blast
  obtain p where p: "k_prog small_start 0 = Lock MtxSock (Send ?m (Recv p))"
    by (simp add: start_conf_def small_ops_def t_kill_data_def locked_def ask_def pseq_def)
  let ?c1 = "set_held 0 (insert MtxSock (k_held small_start 0)) (goes_on 0 (Send ?m (Recv p)) (k_node small_start) small_start)"
  have 1: "tstep ?E small_start [] ?c1"
    by (rule tstep.lock [OF p]) (simp add: start_conf_def)
  have 2: "tstep ?E ?c1 [(0, TSend ?m)] (goes_on 0 (Recv p) s1 ?c1)"
    by (rule tstep.send) (use s1(1) in \<open>simp_all add: start_conf_def\<close>)
  have 3: "tstep ?E (goes_on 0 (Recv p) s1 ?c1) [(0, TRecv r)] (goes_on 0 (p r) s2 (goes_on 0 (Recv p) s1 ?c1))"
    by (rule tstep.recv) (use s2 in simp_all)
  from tsteps.step [OF tsteps.step [OF tsteps.step [OF tsteps.start 1] 2] 3] show ?thesis by auto
qed





text \<open>C29: \<open>proxy_open\<close> takes no lock, and a thread that calls it can lose its reply to another one. When one
  thread is in \<open>proxy_open\<close> while another calls \<open>loadValue\<close>, there is an interleaving in which the reply
  that \<open>loadValue\<close> takes for its value is the server's reply to the proxy request.\<close>

theorem proxy_open_race:
  fixes s :: "('h, 'w, 'srv) simple" and L :: "('h, 'v, 't, 'w) atomlib"
  assumes "protocol E" and "in_sync s" and "t \<noteq> u" and "ops t = [ProxyOpen]" and "ops u = [LoadValue h key]"
  shows "\<exists>c r. tsteps E (start_conf L s rngs ops)
      [(t, TSend (''(cog-proxy-open)'' @ [NL])), (u, TSend (simple_loadValue_msg L (s_as s) h key)), (u, TRecv r)] c \<and>
    is_reply (snd (on_data E (s_sockfd s) (''(cog-proxy-open)'' @ [NL]) (srv (s_net s)))) r"
proof -
  let ?fd = "s_sockfd s" let ?a = "''(cog-proxy-open)'' @ [NL]" let ?b = "simple_loadValue_msg L (s_as s) h key"
  let ?c0 = "start_conf L s rngs ops"
  obtain x1 e1 where d1: "on_data E ?fd ?a (srv (s_net s)) = (x1, e1)" by fastforce
  obtain x2 e2 where d2: "on_data E ?fd ?b x1 = (x2, e2)" by fastforce
  have "wants_reply ?a" by (simp add: wants_reply_iff)
  from protocolD(2) [OF assms(1) d1 this] obtain r where r: "is_reply e1 r" ..
  let ?s1 = "s\<lparr>s_net := sent ?fd ?a x1 e1 (s_net s)\<rparr>"
  let ?s2 = "s\<lparr>s_net := sent ?fd ?b x2 e2 (sent ?fd ?a x1 e1 (s_net s))\<rparr>"
  have send1: "simple_do_send E ?a s = (Inr (), ?s1)"
    by (rule do_send_run [OF assms(2) protocolD(1) [OF assms(1) d1] d1])
  have send2: "simple_do_send E ?b ?s1 = (Inr (), ?s2)"
    using assms(2) d2 protocolD(1) [OF assms(1) d2]
    by (simp add: simple_do_send_def in_sync_def simple_connected_def bnd_def gets_def zoom_def sys_send_def sent_def ret_def)
  have "rx (s_net ?s2) (s_sockfd ?s2) = rx (s_net s) ?fd @ e1 @ e2" by (simp add: sent_def)
  from do_recv_reply_rest [of ?s2, OF _ _ this _ r] assms(2) obtain idle where
    recv: "simple_do_recv False ?s2 = (Inr r, ?s2\<lparr>s_net := set_rx ?fd (idle @ e2) (s_net ?s2)\<rparr>)"
    by (auto simp: in_sync_def sent_def)
  define k :: "string \<Rightarrow> ('h, 'w, unit) sprog"
    where "k = (\<lambda>rply. pbnd (pbnd (on_space (simple_take_value L h key rply)) (\<lambda>x. Unlock MtxSock (Return x))) (\<lambda>_. Return ()))"
  define loc :: "nat \<times> ('h, 'w) shared \<Rightarrow> ('h, 'w, unit) sprog \<times> nat \<times> ('h, 'w) shared"
    where "loc = (\<lambda>c. (Lock MtxSock (Send (simple_loadValue_msg L (h_as (snd c)) h key) (Recv k)), c))"
  let ?w = "Recv (\<lambda>_. Return ()) :: ('h, 'w, unit) sprog"
  have pt: "k_prog ?c0 t = Send ?a ?w"
    by (simp add: start_conf_def assms(4) t_proxy_open_def ask_def pseq_def)
  let ?c1 = "goes_on t ?w ?s1 ?c0"
  have 1: "tstep E ?c0 [(t, TSend ?a)] ?c1"
    using send1 by (intro tstep.send [OF pt]) (simp add: start_conf_def)
  have pu: "k_prog ?c1 u = Local loc"
    using assms(3) by (simp add: start_conf_def assms(5) t_loadValue_def rd_def act_def gets_def locked_def ask_def pseq_def loc_def k_def
        map_prod_def fun_eq_iff)
  let ?p = "Send ?b (Recv k)"
  let ?c2 = "(goes_on u (Lock MtxSock ?p) (put_shared (shared_of ?s1) ?s1) ?c1)\<lparr>k_rng := (k_rng ?c1)(u := k_rng ?c1 u)\<rparr>"
  have 2: "tstep E ?c1 [] ?c2"
    using tstep.local [OF pu, where p = "Lock MtxSock ?p" and x = "k_rng ?c1 u" and h = "shared_of ?s1"] by (simp add: loc_def)
  have s1: "k_node ?c2 = ?s1" by (simp add: put_shared_def shared_of_def)
  let ?c3 = "set_held u (insert MtxSock (k_held ?c2 u)) (goes_on u ?p (k_node ?c2) ?c2)"
  have 3: "tstep E ?c2 [] ?c3"
    by (rule tstep.lock [of _ _ MtxSock]) (simp_all add: start_conf_def)
  let ?c4 = "goes_on u (Recv k) ?s2 ?c3"
  have 4: "tstep E ?c3 [(u, TSend ?b)] ?c4"
    by (rule tstep.send) (use s1 send2 in simp_all)
  have 5: "tstep E ?c4 [(u, TRecv r)] (goes_on u (k r) (?s2\<lparr>s_net := set_rx ?fd (idle @ e2) (s_net ?s2)\<rparr>) ?c4)"
    by (rule tstep.recv) (use recv in simp_all)
  from tsteps.step [OF tsteps.step [OF tsteps.step [OF tsteps.step [OF tsteps.step [OF tsteps.start 1] 2] 3] 4] 5] r d1
  show ?thesis by auto
qed

theorem proxy_open_race_witness:
  "\<exists>c r. tsteps (small_env small_answer)
      (start_conf small_lib (small_simple []) (\<lambda>t. 1) (\<lambda>t. if t = 0 then [ProxyOpen] else if t = 1 then [LoadValue 1 2] else []))
      [(0, TSend (''(cog-proxy-open)'' @ [NL])), (1, TSend (simple_loadValue_msg small_lib [] 1 2)), (1, TRecv r)] c"
proof -
  have "s_as (small_simple []) = []" by (simp add: small_simple_def)
  with proxy_open_race [OF small_protocol small_in_sync, of 0 1
      "\<lambda>t. if t = 0 then [ProxyOpen] else if t = 1 then [LoadValue 1 2] else []" 1 2 small_lib "\<lambda>t. 1"]
  show ?thesis by auto
qed

end
