(* ===== verification/MsgBuffer.thy ===== *)
theory MsgBuffer
  imports Channel
begin

text \<open>
  The order of messages, and what the calls on \<open>_msg_buffer\<close> lead to.

  \<open>async_buffer\<close> keeps its messages in a set ordered by \<open>operator<\<close>. A set needs a strict weak
  order, and two messages that are equivalent under it are one element of the set: that is the
  de-duplication the comment in \<open>CogChannel.h\<close> describes. The buffer itself is the parameter \<open>B\<close>,
  with the contract \<open>async_buffer_ok\<close>. A run \<open>bufrun\<close> is any interleaving of the calls on the
  buffer with the turns of its worker threads that the contract allows: a worker takes any pending
  message, and a barrier returns when no message is pending and, if it carries a message, every
  worker has handled it.
\<close>

section \<open>Strict weak orders\<close>

locale strict_weak =
  fixes lt :: "'a \<Rightarrow> 'a \<Rightarrow> bool"
  assumes lt_irrefl: "\<not> lt x x"
    and lt_trans: "lt x y \<Longrightarrow> lt y z \<Longrightarrow> lt x z"
    and incomparable_trans:
      "\<not> lt x y \<Longrightarrow> \<not> lt y x \<Longrightarrow> \<not> lt y z \<Longrightarrow> \<not> lt z y \<Longrightarrow> \<not> lt x z \<and> \<not> lt z x"
begin

definition eqv :: "'a \<Rightarrow> 'a \<Rightarrow> bool" where
  "eqv x y \<longleftrightarrow> \<not> lt x y \<and> \<not> lt y x"

lemma eqv_refl: "eqv x x"
  by (simp add: eqv_def lt_irrefl)

lemma eqv_trans: "eqv x y \<Longrightarrow> eqv y z \<Longrightarrow> eqv x z"
  unfolding eqv_def using incomparable_trans by blast

lemma lt_asym: "lt x y \<Longrightarrow> \<not> lt y x"
  using lt_irrefl lt_trans by blast

lemma lt_eqv: "lt x y \<Longrightarrow> eqv y z \<Longrightarrow> lt x z"
  unfolding eqv_def using incomparable_trans lt_asym lt_trans by blast

end

definition msg_equiv :: "('c, 'd) Msg \<Rightarrow> ('c, 'd) Msg \<Rightarrow> bool" where
  "msg_equiv a b \<longleftrightarrow> \<not> msg_less a b \<and> \<not> msg_less b a"

interpretation mo: strict_weak msg_less
  rewrites "strict_weak.eqv msg_less = msg_equiv"
proof -
  show sw: "strict_weak (msg_less :: ('c, 'd) Msg \<Rightarrow> ('c, 'd) Msg \<Rightarrow> bool)"
    by unfold_locales (auto simp: msg_less_def split: if_splits)
  show "strict_weak.eqv msg_less = (msg_equiv :: ('c, 'd) Msg \<Rightarrow> ('c, 'd) Msg \<Rightarrow> bool)"
    by (intro ext) (simp add: strict_weak.eqv_def [OF sw] msg_equiv_def)
qed

lemma msg_equiv_iff:
  "msg_equiv a b \<longleftrightarrow> m_sequence a = m_sequence b \<and> (m_sequence a = 0 \<longrightarrow> m_str a = m_str b)"
  by (auto simp: msg_equiv_def msg_less_def)

section \<open>The contract of the buffer\<close>

record ('m, 'b) async_buffer =
  ab_pending :: "'b \<Rightarrow> 'm list"
  ab_insert :: "'m \<Rightarrow> 'b \<Rightarrow> 'b"
  ab_take :: "'m \<Rightarrow> 'b \<Rightarrow> 'b"

definition async_buffer_ok :: "('m \<Rightarrow> 'm \<Rightarrow> bool) \<Rightarrow> ('m, 'b) async_buffer \<Rightarrow> bool" where
  "async_buffer_ok eqv B \<longleftrightarrow>
     (\<forall>m b. set (ab_pending B (ab_insert B m b)) =
        (if \<exists>x\<in>set (ab_pending B b). eqv x m then set (ab_pending B b)
         else insert m (set (ab_pending B b)))) \<and>
     (\<forall>m b. set (ab_pending B (ab_take B m b)) = set (ab_pending B b) - {m})"

datatype 'm bev = Call "'m bufcall" | Work nat 'm

inductive bufrun :: "('m, 'b) async_buffer \<Rightarrow> 'b \<Rightarrow> 'm bev list \<Rightarrow> 'b \<Rightarrow> bool" for B b0 where
  start: "bufrun B b0 [] b0"
| insert: "bufrun B b0 evs b \<Longrightarrow> bufrun B b0 (evs @ [Call (BInsert m)]) (ab_insert B m b)"
| work: "bufrun B b0 evs b \<Longrightarrow> m \<in> set (ab_pending B b) \<Longrightarrow> t < NTHREADS \<Longrightarrow>
    bufrun B b0 (evs @ [Work t m]) (ab_take B m b)"
| barrier: "bufrun B b0 evs b \<Longrightarrow> ab_pending B b = [] \<Longrightarrow> bufrun B b0 (evs @ [Call BBarrier]) b"
| barrier_msg: "bufrun B b0 evs b \<Longrightarrow> ab_pending B b = [] \<Longrightarrow>
    bufrun B b0 (evs @ map (\<lambda>t. Work t m) [0..<NTHREADS] @ [Call (BBarrierMsg m)]) b"
| other: "bufrun B b0 evs b \<Longrightarrow> c \<in> {BFlush, BClose, BClearStats} \<union> range BOpen \<Longrightarrow>
    bufrun B b0 (evs @ [Call c]) b"

inductive_cases bufrun_NilE: "bufrun B b0 [] b"
inductive_cases bufrun_workE: "bufrun B b0 (evs @ [Work t m]) b"
inductive_cases bufrun_insertE: "bufrun B b0 (evs @ [Call (BInsert m)]) b"

section \<open>Nothing is left behind a barrier\<close>

text \<open>Every message that was inserted is still pending or was handled since, up to equivalence.\<close>

definition handled_in :: "('m \<Rightarrow> 'm \<Rightarrow> bool) \<Rightarrow> 'm \<Rightarrow> 'm bev list \<Rightarrow> bool" where
  "handled_in eqv m evs \<longleftrightarrow> (\<exists>t m'. Work t m' \<in> set evs \<and> eqv m' m)"

lemma handled_in_append: "handled_in eqv m (xs @ ys) \<longleftrightarrow> handled_in eqv m xs \<or> handled_in eqv m ys"
  by (auto simp: handled_in_def)

lemma bufrun_accounted:
  assumes "bufrun B b0 evs b" and ok: "async_buffer_ok eqv B" and refl: "\<And>x. eqv x x"
    and "evs = xs @ Call (BInsert m) # ys"
  shows "(\<exists>x\<in>set (ab_pending B b). eqv x m) \<or> handled_in eqv m ys"
  using assms(1,4)
proof (induction arbitrary: ys rule: bufrun.induct)
  case start
  then show ?case by simp
next
  case (insert evs b k)
  have ins: "set (ab_pending B b) \<subseteq> set (ab_pending B (ab_insert B k b))"
    using ok by (auto simp: async_buffer_ok_def)
  show ?case
  proof (cases ys rule: rev_cases)
    case Nil
    with insert.prems have "k = m" by simp
    with ok refl show ?thesis unfolding async_buffer_ok_def by (metis insertI1)
  next
    case (snoc zs e)
    with insert.prems have e: "evs = xs @ Call (BInsert m) # zs" by simp
    from insert.IH [OF e] ins show ?thesis by (auto simp: snoc handled_in_append)
  qed
next
  case (work evs b k t)
  then obtain zs where zs: "ys = zs @ [Work t k]" "evs = xs @ Call (BInsert m) # zs"
    by (cases ys rule: rev_cases) auto
  from work.IH [OF zs(2)] ok show ?case
    unfolding zs(1) handled_in_append async_buffer_ok_def
    by (auto simp: handled_in_def)
next
  case (barrier evs b)
  then obtain zs where "ys = zs @ [Call BBarrier]" "evs = xs @ Call (BInsert m) # zs"
    by (cases ys rule: rev_cases) auto
  with barrier.IH show ?case by (auto simp: handled_in_append)
next
  case (barrier_msg evs b k)
  let ?w = "map (\<lambda>t. Work t k) [0..<NTHREADS] @ [Call (BBarrierMsg k)]"
  have "\<exists>zs. ys = zs @ ?w \<and> evs = xs @ Call (BInsert m) # zs"
    using barrier_msg.prems by (auto simp: append_eq_append_conv2 Cons_eq_append_conv append_eq_Cons_conv
        map_eq_append_conv map_eq_Cons_conv)
  then obtain zs where "ys = zs @ ?w" "evs = xs @ Call (BInsert m) # zs" by blast
  with barrier_msg.IH show ?case by (auto simp: handled_in_append)
next
  case (other evs b c)
  then obtain zs where "ys = zs @ [Call c]" "evs = xs @ Call (BInsert m) # zs"
    by (cases ys rule: rev_cases) auto
  with other.IH show ?case by (auto simp: handled_in_append)
qed

text \<open>At a barrier that carries a message the run splits: nothing is pending, the workers handle the
  message, and the rest is a run of its own.\<close>

abbreviation fence_works :: "'m \<Rightarrow> 'm bev list" where
  "fence_works k \<equiv> map (\<lambda>t. Work t k) [0..<NTHREADS]"

lemma works_after_call:
  "us @ map (\<lambda>t. Work t m) ts = xs @ Call c # zs \<Longrightarrow>
     \<exists>vs. zs = vs @ map (\<lambda>t. Work t m) ts \<and> us = xs @ Call c # vs"
proof (induction ts arbitrary: zs rule: rev_induct)
  case (snoc t ts)
  then show ?case by (cases zs rule: rev_cases) auto
qed simp

lemma bufrun_barrier_split:
  assumes "bufrun B b0 evs b" and "evs = xs @ Call (BBarrierMsg k) # zs"
  shows "\<exists>us b1. xs = us @ fence_works k \<and> bufrun B b0 us b1 \<and> ab_pending B b1 = [] \<and> bufrun B b1 zs b"
  using assms
proof (induction arbitrary: zs rule: bufrun.induct)
  case (barrier_msg evs b m)
  show ?case
  proof (cases zs rule: rev_cases)
    case Nil
    with barrier_msg show ?thesis by (auto intro: bufrun.start)
  next
    case (snoc zs' e)
    with barrier_msg.prems have "evs @ fence_works m = xs @ Call (BBarrierMsg k) # zs'" "e = Call (BBarrierMsg m)"
      by auto
    from works_after_call [OF this(1)] this(2) snoc
    have "\<exists>vs. zs = vs @ fence_works m @ [Call (BBarrierMsg m)] \<and> evs = xs @ Call (BBarrierMsg k) # vs"
      by auto
    then obtain vs where "zs = vs @ fence_works m @ [Call (BBarrierMsg m)]" "evs = xs @ Call (BBarrierMsg k) # vs"
      by blast
    with barrier_msg.IH barrier_msg.hyps show ?thesis by (metis bufrun.barrier_msg)
  qed
qed (auto simp: append_eq_append_conv2 Cons_eq_append_conv append_eq_Cons_conv intro: bufrun.intros; blast intro: bufrun.intros)+

lemma bufrun_work_origin:
  assumes "bufrun B b0 evs b" and ok: "async_buffer_ok eqv B"
  shows "set (ab_pending B b) \<subseteq> set (ab_pending B b0) \<union> {m. Call (BInsert m) \<in> set evs}"
    and "Work t m \<in> set evs \<Longrightarrow> m \<in> set (ab_pending B b0) \<or> Call (BInsert m) \<in> set evs \<or> Call (BBarrierMsg m) \<in> set evs"
  using assms(1)
proof (induction rule: bufrun.induct)
  case (insert evs b k)
  { case 1
    from ok have "set (ab_pending B (ab_insert B k b)) \<subseteq> Set.insert k (set (ab_pending B b))"
      by (auto simp: async_buffer_ok_def)
    with insert.IH(1) show ?case by auto }
  { case 2 with insert.IH(2) show ?case by auto }
next
  case (work evs b k t')
  { case 1 with work.IH(1) ok show ?case by (auto simp: async_buffer_ok_def) }
  { case 2 with work.IH work.hyps show ?case by auto }
qed auto

text \<open>The calls of a run, in their order.\<close>

fun calls_of :: "'m bev list \<Rightarrow> 'm bufcall list" where
  "calls_of [] = []"
| "calls_of (Call c # evs) = c # calls_of evs"
| "calls_of (Work t m # evs) = calls_of evs"

lemma calls_of_append [simp]: "calls_of (xs @ ys) = calls_of xs @ calls_of ys"
  by (induction xs rule: calls_of.induct) auto

lemma calls_of_Call [simp]: "calls_of (map Call cs) = cs"
  by (induction cs) auto

lemma calls_of_Work [simp]: "calls_of (map (\<lambda>t. Work t k) ts) = []"
  by (induction ts) auto

lemma calls_of_mem: "c \<in> set (calls_of evs) \<longleftrightarrow> Call c \<in> set evs"
  by (induction evs rule: calls_of.induct) auto

lemma calls_of_split:
  "calls_of evs = cs @ c # ds \<Longrightarrow> \<exists>xs ys. evs = xs @ Call c # ys \<and> calls_of xs = cs \<and> calls_of ys = ds"
proof (induction evs arbitrary: cs rule: calls_of.induct)
  case (2 d evs)
  show ?case
  proof (cases cs)
    case Nil
    with "2.prems" show ?thesis by (intro exI [of _ "[]"] exI [of _ evs]) simp
  next
    case (Cons d' cs')
    with "2.prems" have d: "d' = d" "calls_of evs = cs' @ c # ds" by auto
    from "2.IH" [OF d(2)] obtain xs ys where "evs = xs @ Call c # ys" "calls_of xs = cs'" "calls_of ys = ds" by blast
    with Cons d(1) show ?thesis by (intro exI [of _ "Call d # xs"] exI [of _ ys]) simp
  qed
next
  case (3 t m evs)
  from "3.prems" have "calls_of evs = cs @ c # ds" by simp
  from "3.IH" [OF this] obtain xs ys where "evs = xs @ Call c # ys" "calls_of xs = cs" "calls_of ys = ds" by blast
  then show ?case by (intro exI [of _ "Work t m # xs"] exI [of _ ys]) simp
qed simp

section \<open>De-duplication\<close>

fun is_work :: "'m bev \<Rightarrow> bool" where
  "is_work (Work t m) = True" | "is_work (Call c) = False"

fun work_msg :: "'m bev \<Rightarrow> 'm option" where
  "work_msg (Work t m) = Some m" | "work_msg (Call c) = None"

lemma bufrun_works:
  assumes "async_buffer_ok eqv B" and "bufrun B b0 (xs @ ws) b" and "list_all is_work ws"
  shows "\<exists>b1. bufrun B b0 xs b1 \<and> set (List.map_filter work_msg ws) \<subseteq> set (ab_pending B b1)
    \<and> distinct (List.map_filter work_msg ws)
    \<and> set (ab_pending B b) = set (ab_pending B b1) - set (List.map_filter work_msg ws)"
  using assms(2,3)
proof (induction ws arbitrary: b rule: rev_induct)
  case Nil
  then show ?case by (auto simp: map_filter_simps)
next
  case (snoc e ws)
  then obtain t m where e: "e = Work t m" by (cases e) auto
  from snoc.prems(1) e have "bufrun B b0 ((xs @ ws) @ [Work t m]) b" by simp
  then obtain b' where b': "bufrun B b0 (xs @ ws) b'" "m \<in> set (ab_pending B b')" "b = ab_take B m b'"
    by (elim bufrun_workE) auto
  from snoc.IH [OF b'(1)] snoc.prems(2) obtain b1 where "bufrun B b0 xs b1"
    "set (List.map_filter work_msg ws) \<subseteq> set (ab_pending B b1)" "distinct (List.map_filter work_msg ws)"
    "set (ab_pending B b') = set (ab_pending B b1) - set (List.map_filter work_msg ws)" by auto
  with b' assms(1) e show ?case
    by (auto simp: map_filter_def async_buffer_ok_def)
qed

lemma bufrun_inserts:
  assumes ok: "async_buffer_ok eqv B" and refl: "\<And>x. eqv x x"
    and "bufrun B b0 (replicate (Suc n) (Call (BInsert m))) b" and "ab_pending B b0 = []"
  shows "set (ab_pending B b) = {m}"
  using assms(3)
proof (induction n arbitrary: b)
  case 0
  then obtain b' where b': "bufrun B b0 [] b'" "b = ab_insert B m b'"
    using bufrun_insertE [of B b0 "[]" m b] by auto
  then have "b' = b0" by (auto elim: bufrun_NilE)
  with b'(2) ok assms(4) show ?case by (auto simp: async_buffer_ok_def)
next
  case (Suc n)
  have "replicate (Suc (Suc n)) (Call (BInsert m)) = replicate (Suc n) (Call (BInsert m)) @ [Call (BInsert m)]"
    by (simp add: replicate_append_same)
  with Suc.prems have "bufrun B b0 (replicate (Suc n) (Call (BInsert m)) @ [Call (BInsert m)]) b" by (simp only:)
  then obtain b' where b': "bufrun B b0 (replicate (Suc n) (Call (BInsert m))) b'" "b = ab_insert B m b'"
    by (rule bufrun_insertE) auto
  have "set (ab_pending B b') = {m}" by (rule Suc.IH [OF b'(1)])
  with b'(2) ok refl [of m] show ?case by (simp add: async_buffer_ok_def)
qed

text \<open>However often one message is inserted while it is pending, it is handled once.\<close>

lemma inserted_often_handled_once:
  assumes ok: "async_buffer_ok eqv B" and refl: "\<And>x. eqv x x"
    and run: "bufrun B b0 (replicate (Suc n) (Call (BInsert m)) @ ws) b" and "list_all is_work ws"
    and "ab_pending B b0 = []" and "ab_pending B b = []"
  shows "\<exists>t. ws = [Work t m]"
proof -
  from bufrun_works [OF ok run assms(4)] obtain b1 where
    b1: "bufrun B b0 (replicate (Suc n) (Call (BInsert m))) b1"
    and w: "set (List.map_filter work_msg ws) \<subseteq> set (ab_pending B b1)" "distinct (List.map_filter work_msg ws)"
      "set (ab_pending B b) = set (ab_pending B b1) - set (List.map_filter work_msg ws)" by blast
  have "set (ab_pending B b1) = {m}" by (rule bufrun_inserts [OF ok refl b1 assms(5)])
  with w(1,3) assms(6) have sw: "set (List.map_filter work_msg ws) = {m}" by auto
  have "card (set (List.map_filter work_msg ws)) = length (List.map_filter work_msg ws)"
    by (rule distinct_card [OF w(2)])
  then have "length (List.map_filter work_msg ws) = Suc 0" by (simp only: sw) simp
  with sw have one: "List.map_filter work_msg ws = [m]"
    by (cases "List.map_filter work_msg ws") auto
  have "length (List.map_filter work_msg ws) = length ws"
    using assms(4) by (induction ws) (auto simp: map_filter_simps elim!: is_work.elims)
  with one have "length ws = 1" by simp
  then obtain e where "ws = [e]" by (metis One_nat_def length_0_conv length_Suc_conv)
  with assms(4) one show ?thesis
    by (cases e) (auto simp: map_filter_simps)
qed

section \<open>What the order and the barrier give\<close>

text \<open>C39: \<open>operator<\<close> is a strict weak order, as a set of messages needs, and two messages are one
  element of the set exactly when their sequence numbers are equal and, for messages without a
  number, their texts are equal too.\<close>

theorem msg_order:
  "\<not> msg_less a a \<and> (msg_less a b \<longrightarrow> msg_less b c \<longrightarrow> msg_less a c) \<and>
   (msg_equiv a b \<longrightarrow> msg_equiv b c \<longrightarrow> msg_equiv a c) \<and> (msg_less a b \<longrightarrow> msg_equiv b c \<longrightarrow> msg_less a c) \<and>
   (msg_equiv a b \<longleftrightarrow> m_sequence a = m_sequence b \<and> (m_sequence a = 0 \<longrightarrow> m_str a = m_str b))"
  using mo.lt_irrefl mo.lt_trans mo.eqv_trans mo.lt_eqv msg_equiv_iff by metis

definition small_msg :: "nat \<Rightarrow> string \<Rightarrow> (unit, unit) Msg" where
  "small_msg n str = \<lparr>m_handler = None, m_sequence = n, m_noreply = True, m_str = str, m_data = ()\<rparr>"

theorem msg_order_witness:
  "msg_less (small_msg 2 ''(u)'') (small_msg 1 ''(u)'') \<and> msg_less (small_msg 1 ''(u)'') (small_msg 0 ''(a)'') \<and>
   msg_less (small_msg 2 ''(u)'') (small_msg 0 ''(a)'')"
proof -
  have "msg_less (small_msg 2 ''(u)'') (small_msg 1 ''(u)'')" "msg_less (small_msg 1 ''(u)'') (small_msg 0 ''(a)'')"
    by (simp_all add: msg_less_def small_msg_def)
  with msg_order [of "small_msg 2 ''(u)''" "small_msg 1 ''(u)''" "small_msg 0 ''(a)''"] show ?thesis by blast
qed

lemma barrier_fence:
  assumes "async_buffer_ok msg_equiv B" and "bufrun B b0 (xs @ Call (BBarrierMsg k) # zs) b"
  shows "(\<exists>us. xs = us @ map (\<lambda>t. Work t k) [0..<NTHREADS] \<and>
            (\<forall>m. Call (BInsert m) \<in> set xs \<longrightarrow> handled_in msg_equiv m us)) \<and>
    (\<forall>t m. Work t m \<in> set zs \<longrightarrow> Call (BInsert m) \<in> set zs \<or> Call (BBarrierMsg m) \<in> set zs)"
proof -
  from bufrun_barrier_split [OF assms(2) refl] obtain us b1 where
    us: "xs = us @ fence_works k" and r1: "bufrun B b0 us b1" and e: "ab_pending B b1 = []" and r2: "bufrun B b1 zs b"
    by blast
  have "handled_in msg_equiv m us" if "Call (BInsert m) \<in> set xs" for m
  proof -
    from that us have "Call (BInsert m) \<in> set us" by auto
    then obtain as bs where "us = as @ Call (BInsert m) # bs" by (meson split_list)
    with bufrun_accounted [OF r1 assms(1) mo.eqv_refl this] e show ?thesis
      by (auto simp: handled_in_def)
  qed
  moreover have "Call (BInsert m) \<in> set zs \<or> Call (BBarrierMsg m) \<in> set zs" if "Work t m \<in> set zs" for t m
    using bufrun_work_origin(2) [OF r2 assms(1) that] e by simp
  ultimately show ?thesis using us by blast
qed


text \<open>A buffer that keeps the contract: a list without equivalent messages.\<close>

definition small_buffer :: "(('c, 'd) Msg, ('c, 'd) Msg list) async_buffer" where
  "small_buffer = \<lparr>ab_pending = (\<lambda>b. b), ab_insert = (\<lambda>m b. if list_ex (\<lambda>x. msg_equiv x m) b then b else b @ [m]),
     ab_take = removeAll\<rparr>"

lemma small_buffer_ok: "async_buffer_ok msg_equiv small_buffer"
  by (auto simp: async_buffer_ok_def small_buffer_def list_ex_iff)

lemma small_threads: "[0..<NTHREADS] = [0, 1, 2, 3]"
  unfolding NTHREADS_def by code_simp

lemma small_fence_run:
  fixes m k :: "('c, 'd) Msg"
  shows "bufrun small_buffer [] [Call (BInsert m), Work 0 m, Work 0 k, Work 1 k, Work 2 k, Work 3 k, Call (BBarrierMsg k)] []"
proof -
  let ?B = "small_buffer :: (('c, 'd) Msg, ('c, 'd) Msg list) async_buffer"
  from bufrun.insert [OF bufrun.start [of ?B "[]"], of m] have "bufrun ?B [] [Call (BInsert m)] [m]"
    by (simp add: small_buffer_def)
  from bufrun.work [OF this, of m 0] have "bufrun ?B [] [Call (BInsert m), Work 0 m] []"
    by (simp add: small_buffer_def NTHREADS_def)
  from bufrun.barrier_msg [OF this, of k] show ?thesis
    unfolding small_threads by (simp add: small_buffer_def)
qed

lemma small_two_run:
  fixes m1 m2 k :: "('c, 'd) Msg"
  assumes "\<not> msg_equiv m1 m2"
  shows "bufrun small_buffer [] [Call (BInsert m1), Call (BInsert m2), Work 0 m1, Work 3 m2, Work 0 k, Work 1 k, Work 2 k,
    Work 3 k, Call (BBarrierMsg k)] []"
proof -
  let ?B = "small_buffer :: (('c, 'd) Msg, ('c, 'd) Msg list) async_buffer"
  have ne: "m1 \<noteq> m2" using assms by (auto simp: msg_equiv_iff)
  from bufrun.insert [OF bufrun.start [of ?B "[]"], of m1] have "bufrun ?B [] [Call (BInsert m1)] [m1]"
    by (simp add: small_buffer_def)
  from bufrun.insert [OF this, of m2] assms have
    "bufrun ?B [] [Call (BInsert m1), Call (BInsert m2)] [m1, m2]" by (simp add: small_buffer_def)
  from bufrun.work [OF this, of m1 0] ne have
    "bufrun ?B [] [Call (BInsert m1), Call (BInsert m2), Work 0 m1] [m2]" by (simp add: small_buffer_def NTHREADS_def)
  from bufrun.work [OF this, of m2 3] have
    "bufrun ?B [] [Call (BInsert m1), Call (BInsert m2), Work 0 m1, Work 3 m2] []" by (simp add: small_buffer_def NTHREADS_def)
  from bufrun.barrier_msg [OF this, of k] show ?thesis
    unfolding small_threads by (simp add: small_buffer_def)
qed

lemma small_fenced_run:
  fixes m k1 k2 :: "('c, 'd) Msg"
  shows "\<exists>evs. bufrun small_buffer [] evs [] \<and> calls_of evs = [BBarrierMsg k1, BInsert m, BBarrierMsg k2]"
proof -
  let ?B = "small_buffer :: (('c, 'd) Msg, ('c, 'd) Msg list) async_buffer"
  let ?w = "\<lambda>k. map (\<lambda>t. Work t k) [0..<NTHREADS] @ [Call (BBarrierMsg k)]"
  from bufrun.barrier_msg [OF bufrun.start [of ?B "[]"], of k1] have "bufrun ?B [] (?w k1) []"
    by (simp add: small_buffer_def)
  from bufrun.insert [OF this, of m] have "bufrun ?B [] (?w k1 @ [Call (BInsert m)]) [m]"
    by (simp add: small_buffer_def)
  from bufrun.work [OF this, of m 0] have "bufrun ?B [] ((?w k1 @ [Call (BInsert m)]) @ [Work 0 m]) []"
    by (simp add: small_buffer_def NTHREADS_def)
  from bufrun.barrier_msg [OF this, of k2] have "bufrun ?B [] (((?w k1 @ [Call (BInsert m)]) @ [Work 0 m]) @ ?w k2) []"
    by (simp add: small_buffer_def)
  then show ?thesis by (intro exI conjI) (assumption, simp)
qed

lemma small_repeat_run:
  fixes m :: "('c, 'd) Msg"
  shows "bufrun small_buffer [] [Call (BInsert m), Call (BInsert m), Work 0 m] []"
proof -
  let ?B = "small_buffer :: (('c, 'd) Msg, ('c, 'd) Msg list) async_buffer"
  from bufrun.insert [OF bufrun.start [of ?B "[]"], of m] have "bufrun ?B [] [Call (BInsert m)] [m]"
    by (simp add: small_buffer_def)
  from bufrun.insert [OF this, of m] have "bufrun ?B [] [Call (BInsert m), Call (BInsert m)] [m]"
    by (simp add: small_buffer_def mo.eqv_refl)
  from bufrun.work [OF this, of m 0] show ?thesis by (simp add: small_buffer_def NTHREADS_def)
qed


end
