(* ===== verification/Workers.thy ===== *)
theory Workers
  imports CogStorage MsgBuffer SimpleStorage
begin

text \<open>
  The multi-threaded node as a whole: the application's thread, the buffer and the four workers, each
  with a socket of its own, interleaved. The threads \<open>0\<close> to \<open>3\<close> are the workers and thread \<open>4\<close> is the
  application's. A call of the interface runs in the application's thread and leaves the list of calls
  it makes on the buffer, which are then carried out in order, with turns of the workers in between;
  a barrier waits until nothing is pending and every worker has handled its message. A worker's turn is
  \<open>cog_work\<close> with the worker's socket, which is opened on its first turn; the requests that a callback
  makes go into the buffer.
\<close>

section \<open>The system\<close>

record ('h, 'w, 'srv, 'b) sys =
  y_node :: "('h, 'w, 'srv) cog"
  y_tls :: "nat \<Rightarrow> tlso"
  y_buf :: 'b
  y_todo :: "(handler, 'h Pkt) Msg bufcall list"

definition as_thread :: "nat \<Rightarrow> ('h, 'w, 'srv, 'b) sys \<Rightarrow> ('h, 'w, 'srv) cog" where
  "as_thread t y =
     (y_node y)\<lparr>g_x := (g_x (y_node y))\<lparr>x_chan := (x_chan (g_x (y_node y)))\<lparr>c_calls := []\<rparr>, x_tls := y_tls y t\<rparr>\<rparr>"

definition after :: "nat \<Rightarrow> ('h, 'w, 'srv) cog \<Rightarrow> ('h, 'w, 'srv, 'b) sys \<Rightarrow> ('h, 'w, 'srv, 'b) sys" where
  "after t g y = y\<lparr>y_node := g, y_tls := (y_tls y)(t := x_tls (g_x g))\<rparr>"

fun put_call :: "('m, 'b) async_buffer \<Rightarrow> 'm bufcall \<Rightarrow> 'b \<Rightarrow> 'b" where
  "put_call B (BInsert m) b = ab_insert B m b"
| "put_call B _ b = b"

inductive turn ::
  "((handler, 'h Pkt) Msg, 'b) async_buffer \<Rightarrow> ('h, 'v, 't, 'w) atomlib \<Rightarrow> 'srv env \<Rightarrow> nat \<Rightarrow> (handler, 'h Pkt) Msg \<Rightarrow>
   ('h, 'w, 'srv, 'b) sys \<Rightarrow> ('h, 'w, 'srv, 'b) sys \<Rightarrow> bool" for B L E where
  turn: "cog_work L E m (as_thread t y) = (Inr (), g) \<Longrightarrow>
    turn B L E t m y ((after t g y)\<lparr>y_buf := fold (put_call B) (calls g) (y_buf y)\<rparr>)"

inductive turns ::
  "((handler, 'h Pkt) Msg, 'b) async_buffer \<Rightarrow> ('h, 'v, 't, 'w) atomlib \<Rightarrow> 'srv env \<Rightarrow> (handler, 'h Pkt) Msg \<Rightarrow> nat list \<Rightarrow>
   ('h, 'w, 'srv, 'b) sys \<Rightarrow> ('h, 'w, 'srv, 'b) sys \<Rightarrow> bool" for B L E k where
  none: "turns B L E k [] y y"
| more: "turn B L E t k y y1 \<Longrightarrow> turns B L E k ts y1 y2 \<Longrightarrow> turns B L E k (t # ts) y y2"

text \<open>The calls of the application: those of \<open>cog_run\<close>, which check that the node is open, and three that
  do not.\<close>

datatype ('h, 'v, 't) sys_call = Do "('h, 'v, 't) cog_op" | Barrier | ProxyOn | ProxyOff

fun sys_run ::
  "('h, 'v, 't, 'w) atomlib \<Rightarrow> 'srv env \<Rightarrow> 'h ptr \<Rightarrow> ('h, 'v, 't) sys_call \<Rightarrow> ('h, 'w, 'srv, unit) gio" where
  "sys_run L E junk (Do op) = cog_run L E junk op"
| "sys_run L E junk Barrier = cog_barrier"
| "sys_run L E junk ProxyOn = cog_proxy_open junk"
| "sys_run L E junk ProxyOff = cog_proxy_close junk"

text \<open>A step; the label is the call it starts, if it starts one.\<close>

inductive sstep ::
  "((handler, 'h Pkt) Msg, 'b) async_buffer \<Rightarrow> ('h, 'v, 't, 'w) atomlib \<Rightarrow> 'srv env \<Rightarrow> ('h, 'v, 't) sys_call option \<Rightarrow>
   ('h, 'w, 'srv, 'b) sys \<Rightarrow> ('h, 'w, 'srv, 'b) sys \<Rightarrow> bool" for B L E where
  call: "y_todo y = [] \<Longrightarrow> sys_run L E junk c (as_thread NTHREADS y) = (r, g) \<Longrightarrow>
    sstep B L E (Some c) y ((after NTHREADS g y)\<lparr>y_todo := calls g\<rparr>)"
| insert: "y_todo y = BInsert m # cs \<Longrightarrow> sstep B L E None y (y\<lparr>y_buf := ab_insert B m (y_buf y), y_todo := cs\<rparr>)"
| other: "y_todo y = c # cs \<Longrightarrow> c \<in> {BFlush, BClearStats} \<Longrightarrow> sstep B L E None y (y\<lparr>y_todo := cs\<rparr>)"
| barrier: "y_todo y = BBarrierMsg k # cs \<Longrightarrow> ab_pending B (y_buf y) = [] \<Longrightarrow> turns B L E k [0..<NTHREADS] y y' \<Longrightarrow>
    sstep B L E None y (y'\<lparr>y_todo := cs\<rparr>)"
| work: "m \<in> set (ab_pending B (y_buf y)) \<Longrightarrow> t < NTHREADS \<Longrightarrow>
    turn B L E t m (y\<lparr>y_buf := ab_take B m (y_buf y)\<rparr>) y' \<Longrightarrow> sstep B L E None y y'"

text \<open>The runs, with the calls that were started, oldest first.\<close>

fun label :: "'c option \<Rightarrow> 'c list" where
  "label None = []" | "label (Some c) = [c]"

inductive ssteps ::
  "((handler, 'h Pkt) Msg, 'b) async_buffer \<Rightarrow> ('h, 'v, 't, 'w) atomlib \<Rightarrow> 'srv env \<Rightarrow> ('h, 'w, 'srv, 'b) sys \<Rightarrow>
   ('h, 'v, 't) sys_call list \<Rightarrow> ('h, 'w, 'srv, 'b) sys \<Rightarrow> bool" for B L E y0 where
  start: "ssteps B L E y0 [] y0"
| step: "ssteps B L E y0 cs y \<Longrightarrow> sstep B L E l y y' \<Longrightarrow> ssteps B L E y0 (cs @ label l) y'"

section \<open>Messages\<close>

text \<open>A message's \<open>noreply\<close> flag says what the server does with it, and a message with a reply has a
  callback.\<close>

definition msg_ok :: "(handler, 'h Pkt) Msg \<Rightarrow> bool" where
  "msg_ok m \<longleftrightarrow> (if m_noreply m then noreply (m_str m) else wants_reply (m_str m) \<and> m_handler m \<noteq> None)"

fun call_ok :: "(handler, 'h Pkt) Msg bufcall \<Rightarrow> bool" where
  "call_ok (BInsert m) = msg_ok m"
| "call_ok (BBarrierMsg m) = (msg_ok m \<and> m_noreply m)"
| "call_ok BFlush = True"
| "call_ok BClearStats = True"
| "call_ok _ = False"

text \<open>The channel without the list of its calls.\<close>

definition chan_of :: "('c, 'd, 'srv) cst \<Rightarrow> ('c, 'd) chan" where
  "chan_of x = (x_chan x)\<lparr>c_calls := []\<rparr>"

lemma chan_of_fields [simp]:
  "c_servinfo (chan_of x) = c_servinfo (x_chan x)" "c_nsocks (chan_of x) = c_nsocks (x_chan x)" "c_id (chan_of x) = c_id (x_chan x)"
  by (simp_all add: chan_of_def)

text \<open>The socket and the channel as a method that does not use the socket leaves them; the calls that it
  makes on the buffer are in \<open>C\<close>.\<close>

definition quiet ::
  "((handler, 'h Pkt) Msg bufcall \<Rightarrow> bool) \<Rightarrow> 'srv net \<Rightarrow> tlso \<Rightarrow> (handler, 'h Pkt) chan \<Rightarrow> ('h, 'w, 'srv) cog \<Rightarrow> bool" where
  "quiet C n tls ch s \<longleftrightarrow> x_net (g_x s) = n \<and> x_tls (g_x s) = tls \<and> chan_of (g_x s) = ch \<and> list_all C (calls s)"

lemma quiet_fields:
  "quiet C n tls ch s \<Longrightarrow> c_servinfo (x_chan (g_x s)) = c_servinfo ch" "quiet C n tls ch s \<Longrightarrow> c_nsocks (x_chan (g_x s)) = c_nsocks ch"
  "quiet C n tls ch s \<Longrightarrow> c_id (x_chan (g_x s)) = c_id ch"
  by (auto simp: quiet_def chan_of_def)

lemma quiet_enqueue:
  assumes "\<And>sq. C (BInsert \<lparr>m_handler = Some cb, m_sequence = sq, m_noreply = False, m_str = msg, m_data = d\<rparr>)"
  shows "keeps (quiet C n tls ch) K (on_chan (chan_enqueue cb msg d))"
  by (rule keepsI)
     (auto simp: wp_def zoom_def chan_enqueue_def new_msg_def mk_Msg_def Let_def buf_call_def bnd_def modify_def quiet_def chan_of_def assms)

lemma quiet_enqueue_noreply:
  assumes "\<And>sq. C (BInsert \<lparr>m_handler = None, m_sequence = sq, m_noreply = True, m_str = msg, m_data = d\<rparr>)"
  shows "keeps (quiet C n tls ch) K (on_chan (chan_enqueue_noreply d msg))"
  by (rule keepsI)
     (auto simp: wp_def zoom_def chan_enqueue_noreply_def new_msg_def mk_Msg_def Let_def buf_call_def bnd_def modify_def quiet_def chan_of_def assms)

lemma fence_ok: "call_ok (BBarrierMsg (fence x d))"
  by (simp add: fence_def plain_def msg_ok_def barrier_text_def noreply_iff)

lemma quiet_barrier: "keeps (quiet call_ok n tls ch) K (on_chan (chan_barrier d))"
  by (rule keepsI) (auto simp: wp_def barrier_run quiet_def add_call_def next_rng_def chan_of_def fence_ok simp del: call_ok.simps)

lemma quiet_flush: "keeps (quiet call_ok n tls ch) K (on_chan chan_flush)"
  by (rule keepsI) (simp add: wp_def zoom_def chan_flush_def buf_call_def modify_def quiet_def chan_of_def)

lemma quiet_as: "keeps (\<lambda>_. True) K m \<Longrightarrow> keeps (quiet C n tls ch) K (g_on_as m)"
  by (rule keeps_zoom) (auto simp: quiet_def)

lemma quiet_fid: "keeps (quiet C n tls ch) K (modify (g_fid_map_update f))"
  by (rule keeps_modify) (simp add: quiet_def)

lemma quiet_check: "c_servinfo ch \<noteq> None \<Longrightarrow> keeps (quiet C n tls ch) K CHECK_OPEN"
  by (rule keepsI) (auto simp: wp_def CHECK_OPEN_run quiet_def cog_connected_def chan_connected_def chan_of_def)

lemmas quiet_rules = keeps_rules quiet_enqueue quiet_enqueue_noreply quiet_barrier quiet_flush quiet_as quiet_fid quiet_check
  keeps_lib_call keeps_ro_decode_alist keeps_lift_lib

section \<open>The calls and the callbacks queue well-formed messages\<close>

lemma cog_msgs_noreply:
  "noreply (cog_storeAtom_msg L w h)" "noreply (cog_storeValue_msg L w h key)" "noreply (cog_updateValue_msg L w h key delta)"
  by (simp_all add: cog_storeAtom_msg_def cog_storeValue_msg_def cog_updateValue_msg_def noreply_iff)

lemma cog_msgs_reply:
  "wants_reply (cog_removeAtom_msg L w h rec)" "wants_reply (cog_loadValue_msg L w h key)" "wants_reply (cog_iknow_msg L w h)"
  "wants_reply (cog_get_keys_msg L w h)" "wants_reply (cog_runQuery_msg L w query key meta fresh)"
  "wants_reply (cog_incoming_msg L w h)" "wants_reply (cog_incoming_type_msg L w h t)"
  by (simp_all add: cog_removeAtom_msg_def cog_loadValue_msg_def cog_iknow_msg_def cog_get_keys_msg_def cog_runQuery_msg_def
      cog_incoming_msg_def cog_incoming_type_msg_def wants_reply_iff)

lemma cog_texts_reply:
  "wants_reply (''(cog-get-atoms '' @ t)" "wants_reply (''(cog-atomspace-clear)'' @ t)" "wants_reply (''(cog-set-proxy! '' @ t)"
  "wants_reply (''(cog-proxy-open)'' @ t)" "wants_reply (''(cog-proxy-close)'' @ t)" "wants_reply (''(cog-keys->alist '' @ t)"
  by (simp_all add: wants_reply_iff)

lemma insert_ok:
  "wants_reply str \<Longrightarrow> call_ok (BInsert \<lparr>m_handler = Some cb, m_sequence = sq, m_noreply = False, m_str = str, m_data = d\<rparr>)"
  "noreply str \<Longrightarrow> call_ok (BInsert \<lparr>m_handler = None, m_sequence = sq, m_noreply = True, m_str = str, m_data = d\<rparr>)"
  by (simp_all add: msg_ok_def)

lemmas sent_ok = insert_ok cog_msgs_noreply cog_msgs_reply cog_texts_reply

lemma quiet_storeAtom: "c_servinfo ch \<noteq> None \<Longrightarrow> keeps (quiet call_ok n tls ch) K (cog_storeAtom L h)"
  unfolding cog_storeAtom_def by (intro quiet_rules sent_ok)

lemma quiet_requests:
  assumes "c_servinfo ch \<noteq> None"
  shows "keeps (quiet call_ok n tls ch) K (cog_fetchIncomingSet L table h)" "keeps (quiet call_ok n tls ch) K (cog_fetchIncomingByType L table h t)"
    "keeps (quiet call_ok n tls ch) K (cog_removeAtom L junk h rec)" "keeps (quiet call_ok n tls ch) K (cog_storeValue L h key)"
    "keeps (quiet call_ok n tls ch) K (cog_updateValue L h key delta)" "keeps (quiet call_ok n tls ch) K (cog_loadValue L h key)"
    "keeps (quiet call_ok n tls ch) K (cog_runQuery L h key meta fresh)" "keeps (quiet call_ok n tls ch) K (cog_loadType L table t)"
    "keeps (quiet call_ok n tls ch) K (cog_loadAtomSpace table)" "keeps (quiet call_ok n tls ch) K (cog_storeAtomSpace L sp)"
    "keeps (quiet call_ok n tls ch) K (cog_kill_data junk)" "keeps (quiet call_ok n tls ch) K (cog_set_proxy L junk h)"
  unfolding cog_fetchIncomingSet_def cog_fetchIncomingByType_def cog_removeAtom_def cog_storeValue_def
    cog_updateValue_def cog_loadValue_def cog_runQuery_def cog_loadType_def cog_loadAtomSpace_def cog_storeAtomSpace_def
    cog_kill_data_def cog_set_proxy_def cog_barrier_def
  by (intro quiet_rules quiet_storeAtom assms sent_ok)+

lemma quiet_unguarded:
  "keeps (quiet call_ok n tls ch) K cog_barrier" "keeps (quiet call_ok n tls ch) K (cog_proxy_open junk)"
  "keeps (quiet call_ok n tls ch) K (cog_proxy_close junk)"
  unfolding cog_barrier_def cog_proxy_open_def cog_proxy_close_def
  by (intro quiet_rules sent_ok)+

lemma quiet_run:
  assumes "c_servinfo ch \<noteq> None" and "\<forall>h. c \<noteq> Do (GGetAtom h)"
  shows "keeps (quiet call_ok n tls ch) K (sys_run L E junk c)"
proof (cases c)
  case (Do op)
  with assms show ?thesis by (cases op) (simp_all add: quiet_requests quiet_storeAtom)
qed (simp_all add: quiet_unguarded)

text \<open>The only callback that makes requests asks for the values of atoms.\<close>

definition asks_values :: "((handler, 'h Pkt) Msg bufcall \<Rightarrow> bool) \<Rightarrow> bool" where
  "asks_values C \<longleftrightarrow> (\<forall>sq sub d.
     C (BInsert \<lparr>m_handler = Some DecodeKvpList, m_sequence = sq, m_noreply = False, m_str = ''(cog-keys->alist '' @ sub @ '')'' @ [NL], m_data = d\<rparr>))"

lemma quiet_atoms_loop:
  assumes "asks_values C"
  shows "keeps (quiet C n tls ch) benign (cog_atoms_loop fuel L table expr e l)"
proof (induction fuel arbitrary: l)
  case (Suc fuel)
  have r: "keeps (quiet C n tls ch) benign (lift_res (substr expr l k))" for l k
    by (rule keepsI) (simp add: wp_lift_res substr_def)
  have q: "keeps (quiet C n tls ch) benign (on_chan (chan_enqueue DecodeKvpList (''(cog-keys->alist '' @ sub @ '')'' @ [NL]) d))" for sub d
    by (rule quiet_enqueue) (use assms in \<open>simp only: asks_values_def\<close>)
  show ?case
    unfolding cog_atoms_loop.simps
    by (intro keeps_bnd keeps_seq keeps_pair keeps_if keeps_ret keeps_gets quiet_as quiet_fid keeps_lib_call keeps_lift_lib r q Suc.IH benign_simps)
qed (auto intro: keeps_throw)

lemma quiet_callback:
  assumes "cb = DecodeAtomList \<Longrightarrow> asks_values C"
  shows "keeps (quiet C n tls ch) benign (cog_callback L cb reply pkt)"
proof (cases cb)
  case DecodeValue
  have "keeps (\<lambda>_. True) benign (bnd (gets (\<lambda>w. getAtomSpace L w h)) (\<lambda>as.
      bnd (case as of None \<Rightarrow> ret vp | Some a \<Rightarrow> lib_call (sexpr_add_atoms L a vp)) (\<lambda>vp. modify (setValue L h key vp))))" for h key vp
    by (intro quiet_rules keeps_modify) auto
  then show ?thesis
    unfolding DecodeValue cog_callback.simps cog_decode_value_def
    by (intro quiet_as keeps_bnd keeps_lift_lib keeps_pair) (auto split: option.splits intro!: keeps_throw)
next
  case DecodeKvpList
  then show ?thesis by (auto simp: cog_decode_kvp_list_def intro!: quiet_rules)
next
  case DecodeAtomList
  then have "asks_values C" by (rule assms)
  then show ?thesis
    unfolding DecodeAtomList cog_callback.simps cog_decode_atom_list_def Let_def by (intro keeps_if keeps_ret quiet_atoms_loop)
qed (auto intro: keeps_ret)

lemma asks_values_ok: "asks_values call_ok"
  unfolding asks_values_def by (intro allI sent_ok)

section \<open>A thread and its socket\<close>

text \<open>A server that lets clients in: the first address accepts, and a new connection is greeted with a
  prompt that arrives as one segment once \<open>sexpr\<close> is sent.\<close>

definition hospitable :: "'srv env \<Rightarrow> addrinfo \<Rightarrow> bool" where
  "hospitable E a \<longleftrightarrow>
     (\<forall>fd x. accepts E a x \<and>
        (\<exists>v. snd (on_accept E a fd x) @ snd (on_data E fd (''sexpr'' @ [NL]) (fst (on_accept E a fd x))) = [Seg v] \<and>
           v \<noteq> [] \<and> length v \<le> chan_bufsize \<and> strip v \<noteq> []))"

text \<open>What a thread's turn on the network leaves: its socket is open and in step, the other sockets are
  as they were, and if the thread had no socket, its socket is the next one of the pool, counted and
  owned by the channel.\<close>

definition moved :: "('c, 'd, 'srv) cst \<Rightarrow> ('c, 'd, 'srv) cst \<Rightarrow> bool" where
  "moved x z \<longleftrightarrow> worker_in_sync z \<and>
     x_chan z = (x_chan x)\<lparr>c_nsocks := c_nsocks (x_chan x) + (if x_fd x = 0 then 1 else 0)\<rparr> \<and>
     (\<forall>f. f \<noteq> x_fd z \<longrightarrow> rx (x_net z) f = rx (x_net x) f) \<and>
     (if x_fd x = 0
      then fd_pool (x_net x) = x_fd z # fd_pool (x_net z) \<and> open_fds (x_net z) = x_fd z # open_fds (x_net x) \<and>
        t_owner (x_tls z) = Some (c_id (x_chan x))
      else x_tls z = x_tls x \<and> fd_pool (x_net z) = fd_pool (x_net x) \<and> open_fds (x_net z) = open_fds (x_net x))"

definition can_talk :: "addrinfo \<Rightarrow> ('c, 'd, 'srv) cst \<Rightarrow> bool" where
  "can_talk a x \<longleftrightarrow> (\<exists>as. c_servinfo (x_chan x) = Some (a # as)) \<and>
     (if x_fd x = 0 then \<exists>fd fds. fd_pool (x_net x) = fd # fds \<and> 0 < fd \<and> fd \<notin> set (open_fds (x_net x))
      else worker_in_sync x)"

text \<open>A property of the server that new connections do not change.\<close>

definition steady :: "'srv env \<Rightarrow> addrinfo \<Rightarrow> ('srv \<Rightarrow> bool) \<Rightarrow> bool" where
  "steady E a P \<longleftrightarrow> (\<forall>fd x. P x \<longrightarrow> P (fst (on_data E fd (''sexpr'' @ [NL]) (fst (on_accept E a fd x)))))"

lemma first_send:
  assumes "protocol E" and "hospitable E a" and "can_talk a x"
  shows "\<exists>z. chan_do_send E msg x = chan_do_send E msg z \<and> moved x z \<and>
    (\<forall>P. steady E a P \<longrightarrow> P (srv (x_net x)) \<longrightarrow> P (srv (x_net z)))"
proof (cases "x_fd x = 0")
  case False
  with assms(3) show ?thesis by (intro exI [of _ x]) (simp add: can_talk_def moved_def)
next
  case True
  with assms(3) obtain as fd fds where x: "c_servinfo (x_chan x) = Some (a # as)" "fd_pool (x_net x) = fd # fds" "0 < fd"
    "fd \<notin> set (open_fds (x_net x))" by (auto simp: can_talk_def)
  obtain x1 e1 where a1: "on_accept E a fd (srv (x_net x)) = (x1, e1)" by fastforce
  obtain x2 e2 where d2: "on_data E fd (''sexpr'' @ [NL]) x1 = (x2, e2)" by fastforce
  from assms(2) a1 d2 obtain v where v: "accepts E a (srv (x_net x))" "e1 @ e2 = [Seg v]" "v \<noteq> []" "length v \<le> chan_bufsize" "strip v \<noteq> []"
    unfolding hospitable_def by (metis fst_conv snd_conv)
  have up: "\<not> broken E fd x1" using protocolD(1) [OF assms(1) d2] .
  let ?m = "(x_net x)\<lparr>fd_pool := fds, open_fds := fd # open_fds (x_net x), srv := x1, rx := (rx (x_net x))(fd := e1)\<rparr>"
  have conn: "chan_connect_loop E (a # as) x = (Inr (Some fd), x\<lparr>x_net := ?m\<rparr>)"
    using x v(1) a1 by (simp add: bnd_def zoom_def sys_socket_def sys_connect_def ret_def)
  let ?z = "x\<lparr>x_net := set_rx fd [] (sent fd (''sexpr'' @ [NL]) x2 e2 ?m), x_chan := (x_chan x)\<lparr>c_nsocks := c_nsocks (x_chan x) + 1\<rparr>,
      x_tls := \<lparr>t_sockfd = fd, t_owner = Some (c_id (x_chan x))\<rparr>\<rparr>"
  have os: "chan_open_sock E x = (Inr fd, ?z)"
    using x conn up d2 v
    by (simp add: chan_open_sock_def bnd_def seq_def gets_def ret_def zoom_def sys_send_def modify_def
        chan_prompt_run [of _ v "[]"] sent_def del: chan_connect_loop.simps)
  have "chan_do_send E msg x = chan_do_send E msg ?z"
    using True x(3) by (simp add: chan_do_send_def bnd_def seq_def gets_def ret_def os set_tls_fd_def modify_def)
  moreover have "moved x ?z"
    using True x(2,3) by (simp add: moved_def worker_in_sync_def sent_def set_rx_def idle_only_def)
  moreover have "P (srv (x_net ?z))" if "steady E a P" "P (srv (x_net x))" for P
  proof -
    have "x2 = fst (on_data E fd (''sexpr'' @ [NL]) (fst (on_accept E a fd (srv (x_net x)))))" unfolding a1 fst_conv d2 ..
    with that show ?thesis by (simp add: steady_def sent_def set_rx_def)
  qed
  ultimately show ?thesis by blast
qed

lemma moved_trans: "moved x y \<Longrightarrow> moved y z \<Longrightarrow> moved x z"
  unfolding moved_def worker_in_sync_def by (auto split: if_splits)

lemma thread_send_silent:
  assumes "protocol E" and "worker_in_sync x" and "noreply msg"
  shows "\<exists>z. chan_do_send E msg x = (Inr (), z) \<and> moved x z \<and> srv (x_net z) = fst (on_data E (x_fd z) msg (srv (x_net x)))"
proof -
  obtain s evs where d: "on_data E (x_fd x) msg (srv (x_net x)) = (s, evs)" by fastforce
  from protocolD(1) [OF assms(1) d] protocolD(3) [OF assms(1) d assms(3)] chan_do_send_open [OF _ _ _ d] assms(2) show ?thesis
    by (auto simp: worker_in_sync_def moved_def sent_def d)
qed

lemma thread_exchange:
  assumes "protocol E" and "worker_in_sync x" and "wants_reply msg"
  shows "\<exists>z m. seq (chan_do_send E msg) (chan_do_recv False) x = (Inr m, z) \<and> moved x z \<and>
    srv (x_net z) = fst (on_data E (x_fd x) msg (srv (x_net x))) \<and> is_reply (snd (on_data E (x_fd x) msg (srv (x_net x)))) m"
proof -
  obtain s evs where d: "on_data E (x_fd x) msg (srv (x_net x)) = (s, evs)" by fastforce
  from protocolD(2) [OF assms(1) d assms(3)] obtain m where m: "is_reply evs m" ..
  let ?y = "x\<lparr>x_net := sent (x_fd x) msg s evs (x_net x)\<rparr>"
  have send: "chan_do_send E msg x = (Inr (), ?y)"
    using protocolD(1) [OF assms(1) d] chan_do_send_open [OF _ _ _ d] assms(2) by (simp add: worker_in_sync_def)
  from assms(2) cf.recv_is_reply [OF _ m, of "rx (x_net x) (x_fd x)" "[]"] obtain idle where
    "recv_loop chan_bufsize False True [] (rx (x_net x) (x_fd x) @ evs) = (RxReply m, idle)" "idle_only idle"
    by (auto simp: worker_in_sync_def)
  with chan_do_recv_run [of ?y False m idle] assms(2) send m d show ?thesis
    by (auto simp: worker_in_sync_def moved_def sent_def set_rx_def seq_def bnd_def)
qed

section \<open>A turn\<close>

text \<open>What a thread leaves of the channel's state \<open>x\<close>: its socket is in step, and the messages it wants
  to insert are well-formed.\<close>

definition turned :: "((handler, 'h Pkt) Msg bufcall \<Rightarrow> bool) \<Rightarrow> (handler, 'h Pkt, 'srv) cst \<Rightarrow> ('h, 'w, 'srv) cog \<Rightarrow> bool" where
  "turned C x g \<longleftrightarrow> (\<exists>z. moved x z \<and> quiet C (x_net z) (x_tls z) (chan_of z) g)"

lemma first_exchange:
  assumes "protocol E" and "hospitable E a" and "can_talk a x" and "wants_reply msg"
  shows "\<exists>z m. seq (chan_do_send E msg) (chan_do_recv False) x = (Inr m, z) \<and> moved x z"
proof -
  from first_send [OF assms(1-3)] obtain w where w: "chan_do_send E msg x = chan_do_send E msg w" "moved x w" by blast
  from w(2) have "worker_in_sync w" by (simp add: moved_def)
  from thread_exchange [OF assms(1) this assms(4)] w show ?thesis
    by (auto simp: seq_def bnd_def intro: moved_trans)
qed

lemma first_silent:
  assumes "protocol E" and "hospitable E a" and "can_talk a x" and "noreply msg"
  shows "\<exists>z x'. chan_do_send E msg x = (Inr (), z) \<and> moved x z \<and> srv (x_net z) = fst (on_data E (x_fd z) msg x') \<and>
    (\<forall>P. steady E a P \<longrightarrow> P (srv (x_net x)) \<longrightarrow> P x')"
proof -
  from first_send [OF assms(1-3)] obtain w where w: "chan_do_send E msg x = chan_do_send E msg w" "moved x w"
    "\<forall>P. steady E a P \<longrightarrow> P (srv (x_net x)) \<longrightarrow> P (srv (x_net w))" by blast
  from w(2) have "worker_in_sync w" by (simp add: moved_def)
  from thread_send_silent [OF assms(1) this assms(4)] obtain z where
    z: "chan_do_send E msg w = (Inr (), z)" "moved w z" "srv (x_net z) = fst (on_data E (x_fd z) msg (srv (x_net w)))" by blast
  with w moved_trans [OF w(2) z(2)] show ?thesis by auto
qed

lemma handler_turn:
  assumes "protocol E" and "hospitable E a" and "can_talk a x" and "msg_ok m"
  shows "\<exists>r z. chan_reply_handler E m x = (Inr r, z) \<and> moved x z \<and> (r \<noteq> None \<longrightarrow> m_handler m \<noteq> None)"
proof (cases "m_noreply m")
  case True
  with assms(4) have "noreply (m_str m)" by (simp add: msg_ok_def)
  from first_silent [OF assms(1-3) this] True show ?thesis by (auto simp: chan_reply_handler_def seq_def bnd_def ret_def)
next
  case False
  with assms(4) have "wants_reply (m_str m)" "m_handler m \<noteq> None" by (simp_all add: msg_ok_def)
  from first_exchange [OF assms(1-3) this(1)] this(2) False show ?thesis
    by (auto simp: chan_reply_handler_def seq_def bnd_def ret_def split: prod.splits sum.splits)
qed

lemma quiet_turned:
  assumes "keeps (quiet C (x_net z) (x_tls z) (chan_of z)) benign k" and "moved x z" and "c_calls (x_chan z) = []"
  shows "wp k (\<lambda>_. turned C x) (\<lambda>e s'. benign e \<and> turned C x s') (s\<lparr>g_x := z\<rparr>)"
proof -
  have "quiet C (x_net z) (x_tls z) (chan_of z) (s\<lparr>g_x := z\<rparr>)" using assms(3) by (simp add: quiet_def)
  from keepsD [OF assms(1) this] show ?thesis by (rule wp_mono) (use assms(2) in \<open>auto simp: turned_def\<close>)
qed

lemma work_turn:
  assumes "protocol E" and "hospitable E a" and "can_talk a (g_x s)" and "msg_ok m" and "calls s = []"
  shows "wp (cog_work L E m) (\<lambda>_. turned call_ok (g_x s)) (\<lambda>e s'. benign e \<and> turned call_ok (g_x s) s') s"
proof -
  from handler_turn [OF assms(1-4)] obtain r z where
    z: "chan_reply_handler E m (g_x s) = (Inr r, z)" "moved (g_x s) z" "r \<noteq> None \<Longrightarrow> m_handler m \<noteq> None" by blast
  let ?k = "case r of None \<Rightarrow> ret () | Some reply \<Rightarrow>
    (case m_handler m of None \<Rightarrow> throw NullHandle | Some cb \<Rightarrow> cog_callback L cb reply (m_data m))"
  have run: "cog_work L E m s = ?k (s\<lparr>g_x := z\<rparr>)" using z(1) by (simp add: cog_work_def bnd_def zoom_def)
  have k: "keeps (quiet call_ok n tls ch) benign ?k" for n tls ch
    by (intro keeps_option keeps_ret keeps_throw quiet_callback asks_values_ok benign_simps)
  have "wp ?k (\<lambda>_. turned call_ok (g_x s)) (\<lambda>e s'. benign e \<and> turned call_ok (g_x s) s') (s\<lparr>g_x := z\<rparr>)"
    by (rule quiet_turned [OF k z(2)]) (use z(2) assms(5) in \<open>simp add: moved_def\<close>)
  with run show ?thesis by (simp only: wp_def)
qed

lemma getAtom_turn:
  assumes "protocol E" and "hospitable E a" and "can_talk a (g_x s)" and "calls s = []"
  shows "wp (cog_getAtom L E junk h) (\<lambda>_. turned call_ok (g_x s)) (\<lambda>e s'. benign e \<and> turned call_ok (g_x s) s') s"
proof -
  from first_exchange [OF assms(1-3) cog_msgs_reply(3) [of L "g_as s" h]] obtain r z where
    z: "chan_synchro E (cog_iknow_msg L (g_as s) h) (g_x s) = (Inr r, z)" "moved (g_x s) z"
    unfolding chan_synchro_def by blast
  let ?k = "if p_table (cog_is_ok r (raw_pkt junk)) = Null then ret ()
      else on_chan (chan_enqueue DecodeKvpList (cog_get_keys_msg L (g_as s) h) \<lparr>p_table = Null, p_h = Some h, p_key = None\<rparr>)"
  have "cog_connected s" using assms(3) by (auto simp: can_talk_def cog_connected_def chan_connected_def)
  with z(1) have run: "cog_getAtom L E junk h s = ?k (s\<lparr>g_x := z\<rparr>)"
    by (simp add: cog_getAtom_def seq_def bnd_def gets_def CHECK_OPEN_run zoom_def)
  have k: "keeps (quiet call_ok n tls ch) benign ?k" for n tls ch
    by (intro keeps_if keeps_ret quiet_enqueue sent_ok)
  have "wp ?k (\<lambda>_. turned call_ok (g_x s)) (\<lambda>e s'. benign e \<and> turned call_ok (g_x s) s') (s\<lparr>g_x := z\<rparr>)"
    by (rule quiet_turned [OF k z(2)]) (use z(2) assms(4) in \<open>simp add: moved_def\<close>)
  with run show ?thesis by (simp only: wp_def)
qed

lemma run_turn:
  assumes "protocol E" and "hospitable E a" and "can_talk a (g_x s)" and "calls s = []"
  shows "wp (sys_run L E junk c) (\<lambda>_ s'. turned call_ok (g_x s) s' \<or> quiet call_ok (x_net (g_x s)) (x_tls (g_x s)) (chan_of (g_x s)) s')
    (\<lambda>e s'. benign e \<and> (turned call_ok (g_x s) s' \<or> quiet call_ok (x_net (g_x s)) (x_tls (g_x s)) (chan_of (g_x s)) s')) s"
proof (cases "\<exists>h. c = Do (GGetAtom h)")
  case True
  then obtain h where c: "c = Do (GGetAtom h)" ..
  then show ?thesis
    unfolding c sys_run.simps cog_run.simps by (intro wp_mono [OF getAtom_turn [OF assms]]) auto
next
  case False
  have q: "quiet call_ok (x_net (g_x s)) (x_tls (g_x s)) (chan_of (g_x s)) s" using assms(4) by (simp add: quiet_def)
  have i: "c_servinfo (chan_of (g_x s)) \<noteq> None" using assms(3) by (auto simp: can_talk_def)
  have n: "\<forall>h. c \<noteq> Do (GGetAtom h)" using False by blast
  show ?thesis by (rule wp_mono [OF keepsD [OF quiet_run [OF i n] q]]) auto
qed

section \<open>The threads and their sockets\<close>

text \<open>Every thread's socket is open and in step, no two threads have the same one, and there are
  descriptors left for the threads that have none yet.\<close>

definition wired :: "(nat \<Rightarrow> int) \<Rightarrow> 'srv net \<Rightarrow> bool" where
  "wired fds n \<longleftrightarrow>
     (\<forall>t \<le> NTHREADS. fds t = 0 \<or> 0 < fds t \<and> fds t \<in> set (open_fds n) \<and> idle_only (rx n (fds t))) \<and>
     (\<forall>t \<le> NTHREADS. \<forall>u \<le> NTHREADS. fds t = fds u \<longrightarrow> fds t = 0 \<or> t = u) \<and>
     distinct (fd_pool n) \<and> (\<forall>f \<in> set (fd_pool n). 0 < f \<and> f \<notin> set (open_fds n)) \<and>
     card {t. t \<le> NTHREADS \<and> fds t = 0} \<le> length (fd_pool n)"

lemma wired_can_talk:
  assumes "wired fds (x_net x)" and "t \<le> NTHREADS" and "x_fd x = fds t" and "c_servinfo (x_chan x) = Some (a # as)"
  shows "can_talk a x"
proof (cases "fds t = 0")
  case True
  with assms(2) have "0 < card {t. t \<le> NTHREADS \<and> fds t = 0}" by (auto simp: card_gt_0_iff)
  also have "\<dots> \<le> length (fd_pool (x_net x))" using assms(1) by (simp add: wired_def)
  finally obtain fd fdz where "fd_pool (x_net x) = fd # fdz" by (cases "fd_pool (x_net x)") auto
  with assms True show ?thesis by (auto simp: can_talk_def wired_def)
next
  case False
  with assms show ?thesis by (auto simp: can_talk_def wired_def worker_in_sync_def)
qed

lemma wired_moved:
  assumes "wired fds (x_net x)" and "t \<le> NTHREADS" and "x_fd x = fds t" and "moved x z"
  shows "wired (fds(t := x_fd z)) (x_net z)"
proof (cases "fds t = 0")
  case True
  from assms(3,4) True have m: "worker_in_sync z" "fd_pool (x_net x) = x_fd z # fd_pool (x_net z)"
    "open_fds (x_net z) = x_fd z # open_fds (x_net x)" "\<And>f. f \<noteq> x_fd z \<Longrightarrow> rx (x_net z) f = rx (x_net x) f"
    by (auto simp: moved_def)
  have new: "fds u \<noteq> x_fd z" if "u \<le> NTHREADS" for u
    using assms(1) that m(2) unfolding wired_def by (metis less_irrefl list.set_intros(1))
  have "{u. u \<le> NTHREADS \<and> fds u = 0} = insert t {u. u \<le> NTHREADS \<and> (fds(t := x_fd z)) u = 0}"
    using assms(2) True m(1) by (auto simp: worker_in_sync_def)
  then have "card {u. u \<le> NTHREADS \<and> fds u = 0} = Suc (card {u. u \<le> NTHREADS \<and> (fds(t := x_fd z)) u = 0})"
    using m(1) by (simp add: worker_in_sync_def)
  with assms(1) m(2) have c: "card {u. u \<le> NTHREADS \<and> (fds(t := x_fd z)) u = 0} \<le> length (fd_pool (x_net z))"
    by (simp add: wired_def)
  have live: "\<forall>u \<le> NTHREADS. (fds(t := x_fd z)) u = 0 \<or> 0 < (fds(t := x_fd z)) u \<and> (fds(t := x_fd z)) u \<in> set (open_fds (x_net z)) \<and>
      idle_only (rx (x_net z) ((fds(t := x_fd z)) u))"
    using assms(1) m new by (auto simp: wired_def worker_in_sync_def)
  have inj: "\<forall>u \<le> NTHREADS. \<forall>v \<le> NTHREADS. (fds(t := x_fd z)) u = (fds(t := x_fd z)) v \<longrightarrow> (fds(t := x_fd z)) u = 0 \<or> u = v"
    using assms(1) new by (auto simp: wired_def) (metis new)+
  from assms(1) m(2,3) have "distinct (fd_pool (x_net z))" "\<forall>f \<in> set (fd_pool (x_net z)). 0 < f \<and> f \<notin> set (open_fds (x_net z))"
    by (auto simp: wired_def)
  with c live inj show ?thesis unfolding wired_def by blast
next
  case False
  with assms(3,4) have m: "worker_in_sync z" "x_fd z = fds t" "fd_pool (x_net z) = fd_pool (x_net x)"
    "open_fds (x_net z) = open_fds (x_net x)" "\<And>f. f \<noteq> fds t \<Longrightarrow> rx (x_net z) f = rx (x_net x) f"
    by (auto simp: moved_def)
  have "idle_only (rx (x_net z) (fds u))" if "u \<le> NTHREADS" "fds u \<noteq> 0" for u
    using assms(1,2) that m by (cases "fds u = fds t") (auto simp: wired_def worker_in_sync_def)
  with assms(1) m show ?thesis by (simp add: wired_def) blast
qed

definition fd_of :: "('h, 'w, 'srv, 'b) sys \<Rightarrow> nat \<Rightarrow> int" where
  "fd_of y t = t_sockfd (y_tls y t)"

definition sys_net :: "('h, 'w, 'srv, 'b) sys \<Rightarrow> 'srv net" where
  "sys_net y = x_net (g_x (y_node y))"

definition sys_ok :: "((handler, 'h Pkt) Msg, 'b) async_buffer \<Rightarrow> addrinfo \<Rightarrow> ('h, 'w, 'srv, 'b) sys \<Rightarrow> bool" where
  "sys_ok B a y \<longleftrightarrow> (\<exists>as. c_servinfo (x_chan (g_x (y_node y))) = Some (a # as)) \<and> wired (fd_of y) (sys_net y) \<and>
     (\<forall>m \<in> set (ab_pending B (y_buf y)). msg_ok m) \<and> list_all call_ok (y_todo y)"

lemma as_thread_fields [simp]:
  "x_net (g_x (as_thread t y)) = sys_net y" "x_tls (g_x (as_thread t y)) = y_tls y t" "calls (as_thread t y) = []"
  "c_servinfo (x_chan (g_x (as_thread t y))) = c_servinfo (x_chan (g_x (y_node y)))"
  "chan_of (g_x (as_thread t y)) = chan_of (g_x (y_node y))"
  by (simp_all add: as_thread_def sys_net_def chan_of_def)

lemma sys_can_talk: "sys_ok B a y \<Longrightarrow> t \<le> NTHREADS \<Longrightarrow> can_talk a (g_x (as_thread t y))"
  unfolding sys_ok_def by (auto intro: wired_can_talk [where fds = "fd_of y" and t = t] simp: fd_of_def)

text \<open>What a thread leaves after a call or a turn.\<close>

definition left_by :: "nat \<Rightarrow> ('h, 'w, 'srv, 'b) sys \<Rightarrow> ('h, 'w, 'srv) cog \<Rightarrow> bool" where
  "left_by t y g \<longleftrightarrow> turned call_ok (g_x (as_thread t y)) g \<or> quiet call_ok (sys_net y) (y_tls y t) (chan_of (g_x (y_node y))) g"

lemma left_by_ok:
  assumes "sys_ok B a y" and "t \<le> NTHREADS" and "left_by t y g"
  shows "list_all call_ok (calls g)" and "\<exists>as. c_servinfo (x_chan (g_x g)) = Some (a # as)" and "wired (fd_of (after t g y)) (x_net (g_x g))"
proof -
  have fd: "fd_of (after t g y) = (fd_of y)(t := x_fd (g_x g))" by (rule ext) (simp add: fd_of_def after_def)
  have w: "wired (fd_of y) (sys_net y)" using assms(1) by (simp add: sys_ok_def)
  from assms(3) consider (turned) z where "moved (g_x (as_thread t y)) z" "quiet call_ok (x_net z) (x_tls z) (chan_of z) g"
    | (quiet) "quiet call_ok (sys_net y) (y_tls y t) (chan_of (g_x (y_node y))) g"
    unfolding left_by_def turned_def by blast
  then have "list_all call_ok (calls g) \<and> (\<exists>as. c_servinfo (x_chan (g_x g)) = Some (a # as)) \<and> wired (fd_of (after t g y)) (x_net (g_x g))"
  proof cases
    case turned
    from wired_moved [OF _ assms(2) _ turned(1), of "fd_of y"] w have "wired ((fd_of y)(t := x_fd z)) (x_net z)" by (simp add: fd_of_def)
    moreover have "c_servinfo (x_chan (g_x g)) = c_servinfo (x_chan (g_x (y_node y)))"
      using quiet_fields(1) [OF turned(2)] turned(1) by (simp add: moved_def)
    ultimately show ?thesis using turned(2) assms(1) by (auto simp: fd quiet_def sys_ok_def)
  next
    case quiet
    then have "(fd_of y)(t := x_fd (g_x g)) = fd_of y" by (auto simp: fd_of_def quiet_def)
    with quiet quiet_fields(1) [OF quiet] w assms(1) show ?thesis by (simp add: fd quiet_def sys_ok_def)
  qed
  then show "list_all call_ok (calls g)" "\<exists>as. c_servinfo (x_chan (g_x g)) = Some (a # as)" "wired (fd_of (after t g y)) (x_net (g_x g))" by auto
qed

lemma call_left:
  assumes "protocol E" and "hospitable E a" and "sys_ok B a y" and "sys_run L E junk c (as_thread NTHREADS y) = (r, g)"
  shows "left_by NTHREADS y g \<and> (\<forall>e. r = Inl e \<longrightarrow> benign e)"
  using run_turn [OF assms(1,2) sys_can_talk [OF assms(3) order_refl], of L junk c] assms(4)
  by (auto simp: wp_def left_by_def split: sum.splits)

lemma work_left:
  assumes "protocol E" and "hospitable E a" and "sys_ok B a y" and "t \<le> NTHREADS" and "msg_ok m"
    and "cog_work L E m (as_thread t y) = (r, g)"
  shows "left_by t y g \<and> (\<forall>e. r = Inl e \<longrightarrow> benign e)"
  using work_turn [OF assms(1,2) sys_can_talk [OF assms(3,4)] assms(5), of L] assms(6)
  by (auto simp: wp_def left_by_def split: sum.splits)

section \<open>The invariant\<close>

lemma put_call_ok:
  assumes "async_buffer_ok eqv B" and "\<forall>m \<in> set (ab_pending B b). msg_ok m" and "call_ok c"
  shows "\<forall>m \<in> set (ab_pending B (put_call B c b)). msg_ok m"
proof (cases c)
  case (BInsert k)
  from assms(1) have "set (ab_pending B (ab_insert B k b)) \<subseteq> insert k (set (ab_pending B b))" by (auto simp: async_buffer_ok_def)
  with assms(2,3) BInsert show ?thesis by auto
qed (use assms(2) in auto)

lemma put_calls_ok:
  assumes "async_buffer_ok eqv B"
  shows "\<forall>m \<in> set (ab_pending B b). msg_ok m \<Longrightarrow> list_all call_ok cs \<Longrightarrow> \<forall>m \<in> set (ab_pending B (fold (put_call B) cs b)). msg_ok m"
proof (induction cs arbitrary: b)
  case (Cons c cs)
  have "\<forall>m \<in> set (ab_pending B (put_call B c b)). msg_ok m"
    by (rule put_call_ok [OF assms Cons.prems(1)]) (use Cons.prems(2) in simp)
  with Cons.IH Cons.prems(2) show ?case by simp
qed simp

lemma sys_ok_take: "async_buffer_ok eqv B \<Longrightarrow> sys_ok B a y \<Longrightarrow> sys_ok B a (y\<lparr>y_buf := ab_take B m (y_buf y)\<rparr>)"
  by (auto simp: sys_ok_def async_buffer_ok_def sys_net_def fd_of_def [abs_def])

lemma turn_keeps:
  assumes "async_buffer_ok msg_equiv B" and "protocol E" and "hospitable E a" and "sys_ok B a y" and "t \<le> NTHREADS" and "msg_ok m"
    and "turn B L E t m y y'"
  shows "sys_ok B a y'"
proof -
  from assms(7) obtain g where g: "cog_work L E m (as_thread t y) = (Inr (), g)"
    "y' = (after t g y)\<lparr>y_buf := fold (put_call B) (calls g) (y_buf y)\<rparr>" by cases
  from work_left [OF assms(2-6) g(1)] have "left_by t y g" ..
  note l = left_by_ok [OF assms(4,5) this]
  have "\<forall>m \<in> set (ab_pending B (fold (put_call B) (calls g) (y_buf y))). msg_ok m"
    by (rule put_calls_ok [OF assms(1) _ l(1)]) (use assms(4) in \<open>simp add: sys_ok_def\<close>)
  with l(2,3) assms(4) show ?thesis by (simp add: g(2) sys_ok_def sys_net_def fd_of_def [abs_def] after_def)
qed

lemma turns_keeps:
  assumes "turns B L E k ts y y'" and "async_buffer_ok msg_equiv B" and "protocol E" and "hospitable E a" and "msg_ok k"
  shows "sys_ok B a y \<Longrightarrow> \<forall>t \<in> set ts. t \<le> NTHREADS \<Longrightarrow> sys_ok B a y'"
  using assms(1) by (induction rule: turns.induct) (auto intro: turn_keeps [OF assms(2-4) _ _ assms(5)])

lemma sstep_keeps:
  assumes "async_buffer_ok msg_equiv B" and "protocol E" and "hospitable E a" and "sstep B L E l y y'" and "sys_ok B a y"
  shows "sys_ok B a y'"
  using assms(4)
proof cases
  case (call junk c r g)
  from call_left [OF assms(2,3,5) call(4)] have "left_by NTHREADS y g" ..
  from left_by_ok [OF assms(5) order_refl this] assms(5) show ?thesis
    by (simp add: call(2) sys_ok_def sys_net_def fd_of_def [abs_def] after_def)
next
  case (insert m cs)
  with assms(5) put_call_ok [OF assms(1), of "y_buf y" "BInsert m"] show ?thesis
    by (simp add: sys_ok_def sys_net_def fd_of_def [abs_def])
next
  case (other c cs)
  with assms(5) show ?thesis by (simp add: sys_ok_def sys_net_def fd_of_def [abs_def])
next
  case (barrier k cs z)
  with assms(5) have "msg_ok k" "list_all call_ok cs" by (simp_all add: sys_ok_def)
  moreover have "sys_ok B a z" by (rule turns_keeps [OF barrier(5) assms(1-3) \<open>msg_ok k\<close> assms(5)]) auto
  ultimately show ?thesis by (simp add: barrier(2) sys_ok_def sys_net_def fd_of_def [abs_def])
next
  case (work m t)
  with assms(5) have "msg_ok m" by (simp add: sys_ok_def)
  from turn_keeps [OF assms(1-3) sys_ok_take [OF assms(1,5)] _ this work(4)] work(3) show ?thesis by simp
qed

lemma ssteps_keeps:
  assumes "ssteps B L E y0 cs y" and "async_buffer_ok msg_equiv B" and "protocol E" and "hospitable E a" and "sys_ok B a y0"
  shows "sys_ok B a y"
  using assms(1) by (induction rule: ssteps.induct) (auto intro: assms(5) sstep_keeps [OF assms(2-4)])

text \<open>The system after \<open>open\<close>: the address is resolved, no thread has a socket, nothing is queued, and the
  operating system has a descriptor for each thread.\<close>

definition fresh_sys :: "((handler, 'h Pkt) Msg, 'b) async_buffer \<Rightarrow> addrinfo \<Rightarrow> ('h, 'w, 'srv, 'b) sys \<Rightarrow> bool" where
  "fresh_sys B a y \<longleftrightarrow> (\<exists>as. c_servinfo (x_chan (g_x (y_node y))) = Some (a # as)) \<and> (\<forall>t. fd_of y t = 0) \<and>
     ab_pending B (y_buf y) = [] \<and> y_todo y = [] \<and> NTHREADS < length (fd_pool (sys_net y)) \<and> distinct (fd_pool (sys_net y)) \<and>
     (\<forall>f \<in> set (fd_pool (sys_net y)). 0 < f \<and> f \<notin> set (open_fds (sys_net y)))"

lemma fresh_sys_ok: "fresh_sys B a y \<Longrightarrow> sys_ok B a y"
  by (simp add: fresh_sys_def sys_ok_def wired_def flip: atMost_def)

text \<open>C5: in every run of the multi-threaded node every thread keeps a socket of its own in step. With a
  server that lets clients in and keeps to the protocol, however the calls, the workers' turns and the
  barriers interleave, the sockets of the threads are distinct, open and hold idle bytes only; no
  worker's turn on a pending message and no call of the application fails because of a connection.\<close>

theorem cog_workers_in_step:
  assumes "async_buffer_ok msg_equiv B" and "protocol E" and "hospitable E a" and "fresh_sys B a y0" and "ssteps B L E y0 cs y"
  shows "wired (fd_of y) (sys_net y) \<and>
    (\<forall>m t. m \<in> set (ab_pending B (y_buf y)) \<and> t < NTHREADS \<longrightarrow> case_sum benign (\<lambda>_. True) (fst (cog_work L E m (as_thread t y)))) \<and>
    (\<forall>junk c. case_sum benign (\<lambda>_. True) (fst (sys_run L E junk c (as_thread NTHREADS y))))"
proof -
  have ok: "sys_ok B a y" by (rule ssteps_keeps [OF assms(5,1-3) fresh_sys_ok [OF assms(4)]])
  have "case_sum benign (\<lambda>_. True) (fst (cog_work L E m (as_thread t y)))"
    if "m \<in> set (ab_pending B (y_buf y))" "t < NTHREADS" for m t
  proof -
    have "msg_ok m" using ok that(1) by (simp add: sys_ok_def)
    from work_left [OF assms(2,3) ok less_imp_le [OF that(2)] this, of L] show ?thesis
      by (cases "cog_work L E m (as_thread t y)") (auto split: sum.splits)
  qed
  moreover have "case_sum benign (\<lambda>_. True) (fst (sys_run L E junk c (as_thread NTHREADS y)))" for junk c
    using call_left [OF assms(2,3) ok, of L junk c]
    by (cases "sys_run L E junk c (as_thread NTHREADS y)") (auto split: sum.splits)
  ultimately show ?thesis using ok by (simp add: sys_ok_def)
qed

lemma silent_turn:
  assumes "protocol E" and "hospitable E a" and "sys_ok B a y" and "t \<le> NTHREADS" and "msg_ok m" and "m_noreply m"
  shows "\<exists>y'. turn B L E t m y y'"
proof -
  have "noreply (m_str m)" using assms(5,6) by (simp add: msg_ok_def)
  from first_silent [OF assms(1,2) sys_can_talk [OF assms(3,4)] this] assms(6)
  obtain g where "cog_work L E m (as_thread t y) = (Inr (), g)"
    by (auto simp: cog_work_def chan_reply_handler_def seq_def bnd_def ret_def zoom_def)
  then show ?thesis by (blast intro: turn.intros)
qed

lemma fence_turns:
  assumes "async_buffer_ok msg_equiv B" and "protocol E" and "hospitable E a" and "msg_ok k" and "m_noreply k"
  shows "sys_ok B a y \<Longrightarrow> \<forall>t \<in> set ts. t \<le> NTHREADS \<Longrightarrow> \<exists>y'. turns B L E k ts y y'"
proof (induction ts arbitrary: y)
  case (Cons t ts)
  from silent_turn [OF assms(2,3) Cons.prems(1) _ assms(4,5)] Cons.prems(2) obtain y1 where t: "turn B L E t k y y1" by fastforce
  have "sys_ok B a y1" by (rule turn_keeps [OF assms(1-3) Cons.prems(1) _ assms(4) t]) (use Cons.prems(2) in simp)
  with Cons.IH Cons.prems(2) obtain y2 where "turns B L E k ts y1 y2" by fastforce
  with t show ?case by (blast intro: turns.intros)
qed (blast intro: turns.intros)

lemma barrier_progress:
  assumes "async_buffer_ok msg_equiv B" and "protocol E" and "hospitable E a" and "sys_ok B a y"
    and "y_todo y = BBarrierMsg k # cs" and "msg_ok k" and "m_noreply k"
  shows "(\<exists>y'. sstep B L E None y y') \<or>
    (\<exists>m t e g. m \<in> set (ab_pending B (y_buf y)) \<and> t < NTHREADS \<and> cog_work L E m (as_thread t y) = (Inl e, g) \<and> benign e)"
proof (cases "ab_pending B (y_buf y)")
  case Nil
  from fence_turns [OF assms(1-3,6,7,4), of "[0..<NTHREADS]" L] obtain y' where "turns B L E k [0..<NTHREADS] y y'" by auto
  with Nil assms(5) show ?thesis by (blast intro: sstep.barrier)
next
  case (Cons m ms)
  then have m: "m \<in> set (ab_pending B (y_buf y))" by simp
  let ?y = "y\<lparr>y_buf := ab_take B m (y_buf y)\<rparr>"
  have "msg_ok m" using assms(4) m by (simp add: sys_ok_def)
  have t: "(0 :: nat) < NTHREADS" by (simp add: NTHREADS_def)
  obtain r g where w: "cog_work L E m (as_thread 0 y) = (r, g)" by fastforce
  have w': "cog_work L E m (as_thread 0 ?y) = (r, g)" using w by (simp add: as_thread_def)
  show ?thesis
  proof (cases r)
    case (Inl e)
    then have "benign e" using work_left [OF assms(2-4) _ \<open>msg_ok m\<close> w] by simp
    with m t w Inl show ?thesis by blast
  next
    case (Inr u)
    then have "turn B L E 0 m ?y ((after 0 g ?y)\<lparr>y_buf := fold (put_call B) (calls g) (y_buf ?y)\<rparr>)" using w' by (intro turn.intros) simp
    from sstep.work [OF m t this] show ?thesis by blast
  qed
qed

text \<open>While the application waits for a call to carry out what it does to the buffer, something can always
  happen, in particular a barrier returns once nothing is pending; unless a worker has a pending message
  on whose reply the callback throws.\<close>

lemma system_progress:
  assumes "async_buffer_ok msg_equiv B" and "protocol E" and "hospitable E a" and ok: "sys_ok B a y" and "y_todo y = c # cs"
  shows "(\<exists>y'. sstep B L E None y y') \<or>
    (\<exists>m t e g. m \<in> set (ab_pending B (y_buf y)) \<and> t < NTHREADS \<and> cog_work L E m (as_thread t y) = (Inl e, g) \<and> benign e)"
proof -
  from ok assms(5) have "call_ok c" by (simp add: sys_ok_def)
  then consider m where "c = BInsert m" | "c \<in> {BFlush, BClearStats}" | k where "c = BBarrierMsg k" "msg_ok k" "m_noreply k"
    by (cases c) auto
  then show ?thesis
  proof cases
    case 1
    with assms(5) show ?thesis by (blast intro: sstep.insert)
  next
    case 2
    with assms(5) show ?thesis by (blast intro: sstep.other)
  next
    case 3
    show ?thesis by (rule barrier_progress [OF assms(1-3) ok _ 3(2,3)]) (use assms(5) 3(1) in simp)
  qed
qed

section \<open>An example\<close>

text \<open>A server that greets a new client with a prompt, and a node that has just been opened.\<close>

definition small_greeting :: "string \<Rightarrow> recv_ev list" where
  "small_greeting msg = (if msg = ''sexpr'' @ [NL] then [Seg ''> ''] else small_answer msg)"

abbreviation small_host :: "unit env" where
  "small_host \<equiv> small_env small_greeting"

definition small_sys :: "(nat, (nat \<times> nat \<times> nat) list, unit, (handler, nat Pkt) Msg list) sys" where
  "small_sys =
     \<lparr>y_node = (small_cog [])\<lparr>g_x := (g_x (small_cog []))\<lparr>x_chan := (x_chan (g_x (small_cog [])))\<lparr>c_servinfo := Some [7]\<rparr>,
        x_net := (small_net [])\<lparr>fd_pool := [4, 5, 6, 7, 8]\<rparr>\<rparr>\<rparr>,
      y_tls = (\<lambda>_. tlso_new), y_buf = [], y_todo = []\<rparr>"

lemma small_host_protocol: "protocol small_host"
proof -
  have "\<not> wants_reply (''sexpr'' @ [NL])" by (simp add: wants_reply_iff)
  moreover have "\<not> noreply (''sexpr'' @ [NL])" by (simp add: noreply_iff)
  ultimately show ?thesis using small_protocol unfolding protocol_def by (simp add: small_env_def small_greeting_def)
qed

lemma small_hospitable: "hospitable small_host 7"
  by (simp add: hospitable_def small_env_def small_greeting_def chan_bufsize_def strip_def lstrip_def rstrip_def SYN_def)

lemma small_fresh_sys: "fresh_sys small_buffer 7 small_sys"
  by (simp add: fresh_sys_def small_sys_def small_buffer_def fd_of_def sys_net_def tlso_new_def small_net_def NTHREADS_def)

lemma small_sys_connected: "cog_connected (as_thread t small_sys)"
  by (simp add: as_thread_def small_sys_def cog_connected_def chan_connected_def)

lemma small_sys_call:
  assumes "sys_run small_lib small_host Null c (as_thread NTHREADS small_sys) = (r, g)"
  shows "ssteps small_buffer small_lib small_host small_sys [c] ((after NTHREADS g small_sys)\<lparr>y_todo := calls g\<rparr>)"
proof -
  have "sstep small_buffer small_lib small_host (Some c) small_sys ((after NTHREADS g small_sys)\<lparr>y_todo := calls g\<rparr>)"
    by (rule sstep.call [OF _ assms]) (simp add: small_sys_def)
  from ssteps.step [OF ssteps.start this] show ?thesis by simp
qed

lemma small_sys_store:
  "\<exists>y m. ssteps small_buffer small_lib small_host small_sys [Do (GStoreValue 1 2)] y \<and> y_buf y = [m] \<and> m_str m = cog_storeValue_msg small_lib [] 1 2"
proof -
  let ?m = "plain None True (cog_storeValue_msg small_lib [] 1 2) zero_pkt"
  have "cog_storeValue_msg small_lib [] 1 2 \<noteq> ''(cog-update-value!''" by (simp add: cog_storeValue_msg_def)
  moreover have "g_as (as_thread t small_sys) = []" for t by (simp add: as_thread_def small_sys_def)
  ultimately obtain g where
    g: "sys_run small_lib small_host Null (Do (GStoreValue 1 2)) (as_thread NTHREADS small_sys) = (Inr (), g)" "calls g = [BInsert ?m]"
    by (simp add: cog_storeValue_def seq_def bnd_def gets_def CHECK_OPEN_run small_sys_connected enqueue_noreply_run)
  let ?y = "(after NTHREADS g small_sys)\<lparr>y_todo := calls g\<rparr>"
  have "ssteps small_buffer small_lib small_host small_sys [Do (GStoreValue 1 2)] (?y\<lparr>y_buf := ab_insert small_buffer ?m (y_buf ?y), y_todo := []\<rparr>)"
    using ssteps.step [OF small_sys_call [OF g(1)] sstep.insert, of ?m "[]"] by (simp add: g(2))
  moreover have "ab_insert small_buffer ?m (y_buf ?y) = [?m]" by (simp add: small_buffer_def small_sys_def after_def)
  ultimately show ?thesis by (intro exI [of _ ?m] exI) (auto simp: plain_def)
qed

lemma small_sys_kill:
  "\<exists>y k cs. ssteps small_buffer small_lib small_host small_sys [Do GKillData] y \<and> y_buf y = [] \<and> y_todo y = BBarrierMsg k # cs"
proof -
  from kill_data_run [OF small_sys_connected, of Null NTHREADS] obtain g k cs where
    g: "sys_run small_lib small_host Null (Do GKillData) (as_thread NTHREADS small_sys) = (Inr (), g)" "calls g = BBarrierMsg k # cs" by auto
  moreover have "y_buf (after NTHREADS g small_sys) = []" by (simp add: after_def small_sys_def)
  ultimately show ?thesis using small_sys_call [OF g(1)] by fastforce
qed

theorem cog_workers_in_step_witness:
  "\<exists>y m. ssteps small_buffer small_lib small_host small_sys [Do (GStoreValue 1 2)] y \<and> y_buf y = [m] \<and> wired (fd_of y) (sys_net y) \<and>
    case_sum benign (\<lambda>_. True) (fst (cog_work small_lib small_host m (as_thread 3 y)))"
proof -
  from small_sys_store obtain y m where y: "ssteps small_buffer small_lib small_host small_sys [Do (GStoreValue 1 2)] y" "y_buf y = [m]" by blast
  from cog_workers_in_step [OF small_buffer_ok small_host_protocol small_hospitable small_fresh_sys y(1)] y show ?thesis
    by (auto simp: small_buffer_def NTHREADS_def)
qed

end
