(* ===== verification/Lifecycle.thy ===== *)
theory Lifecycle
  imports Workers
begin

text \<open>
  The end of the multi-threaded node: \<open>close\<close> ends the four workers, whose thread-local sockets are
  closed by the destructor \<open>~tlso\<close>, and forgets the address. The destructor also decrements the socket
  counter of the channel that opened the socket, through the pointer \<open>_owner\<close>; the channels that are
  alive are a heap from their addresses.
\<close>

section \<open>The end of a thread\<close>

definition tlso_dtor :: "tlso \<Rightarrow> ((nat \<rightharpoonup> ('c, 'd) chan) \<times> 'srv net, unit) io" where
  "tlso_dtor t =
     bnd (zoom snd apsnd (tlso_exit t)) (\<lambda>owner.
     case owner of
       None \<Rightarrow> ret ()
     | Some i \<Rightarrow>
         bnd (gets (\<lambda>s. fst s i)) (\<lambda>c.
         case c of
           None \<Rightarrow> throw UseAfterFree
         | Some c \<Rightarrow> modify (apfst (\<lambda>chans. chans(i \<mapsto> c\<lparr>c_nsocks := c_nsocks c - 1\<rparr>)))))"

text \<open>The last part of \<open>close\<close>, after \<open>proxy_close\<close> and \<open>barrier\<close>: \<open>close_connection\<close> with the buffer's
  \<open>close\<close> carried out, which joins the workers.\<close>

definition shut :: "('h, 'w, 'srv, 'b) sys \<Rightarrow> cxx_fail + ('h, 'w, 'srv, 'b) sys" where
  "shut y =
     (let x = g_x (y_node y); i = c_id (x_chan x)
      in case for_each (\<lambda>t. tlso_dtor (y_tls y t)) [0..<NTHREADS] ([i \<mapsto> x_chan x], x_net x) of
           (Inl e, _) \<Rightarrow> Inl e
         | (Inr _, chans, n) \<Rightarrow>
             Inr (y\<lparr>y_node := (y_node y)\<lparr>g_x := x\<lparr>x_chan := (the (chans i))\<lparr>c_servinfo := None\<rparr>, x_net := n\<rparr>\<rparr>,
                    y_tls := (\<lambda>t. if t < NTHREADS then tlso_new else y_tls y t)\<rparr>))"

lemma tlso_dtor_run:
  "tlso_dtor t (chans, n) =
     (if t_sockfd t = 0 then (Inr (), chans, n)
      else case t_owner t of
          None \<Rightarrow> (Inr (), chans, snd (sys_close (t_sockfd t) n))
        | Some i \<Rightarrow> (case chans i of
              None \<Rightarrow> (Inl UseAfterFree, chans, snd (sys_close (t_sockfd t) n))
            | Some c \<Rightarrow> (Inr (), chans(i \<mapsto> c\<lparr>c_nsocks := c_nsocks c - 1\<rparr>), snd (sys_close (t_sockfd t) n))))"
  by (simp add: tlso_dtor_def tlso_exit_def seq_def bnd_def zoom_def sys_close_def ret_def gets_def throw_def modify_def
      split: option.splits)

lemma workers_exit:
  assumes "\<And>t. t \<in> set ts \<Longrightarrow> t_sockfd (tls t) \<noteq> 0 \<Longrightarrow> t_owner (tls t) = Some i"
  shows "\<exists>n'. for_each (\<lambda>t. tlso_dtor (tls t)) ts ([i \<mapsto> c], n) =
      (Inr (), [i \<mapsto> c\<lparr>c_nsocks := c_nsocks c - int (length (filter (\<lambda>t. t_sockfd (tls t) \<noteq> 0) ts))\<rparr>], n') \<and>
    set (open_fds n') = set (open_fds n) - {f. \<exists>t \<in> set ts. t_sockfd (tls t) = f \<and> f \<noteq> 0}"
  using assms
proof (induction ts arbitrary: c n)
  case (Cons t ts)
  show ?case
  proof (cases "t_sockfd (tls t) = 0")
    case True
    with Cons.IH [of c n] Cons.prems show ?thesis by (auto simp: seq_def bnd_def tlso_dtor_run)
  next
    case False
    let ?c = "c\<lparr>c_nsocks := c_nsocks c - 1\<rparr>" and ?n = "snd (sys_close (t_sockfd (tls t)) n)"
    have dtor: "tlso_dtor (tls t) ([i \<mapsto> c], n) = (Inr (), [i \<mapsto> ?c], ?n)" using False Cons.prems [of t] by (simp add: tlso_dtor_run)
    have "t_owner (tls u) = Some i" if "u \<in> set ts" "t_sockfd (tls u) \<noteq> 0" for u using Cons.prems that by simp
    from Cons.IH [OF this, of ?c ?n] obtain n' where
      n': "for_each (\<lambda>t. tlso_dtor (tls t)) ts ([i \<mapsto> ?c], ?n) =
          (Inr (), [i \<mapsto> ?c\<lparr>c_nsocks := c_nsocks ?c - int (length (filter (\<lambda>t. t_sockfd (tls t) \<noteq> 0) ts))\<rparr>], n')"
        "set (open_fds n') = set (open_fds ?n) - {f. \<exists>t \<in> set ts. t_sockfd (tls t) = f \<and> f \<noteq> 0}" by blast
    let ?P = "\<lambda>t. t_sockfd (tls t) \<noteq> 0"
    have c: "?c\<lparr>c_nsocks := c_nsocks ?c - int (length (filter ?P ts))\<rparr> = c\<lparr>c_nsocks := c_nsocks c - int (length (filter ?P (t # ts)))\<rparr>"
      using False by simp
    have "for_each (\<lambda>t. tlso_dtor (tls t)) (t # ts) ([i \<mapsto> c], n) = for_each (\<lambda>t. tlso_dtor (tls t)) ts ([i \<mapsto> ?c], ?n)"
      by (simp only: for_each.simps seq_def bnd_def dtor prod.case sum.case)
    with n'(1) have "for_each (\<lambda>t. tlso_dtor (tls t)) (t # ts) ([i \<mapsto> c], n) =
        (Inr (), [i \<mapsto> c\<lparr>c_nsocks := c_nsocks c - int (length (filter ?P (t # ts)))\<rparr>], n')"
      by (simp only: c)
    moreover have "set (open_fds ?n) = set (open_fds n) - {t_sockfd (tls t)}" by (simp add: sys_close_def)
    with n'(2) False have "set (open_fds n') = set (open_fds n) - {f. \<exists>u \<in> set (t # ts). t_sockfd (tls u) = f \<and> f \<noteq> 0}" by auto
    ultimately show ?thesis by blast
  qed
qed (simp add: ret_def)

section \<open>Accounting for the sockets\<close>

text \<open>The open descriptors are those from before the node was opened and one for each thread that has
  used the network; the channel counts and owns the latter.\<close>

definition users :: "(nat \<Rightarrow> int) \<Rightarrow> nat set" where
  "users fds = {t. t \<le> NTHREADS \<and> fds t \<noteq> 0}"

definition accounted :: "('h, 'w, 'srv, 'b) sys \<Rightarrow> ('h, 'w, 'srv, 'b) sys \<Rightarrow> bool" where
  "accounted y0 y \<longleftrightarrow>
     c_id (x_chan (g_x (y_node y))) = c_id (x_chan (g_x (y_node y0))) \<and>
     set (open_fds (sys_net y)) = set (open_fds (sys_net y0)) \<union> fd_of y ` users (fd_of y) \<and>
     fd_of y ` users (fd_of y) \<inter> set (open_fds (sys_net y0)) = {} \<and>
     c_nsocks (x_chan (g_x (y_node y))) = c_nsocks (x_chan (g_x (y_node y0))) + int (card (users (fd_of y))) \<and>
     (\<forall>t \<in> users (fd_of y). t_owner (y_tls y t) = Some (c_id (x_chan (g_x (y_node y0)))))"

lemma users_finite [simp]: "finite (users fds)"
  by (simp add: users_def)

lemma users_upd:
  assumes "t \<le> NTHREADS" and "f \<noteq> 0"
  shows "users (fds(t := f)) = insert t (users fds)"
  using assms by (auto simp: users_def)

lemma fd_of_after: "fd_of (after t g y) = (fd_of y)(t := x_fd (g_x g))"
  by (rule ext) (simp add: fd_of_def after_def)

lemma accounted_moved:
  assumes "accounted y0 y" and "sys_ok B a y" and "t \<le> NTHREADS" and "moved (g_x (as_thread t y)) z"
    and "quiet call_ok (x_net z) (x_tls z) (chan_of z) g"
  shows "accounted y0 (after t g y)"
proof (cases "fd_of y t = 0")
  case True
  have u: "users (fd_of (after t g y)) = insert t (users (fd_of y))" "t \<notin> users (fd_of y)"
    using True assms(3-5) by (auto simp: fd_of_after users_upd quiet_def moved_def worker_in_sync_def) (simp_all add: users_def)
  have f: "fd_of (after t g y) ` users (fd_of (after t g y)) = insert (x_fd z) (fd_of y ` users (fd_of y))"
    using u assms(5) by (auto simp: fd_of_after quiet_def)
  have "x_fd z \<notin> set (open_fds (sys_net y))"
    using True assms(2,4) by (auto simp: moved_def fd_of_def sys_ok_def wired_def)
  then have "x_fd z \<notin> set (open_fds (sys_net y0))" using assms(1) by (simp add: accounted_def)
  moreover have "open_fds (x_net (g_x g)) = x_fd z # open_fds (sys_net y)" "t_owner (x_tls (g_x g)) = Some (c_id (x_chan (g_x (y_node y))))"
    "c_nsocks (x_chan (g_x g)) = c_nsocks (x_chan (g_x (y_node y))) + 1" "c_id (x_chan (g_x g)) = c_id (x_chan (g_x (y_node y)))"
    using True assms(4,5) quiet_fields [OF assms(5)] by (simp_all add: moved_def quiet_def fd_of_def as_thread_def sys_net_def)
  ultimately show ?thesis
    using assms(1) u unfolding accounted_def f by (auto simp: after_def sys_net_def)
next
  case False
  have "fd_of (after t g y) = fd_of y" "y_tls (after t g y) = y_tls y"
    using False assms(4,5) by (auto simp: fd_of_after quiet_def moved_def after_def fd_of_def)
  moreover have "open_fds (x_net (g_x g)) = open_fds (sys_net y)" "c_nsocks (x_chan (g_x g)) = c_nsocks (x_chan (g_x (y_node y)))"
    "c_id (x_chan (g_x g)) = c_id (x_chan (g_x (y_node y)))"
    using False assms(4,5) quiet_fields [OF assms(5)] by (simp_all add: moved_def quiet_def fd_of_def as_thread_def sys_net_def)
  ultimately show ?thesis using assms(1) by (simp add: accounted_def after_def sys_net_def)
qed

lemma left_by_accounted:
  assumes "accounted y0 y" and "sys_ok B a y" and "t \<le> NTHREADS" and "left_by t y g"
  shows "accounted y0 (after t g y)"
  using assms(4) unfolding left_by_def
proof
  assume "turned call_ok (g_x (as_thread t y)) g"
  with accounted_moved [OF assms(1-3)] show ?thesis by (auto simp: turned_def)
next
  assume q: "quiet call_ok (sys_net y) (y_tls y t) (chan_of (g_x (y_node y))) g"
  then have "y_tls (after t g y) = y_tls y" "fd_of (after t g y) = fd_of y" by (auto simp: quiet_def after_def fd_of_def)
  with assms(1) q quiet_fields [OF q] show ?thesis by (simp add: accounted_def quiet_def after_def sys_net_def)
qed

text \<open>What every thread keeps, and what does not depend on the buffer, every step keeps.\<close>

lemma turns_lifts:
  assumes "async_buffer_ok msg_equiv B" and "protocol E" and "hospitable E a" and "msg_ok k"
    and lifts: "\<And>t y g. sys_ok B a y \<Longrightarrow> I y \<Longrightarrow> t \<le> NTHREADS \<Longrightarrow> left_by t y g \<Longrightarrow> I (after t g y)"
    and frame: "\<And>y b cs. I (y\<lparr>y_buf := b, y_todo := cs\<rparr>) = I y"
  shows "turns B L E k ts y y' \<Longrightarrow> \<forall>t \<in> set ts. t \<le> NTHREADS \<Longrightarrow> sys_ok B a y \<Longrightarrow> I y \<Longrightarrow> I y'"
proof (induction rule: turns.induct)
  case (more t y y1 ts y2)
  from more.hyps(1) obtain g where g: "cog_work L E k (as_thread t y) = (Inr (), g)"
    "y1 = (after t g y)\<lparr>y_buf := fold (put_call B) (calls g) (y_buf y)\<rparr>" by cases
  have t: "t \<le> NTHREADS" using more.prems(1) by simp
  from work_left [OF assms(2,3) more.prems(2) t assms(4) g(1)] have "I (after t g y)" by (blast intro: lifts more.prems t)
  then have "I y1" using frame [where y = "after t g y" and b = "y_buf y1" and cs = "y_todo (after t g y)"] by (simp add: g(2))
  moreover have "sys_ok B a y1" by (rule turn_keeps [OF assms(1-3) more.prems(2) t assms(4) more.hyps(1)])
  ultimately show ?case using more.IH more.prems(1) by simp
qed simp

lemma sstep_lifts:
  assumes "async_buffer_ok msg_equiv B" and "protocol E" and "hospitable E a" and "sstep B L E l y y'" and "sys_ok B a y" and "I y"
    and lifts: "\<And>t y g. sys_ok B a y \<Longrightarrow> I y \<Longrightarrow> t \<le> NTHREADS \<Longrightarrow> left_by t y g \<Longrightarrow> I (after t g y)"
    and frame: "\<And>y b cs. I (y\<lparr>y_buf := b, y_todo := cs\<rparr>) = I y"
  shows "I y'"
proof -
  have todo: "I (y\<lparr>y_todo := cs\<rparr>) = I y" for y cs using frame [where y = y and b = "y_buf y" and cs = cs] by simp
  have buf: "I (y\<lparr>y_buf := b\<rparr>) = I y" for y b using frame [where y = y and b = b and cs = "y_todo y"] by simp
  from assms(4) show ?thesis
  proof cases
    case (call junk c r g)
    from call_left [OF assms(2,3,5) call(4)] have "I (after NTHREADS g y)" by (blast intro: lifts assms(5,6))
    with call(2) todo show ?thesis by simp
  next
    case (insert m cs)
    with frame assms(6) show ?thesis by simp
  next
    case (other c cs)
    with todo assms(6) show ?thesis by simp
  next
    case (barrier k cs z)
    with assms(5) have "msg_ok k" by (simp add: sys_ok_def)
    from turns_lifts [OF assms(1-3) this lifts frame barrier(5) _ assms(5,6)] have "I z" by simp
    with barrier(2) todo show ?thesis by simp
  next
    case (work m t)
    let ?y = "y\<lparr>y_buf := ab_take B m (y_buf y)\<rparr>"
    from work(2) assms(5) have "msg_ok m" by (simp add: sys_ok_def)
    have "turns B L E m [t] ?y y'" by (blast intro: turns.intros work(4))
    from turns_lifts [OF assms(1-3) \<open>msg_ok m\<close> lifts frame this _ sys_ok_take [OF assms(1,5)]] work(3) assms(6) buf show ?thesis by simp
  qed
qed

lemma fd_of_frame: "fd_of (y\<lparr>y_buf := b, y_todo := cs\<rparr>) = fd_of y"
  by (rule ext) (simp add: fd_of_def)

lemma accounted_frame: "accounted y0 (y\<lparr>y_buf := b, y_todo := cs\<rparr>) = accounted y0 y"
  by (simp add: accounted_def sys_net_def fd_of_def [abs_def])

lemma fresh_accounted: "fresh_sys B a y \<Longrightarrow> accounted y y"
  by (simp add: fresh_sys_def accounted_def users_def)

lemma ssteps_accounted:
  assumes "async_buffer_ok msg_equiv B" and "protocol E" and "hospitable E a" and "fresh_sys B a y0" and "ssteps B L E y0 cs y"
  shows "sys_ok B a y \<and> accounted y0 y"
  using assms(5)
proof (induction rule: ssteps.induct)
  case start
  with fresh_sys_ok [OF assms(4)] fresh_accounted [OF assms(4)] show ?case by simp
next
  case (step cs y l y')
  from step.IH have "sys_ok B a y" "accounted y0 y" by simp_all
  with sstep_keeps [OF assms(1-3) step.hyps(2)] show ?case
    by (intro conjI) (auto intro: sstep_lifts [OF assms(1-3) step.hyps(2), where I = "accounted y0"] left_by_accounted simp: accounted_frame)
qed

text \<open>A thread that has a socket keeps it.\<close>

lemma left_by_socket:
  assumes "fd_of y u \<noteq> 0" and "left_by t y g"
  shows "fd_of (after t g y) u \<noteq> 0"
  using assms by (auto simp: left_by_def turned_def moved_def quiet_def fd_of_def after_def split: if_splits)

lemma getAtom_socket:
  assumes "protocol E" and "hospitable E a" and "sys_ok B a y"
    and "cog_getAtom L E junk h (as_thread NTHREADS y) = (r, g)"
  shows "fd_of (after NTHREADS g y) NTHREADS \<noteq> 0"
proof -
  from getAtom_turn [OF assms(1,2) sys_can_talk [OF assms(3) order_refl], of L junk h] assms(4)
  have "turned call_ok (g_x (as_thread NTHREADS y)) g" by (cases r) (auto simp: wp_def)
  then show ?thesis by (auto simp: turned_def moved_def quiet_def worker_in_sync_def fd_of_def after_def)
qed

lemma ssteps_getAtom_socket:
  assumes "async_buffer_ok msg_equiv B" and "protocol E" and "hospitable E a" and "sys_ok B a y0" and "ssteps B L E y0 cs y"
    and "Do (GGetAtom h) \<in> set cs"
  shows "fd_of y NTHREADS \<noteq> 0"
  using assms(5,6)
proof (induction rule: ssteps.induct)
  case (step cs y l y')
  have ok: "sys_ok B a y" by (rule ssteps_keeps [OF step.hyps(1) assms(1-4)])
  show ?case
  proof (cases "Do (GGetAtom h) \<in> set cs")
    case True
    show ?thesis
      by (rule sstep_lifts [OF assms(1-3) step.hyps(2) ok, where I = "\<lambda>y. fd_of y NTHREADS \<noteq> 0"])
         (auto simp: fd_of_frame step.IH [OF True] dest: left_by_socket)
  next
    case False
    with step.prems have "l = Some (Do (GGetAtom h))" by (cases l) auto
    with step.hyps(2) obtain junk r g where
      g: "cog_getAtom L E junk h (as_thread NTHREADS y) = (r, g)" "y' = (after NTHREADS g y)\<lparr>y_todo := calls g\<rparr>"
      by cases auto
    from getAtom_socket [OF assms(2,3) ok g(1)] show ?thesis by (simp add: g(2) fd_of_def)
  qed
qed simp

section \<open>Closing the node\<close>

text \<open>\<open>close\<close> of a connected node is \<open>proxy_close\<close>, \<open>barrier\<close> and the closing of the channel.\<close>

lemma close_parts:
  "cog_connected s \<Longrightarrow> cog_close junk s = seq (sys_run L E junk ProxyOff) (seq (sys_run L E junk Barrier) (on_chan chan_close_connection)) s"
  by (simp add: cog_close_def cog_barrier_def bnd_def gets_def)

lemma shut_run:
  assumes "sys_ok B a y" and "accounted y0 y"
  shows "\<exists>y'. shut y = Inr y' \<and> c_servinfo (x_chan (g_x (y_node y'))) = None \<and> (\<forall>t < NTHREADS. fd_of y' t = 0) \<and>
    y_tls y' NTHREADS = y_tls y NTHREADS \<and>
    set (open_fds (sys_net y')) = set (open_fds (sys_net y)) - fd_of y ` (users (fd_of y) - {NTHREADS}) \<and>
    c_nsocks (x_chan (g_x (y_node y'))) = c_nsocks (x_chan (g_x (y_node y))) - int (card (users (fd_of y) - {NTHREADS}))"
proof -
  let ?x = "g_x (y_node y)" and ?P = "\<lambda>t. t_sockfd (y_tls y t) \<noteq> 0"
  have own: "t_owner (y_tls y t) = Some (c_id (x_chan ?x))" if "t \<in> set [0..<NTHREADS]" "?P t" for t
    using assms(2) that by (simp add: accounted_def users_def fd_of_def)
  from workers_exit [where ts = "[0..<NTHREADS]" and tls = "y_tls y" and c = "x_chan ?x" and n = "x_net ?x", OF own] obtain n where
    n: "for_each (\<lambda>t. tlso_dtor (y_tls y t)) [0..<NTHREADS] ([c_id (x_chan ?x) \<mapsto> x_chan ?x], x_net ?x) =
      (Inr (), [c_id (x_chan ?x) \<mapsto> (x_chan ?x)\<lparr>c_nsocks := c_nsocks (x_chan ?x) - int (length (filter ?P [0..<NTHREADS]))\<rparr>], n)"
      "set (open_fds n) = set (open_fds (x_net ?x)) - {f. \<exists>t \<in> set [0..<NTHREADS]. t_sockfd (y_tls y t) = f \<and> f \<noteq> 0}" by blast
  have u: "users (fd_of y) - {NTHREADS} = set (filter ?P [0..<NTHREADS])" by (auto simp: users_def fd_of_def)
  have "card (users (fd_of y) - {NTHREADS}) = length (filter ?P [0..<NTHREADS])" unfolding u by (intro distinct_card) simp
  moreover have "fd_of y ` (users (fd_of y) - {NTHREADS}) = {f. \<exists>t \<in> set [0..<NTHREADS]. t_sockfd (y_tls y t) = f \<and> f \<noteq> 0}"
    unfolding u by (auto simp: fd_of_def image_iff)
  ultimately show ?thesis using n by (simp add: shut_def Let_def sys_net_def fd_of_def tlso_new_def)
qed

lemma users_split:
  assumes "wired (fd_of y) n"
  shows "fd_of y ` users (fd_of y) - fd_of y ` (users (fd_of y) - {NTHREADS}) = fd_of y ` (users (fd_of y) \<inter> {NTHREADS})"
proof -
  have "inj_on (fd_of y) (users (fd_of y))" using assms by (auto simp: wired_def users_def inj_on_def)
  then show ?thesis by (auto simp: inj_on_def)
qed

text \<open>\<open>shut\<close> after any run gives back the sockets of the workers.\<close>

lemma close_releases:
  assumes "async_buffer_ok msg_equiv B" and "protocol E" and "hospitable E a" and "fresh_sys B a y0" and "ssteps B L E y0 cs y"
  shows "\<exists>y'. shut y = Inr y' \<and> \<not> cog_connected (y_node y') \<and> (\<forall>t < NTHREADS. fd_of y' t = 0) \<and>
    set (open_fds (sys_net y')) = set (open_fds (sys_net y0)) \<union> (if fd_of y NTHREADS = 0 then {} else {fd_of y NTHREADS}) \<and>
    c_nsocks (x_chan (g_x (y_node y'))) = c_nsocks (x_chan (g_x (y_node y0))) + (if fd_of y NTHREADS = 0 then 0 else 1)"
proof -
  from ssteps_accounted [OF assms] have y: "sys_ok B a y" "accounted y0 y" by auto
  let ?U = "users (fd_of y)"
  have app: "?U \<inter> {NTHREADS} = (if fd_of y NTHREADS = 0 then {} else {NTHREADS})" by (auto simp: users_def)
  have w: "wired (fd_of y) (sys_net y)" using y(1) by (simp add: sys_ok_def)
  have "card ?U = card (?U - {NTHREADS}) + card (?U \<inter> {NTHREADS})"
    by (metis Int_Diff_disjoint Un_Diff_Int add.commute card_Un_disjoint finite_Diff finite_Int users_finite inf_commute sup_commute)
  then have "int (card ?U) - int (card (?U - {NTHREADS})) = (if fd_of y NTHREADS = 0 then 0 else 1)" by (simp add: app)
  moreover have "set (open_fds (sys_net y)) - fd_of y ` (?U - {NTHREADS}) = set (open_fds (sys_net y0)) \<union> fd_of y ` (?U \<inter> {NTHREADS})"
    using y(2) users_split [OF w] unfolding accounted_def by blast
  moreover from shut_run [OF y] obtain y' where y': "shut y = Inr y'" "c_servinfo (x_chan (g_x (y_node y'))) = None"
    "\<forall>t < NTHREADS. fd_of y' t = 0"
    "set (open_fds (sys_net y')) = set (open_fds (sys_net y)) - fd_of y ` (?U - {NTHREADS})"
    "c_nsocks (x_chan (g_x (y_node y'))) = c_nsocks (x_chan (g_x (y_node y))) - int (card (?U - {NTHREADS}))" by blast
  moreover have "c_nsocks (x_chan (g_x (y_node y))) = c_nsocks (x_chan (g_x (y_node y0))) + int (card ?U)"
    using y(2) by (simp add: accounted_def)
  ultimately show ?thesis
    by (intro exI [of _ y'] conjI) (simp_all add: app cog_connected_def chan_connected_def)
qed

text \<open>A server that answers the probe of \<open>open_connection\<close>, and the system after \<open>open\<close>, which starts the
  workers.\<close>

definition prompts :: "'srv env \<Rightarrow> bool" where
  "prompts E \<longleftrightarrow> (\<forall>fd x. \<exists>w evs. snd (on_data E fd probe_msg x) = Seg w # evs \<and> w \<noteq> [] \<and> length w \<le> chan_bufsize \<and> strip w \<noteq> [])"

definition running :: "('h, 'w, 'srv) cog \<Rightarrow> 'b \<Rightarrow> ('h, 'w, 'srv, 'b) sys" where
  "running g b =
     \<lparr>y_node = g, y_tls = (\<lambda>t. if t = NTHREADS then x_tls (g_x g) else tlso_new), y_buf = b, y_todo = []\<rparr>"

definition enough_fds :: "'srv net \<Rightarrow> bool" where
  "enough_fds n \<longleftrightarrow> Suc NTHREADS < length (fd_pool n) \<and> distinct (fd_pool n) \<and> (\<forall>f \<in> set (fd_pool n). 0 < f \<and> f \<notin> set (open_fds n))"

lemma cog_open_running:
  assumes "protocol E" and "hospitable E a" and "prompts E" and "ab_pending B b = []"
    and "chan_host_port (c_str (g_uri g)) = Inr (uri1, host, port)" and "getaddrinfo E host port = Some (a # as)"
    and "\<not> cog_connected g" and "x_fd (g_x g) = 0" and "enough_fds (x_net (g_x g))"
  shows "\<exists>g'. cog_open E g = (Inr (), g') \<and> fresh_sys B a (running g' b) \<and> open_fds (x_net (g_x g')) = open_fds (x_net (g_x g)) \<and>
    c_nsocks (x_chan (g_x g')) = c_nsocks (x_chan (g_x g)) + 1"
proof -
  let ?x = "g_x g"
  obtain fd fds where pool: "fd_pool (x_net ?x) = fd # fds" using assms(9) by (cases "fd_pool (x_net ?x)") (auto simp: enough_fds_def)
  obtain x1 e1 where a1: "on_accept E a fd (srv (x_net ?x)) = (x1, e1)" by fastforce
  obtain x2 e2 where d2: "on_data E fd (''sexpr'' @ [NL]) x1 = (x2, e2)" by fastforce
  obtain x3 e3 where d3: "on_data E fd probe_msg x2 = (x3, e3)" by fastforce
  from assms(2) a1 d2 obtain v where v: "accepts E a (srv (x_net ?x))" "e1 @ e2 = [Seg v]" "v \<noteq> []" "length v \<le> chan_bufsize" "strip v \<noteq> []"
    unfolding hospitable_def by (metis fst_conv snd_conv)
  from assms(3) d3 obtain w evs where w: "e3 = Seg w # evs" "w \<noteq> []" "length w \<le> chan_bufsize" "strip w \<noteq> []"
    unfolding prompts_def by (metis snd_conv)
  have up: "\<forall>x. \<not> broken E fd x" using assms(1) by (simp add: protocol_def)
  from assms(9) pool have fds: "set (fd_pool (x_net ?x)) \<inter> set (open_fds (x_net ?x)) = {}" "length [] < length (fd_pool (x_net ?x))"
    "fd = fd_pool (x_net ?x) ! length []" "0 < fd"
    by (auto simp: enough_fds_def)
  have addrs: "getaddrinfo E host port = Some ([] @ a # as)" using assms(6) by simp
  from open_connection_run [OF assms(5) addrs assms(8) _ v(1) fds a1 up d2 d3 v(2-5) w] obtain x' where
    x': "chan_open_connection E (c_str (g_uri g)) ?x = (Inr (), x')" "x_fd x' = 0" "open_fds (x_net x') = open_fds (x_net ?x)"
      "c_nsocks (x_chan x') = c_nsocks (x_chan ?x) + 1" "c_servinfo (x_chan x') = Some (a # as)" "fd_pool (x_net x') = fds"
    using pool by auto
  let ?g = "g\<lparr>g_x := x'\<rparr>"
  have "cog_open E g = (Inr (), ?g)" using assms(7) x'(1) by (simp add: cog_open_def bnd_def gets_def zoom_def)
  moreover have "fresh_sys B a (running ?g b)"
    using x' pool assms(4,9) by (simp add: fresh_sys_def running_def fd_of_def tlso_new_def sys_net_def enough_fds_def)
  ultimately show ?thesis using x'(3,4) by (intro exI [of _ ?g]) simp
qed

text \<open>C25: opening, using and closing the multi-threaded node leaves no socket behind but one. With a server
  that lets clients in, \<open>open\<close> starts the system; after any run, closing ends the workers without touching
  freed memory and gives back every socket they opened: the node is not connected, the open descriptors
  are those from before and at most the one of the application's thread. The counter of open sockets is
  one too high, by the probe of \<open>open\<close>.\<close>

theorem cog_open_close:
  assumes "async_buffer_ok msg_equiv B" and "protocol E" and "hospitable E a" and "prompts E" and "ab_pending B b = []"
    and "chan_host_port (c_str (g_uri g)) = Inr (uri1, host, port)" and "getaddrinfo E host port = Some (a # as)"
    and "\<not> cog_connected g" and "x_fd (g_x g) = 0" and "enough_fds (x_net (g_x g))"
  shows "\<exists>g'. cog_open E g = (Inr (), g') \<and> (\<forall>cs y. ssteps B L E (running g' b) cs y \<longrightarrow>
    (\<exists>y'. shut y = Inr y' \<and> \<not> cog_connected (y_node y') \<and> (\<forall>t < NTHREADS. fd_of y' t = 0) \<and>
      set (open_fds (sys_net y')) = set (open_fds (x_net (g_x g))) \<union> (if fd_of y NTHREADS = 0 then {} else {fd_of y NTHREADS}) \<and>
      c_nsocks (x_chan (g_x (y_node y'))) = c_nsocks (x_chan (g_x g)) + 1 + (if fd_of y NTHREADS = 0 then 0 else 1)))"
proof -
  from cog_open_running [OF assms(2-10)] obtain g' where g': "cog_open E g = (Inr (), g')" "fresh_sys B a (running g' b)"
    "open_fds (x_net (g_x g')) = open_fds (x_net (g_x g))" "c_nsocks (x_chan (g_x g')) = c_nsocks (x_chan (g_x g)) + 1" by blast
  have r: "sys_net (running g' b) = x_net (g_x g')" "y_node (running g' b) = g'" by (simp_all add: running_def sys_net_def)
  show ?thesis
    using close_releases [OF assms(1-3) g'(2)] unfolding r g'(3,4) by (intro exI [of _ g'] conjI g'(1)) blast
qed

text \<open>C30: the socket of the application's thread can outlive the channel that owns it. A thread that has
  called \<open>getAtom\<close> has a socket, which \<open>close\<close> leaves open; once the node is destroyed, the end of the
  thread decrements a counter of the destroyed channel.\<close>

theorem cog_socket_outlives_node:
  assumes "async_buffer_ok msg_equiv B" and "protocol E" and "hospitable E a" and "fresh_sys B a y0" and "ssteps B L E y0 cs y"
    and "Do (GGetAtom h) \<in> set cs" and "shut y = Inr y'" and "chans (c_id (x_chan (g_x (y_node y0)))) = None"
  shows "fst (tlso_dtor (y_tls y' NTHREADS) (chans, sys_net y')) = Inl UseAfterFree"
proof -
  from ssteps_accounted [OF assms(1-5)] have y: "sys_ok B a y" "accounted y0 y" by auto
  from shut_run [OF y] assms(7) have "y_tls y' NTHREADS = y_tls y NTHREADS" by auto
  moreover have fd: "fd_of y NTHREADS \<noteq> 0" by (rule ssteps_getAtom_socket [OF assms(1-3) fresh_sys_ok [OF assms(4)] assms(5,6)])
  moreover have "t_owner (y_tls y NTHREADS) = Some (c_id (x_chan (g_x (y_node y0))))" using y(2) fd by (simp add: accounted_def users_def)
  ultimately show ?thesis using assms(8) by (simp add: tlso_dtor_run fd_of_def)
qed

text \<open>A node that is not open, and a server that answers the probe.\<close>

definition small_doorman :: "string \<Rightarrow> recv_ev list" where
  "small_doorman msg = (if msg = probe_msg then [Seg ''> ''] else small_greeting msg)"

definition small_door :: "unit env" where
  "small_door = (small_env small_doorman)\<lparr>getaddrinfo := (\<lambda>host port. Some [7])\<rparr>"

definition small_closed :: "(nat, (nat \<times> nat \<times> nat) list, unit) cog" where
  "small_closed =
     \<lparr>g_name = ''cog://host/'', g_uri = ''cog://host/'',
      g_x = \<lparr>x_chan = chan_new 1, x_tls = tlso_new, x_rng = 1, x_seq = 0, x_net = (small_net [])\<lparr>fd_pool := [4, 5, 6, 7, 8, 9]\<rparr>\<rparr>,
      g_fid_map = [], g_as = []\<rparr>"

lemma small_door_protocol: "protocol small_door"
proof -
  have "\<not> wants_reply probe_msg" "\<not> noreply probe_msg" by (simp_all add: probe_msg_def wants_reply_iff noreply_iff)
  with small_host_protocol show ?thesis unfolding protocol_def by (simp add: small_door_def small_env_def small_doorman_def)
qed

lemma small_door_lets_in: "hospitable small_door 7" "prompts small_door"
  using small_hospitable
  by (simp_all add: hospitable_def prompts_def small_door_def small_env_def small_doorman_def probe_msg_def chan_bufsize_def
      strip_def lstrip_def rstrip_def SYN_def)

lemma small_closed_node:
  "\<not> cog_connected small_closed" "x_fd (g_x small_closed) = 0" "enough_fds (x_net (g_x small_closed))"
  "open_fds (x_net (g_x small_closed)) = [3]"
  by (simp_all add: small_closed_def cog_connected_def chan_connected_def chan_new_def tlso_new_def enough_fds_def NTHREADS_def small_net_def)

lemma small_closed_uri: "chan_host_port (c_str (g_uri small_closed)) = Inr (''cog://host/'', ''host'', ''17001'')"
  using chan_host_port_eq [of "''host/''"]
  by (simp add: small_closed_def c_str_def npos_def NUL_def uri_host_def uri_port_def DEFAULT_COGSERVER_PORT_def)

theorem cog_open_close_witness:
  "\<exists>g' y y'. cog_open small_door small_closed = (Inr (), g') \<and>
    ssteps small_buffer small_lib small_door (running g' []) [Do (GStoreValue 1 2)] y \<and>
    shut y = Inr y' \<and> \<not> cog_connected (y_node y') \<and> set (open_fds (sys_net y')) \<subseteq> {3, fd_of y NTHREADS}"
proof -
  have addr: "getaddrinfo small_door ''host'' ''17001'' = Some [7]" by (simp add: small_door_def)
  have empty: "ab_pending small_buffer [] = []" by (simp add: small_buffer_def)
  from cog_open_close [OF small_buffer_ok small_door_protocol small_door_lets_in empty small_closed_uri addr small_closed_node(1-3), of small_lib]
  obtain g' where g': "cog_open small_door small_closed = (Inr (), g')"
    "\<forall>cs y. ssteps small_buffer small_lib small_door (running g' []) cs y \<longrightarrow>
      (\<exists>y'. shut y = Inr y' \<and> \<not> cog_connected (y_node y') \<and>
        set (open_fds (sys_net y')) = set [3] \<union> (if fd_of y NTHREADS = 0 then {} else {fd_of y NTHREADS}))"
    unfolding small_closed_node(4) by blast
  let ?y = "running g' [] :: (nat, (nat \<times> nat \<times> nat) list, unit, (handler, nat Pkt) Msg list) sys"
  obtain r g where c: "sys_run small_lib small_door Null (Do (GStoreValue 1 2)) (as_thread NTHREADS ?y) = (r, g)" by fastforce
  have t: "y_todo ?y = []" by (simp add: running_def)
  from ssteps.step [OF ssteps.start sstep.call [OF t c]] obtain y where
    y: "ssteps small_buffer small_lib small_door (running g' []) [Do (GStoreValue 1 2)] y" by auto
  with g'(2) obtain y' where y': "shut y = Inr y'" "\<not> cog_connected (y_node y')"
    "set (open_fds (sys_net y')) = set [3] \<union> (if fd_of y NTHREADS = 0 then {} else {fd_of y NTHREADS})" by blast
  then have "set (open_fds (sys_net y')) \<subseteq> {3, fd_of y NTHREADS}" by auto
  with g'(1) y y'(1,2) show ?thesis by blast
qed

theorem cog_socket_outlives_node_witness:
  "\<exists>y y'. ssteps small_buffer small_lib small_host small_sys [Do (GGetAtom 1)] y \<and> shut y = Inr y' \<and>
    fst (tlso_dtor (y_tls y' NTHREADS) (Map.empty, sys_net y')) = Inl UseAfterFree"
proof -
  obtain r g where "sys_run small_lib small_host Null (Do (GGetAtom 1)) (as_thread NTHREADS small_sys) = (r, g)" by fastforce
  note run = small_sys_call [OF this]
  note env = small_buffer_ok small_host_protocol small_hospitable small_fresh_sys
  from ssteps_accounted [OF env run] shut_run obtain y' where "shut ((after NTHREADS g small_sys)\<lparr>y_todo := calls g\<rparr>) = Inr y'" by blast
  with cog_socket_outlives_node [OF env run _ this, of 1 Map.empty] run show ?thesis by (intro exI conjI) auto
qed

end
