(* ===== verification/Drain.thy ===== *)
theory Drain
  imports Workers
begin

text \<open>
  The buffer always drains. A turn of a worker takes one message; only the callback on a list of atoms
  puts new ones in, and those ask for values, whose callback puts nothing in. So however many atoms the
  server lists, the workers cannot go on for ever unless the application makes new calls; as the node is
  never stuck in a call, every wait for a barrier ends and every call returns.
\<close>

section \<open>What a turn inserts\<close>

inductive wstep ::
  "((handler, 'h Pkt) Msg, 'b) async_buffer \<Rightarrow> ('h, 'v, 't, 'w) atomlib \<Rightarrow> 'srv env \<Rightarrow>
   ('h, 'w, 'srv, 'b) sys \<Rightarrow> ('h, 'w, 'srv, 'b) sys \<Rightarrow> bool" for B L E where
  wstep: "m \<in> set (ab_pending B (y_buf y)) \<Longrightarrow> t < NTHREADS \<Longrightarrow>
    turn B L E t m (y\<lparr>y_buf := ab_take B m (y_buf y)\<rparr>) y' \<Longrightarrow> wstep B L E y y'"

fun lists_atoms :: "(handler, 'h Pkt) Msg \<Rightarrow> bool" where
  "lists_atoms m \<longleftrightarrow> m_handler m = Some DecodeAtomList"

fun value_request :: "(handler, 'h Pkt) Msg bufcall \<Rightarrow> bool" where
  "value_request (BInsert m) \<longleftrightarrow> \<not> lists_atoms m"
| "value_request _ \<longleftrightarrow> False"

lemma work_calls:
  assumes "cog_work L E m s = (r, g)" and "calls s = []" and "lists_atoms m \<Longrightarrow> asks_values C"
  shows "list_all C (calls g)"
proof -
  obtain q z where z: "chan_reply_handler E m (g_x s) = (q, z)" by fastforce
  have "keeps (\<lambda>x. c_calls (x_chan x) = []) no_rt (chan_reply_handler E m)"
    unfolding chan_reply_handler_def
    by (intro keeps_rules keeps_calls_send [where Q = "\<lambda>cs i. cs = []"] keeps_calls_recv [where Q = "\<lambda>cs i. cs = []"])
  from keeps_state [OF this, of "g_x s"] assms(2) z have c: "c_calls (x_chan z) = []" by simp
  show ?thesis
  proof (cases q)
    case (Inl e)
    with z assms(1) c show ?thesis by (auto simp: cog_work_def bnd_def zoom_def)
  next
    case (Inr reply)
    let ?k = "case reply of None \<Rightarrow> ret () | Some str \<Rightarrow>
      (case m_handler m of None \<Rightarrow> throw NullHandle | Some cb \<Rightarrow> cog_callback L cb str (m_data m))"
    have k: "keeps (quiet C (x_net z) (x_tls z) (chan_of z)) benign ?k"
      by (intro keeps_option keeps_ret keeps_throw quiet_callback assms(3) benign_simps) simp
    have "?k (s\<lparr>g_x := z\<rparr>) = (r, g)" using assms(1) z Inr by (simp add: cog_work_def bnd_def zoom_def)
    moreover have "quiet C (x_net z) (x_tls z) (chan_of z) (s\<lparr>g_x := z\<rparr>)" using c by (simp add: quiet_def)
    ultimately show ?thesis using keeps_state [OF k, of "s\<lparr>g_x := z\<rparr>"] by (simp add: quiet_def)
  qed
qed

text \<open>A turn on any other message puts nothing in.\<close>

lemma turn_buf:
  assumes "turn B L E t m y y'" and "\<not> lists_atoms m"
  shows "y_buf y' = y_buf y"
proof -
  from assms(1) obtain g where g: "cog_work L E m (as_thread t y) = (Inr (), g)"
    "y_buf y' = fold (put_call B) (calls g) (y_buf y)" by cases auto
  have "list_all (\<lambda>_. False) (calls g)" by (rule work_calls [OF g(1)]) (use assms(2) in auto)
  then have "calls g = []" by (cases "calls g") auto
  then show ?thesis by (simp add: g(2))
qed

lemma put_requests:
  assumes "async_buffer_ok eqv B"
  shows "list_all value_request cs \<Longrightarrow>
    {m \<in> set (ab_pending B (fold (put_call B) cs b)). lists_atoms m} \<subseteq> {m \<in> set (ab_pending B b). lists_atoms m}"
proof (induction cs arbitrary: b)
  case (Cons c cs)
  then obtain k where k: "c = BInsert k" "\<not> lists_atoms k" by (cases c) auto
  from assms have "set (ab_pending B (ab_insert B k b)) \<subseteq> insert k (set (ab_pending B b))" by (auto simp: async_buffer_ok_def)
  with Cons k show ?case by fastforce
qed simp

section \<open>The measure\<close>

definition load :: "((handler, 'h Pkt) Msg, 'b) async_buffer \<Rightarrow> ('h, 'w, 'srv, 'b) sys \<Rightarrow> nat \<times> nat" where
  "load B y = (card {m \<in> set (ab_pending B (y_buf y)). lists_atoms m}, card (set (ab_pending B (y_buf y))))"

lemma wstep_load:
  assumes "async_buffer_ok eqv B" and "wstep B L E y y'"
  shows "(load B y', load B y) \<in> less_than <*lex*> less_than"
  using assms(2)
proof cases
  case (wstep m t)
  let ?P = "set (ab_pending B (y_buf y))" and ?b = "ab_take B m (y_buf y)"
  from wstep(3) obtain g where g: "cog_work L E m (as_thread t (y\<lparr>y_buf := ?b\<rparr>)) = (Inr (), g)"
    "y_buf y' = fold (put_call B) (calls g) ?b" by cases auto
  have take: "set (ab_pending B ?b) = ?P - {m}" using assms(1) by (simp add: async_buffer_ok_def)
  show ?thesis
  proof (cases "lists_atoms m")
    case True
    have "list_all value_request (calls g)" by (rule work_calls [OF g(1)]) (auto simp: asks_values_def)
    from put_requests [OF assms(1) this, of ?b] have "{k \<in> set (ab_pending B (y_buf y')). lists_atoms k} \<subseteq> {k \<in> ?P - {m}. lists_atoms k}"
      by (simp add: g(2) take)
    then have "{k \<in> set (ab_pending B (y_buf y')). lists_atoms k} \<subset> {k \<in> ?P. lists_atoms k}" using True wstep(1) by blast
    then have "card {k \<in> set (ab_pending B (y_buf y')). lists_atoms k} < card {k \<in> ?P. lists_atoms k}" by (intro psubset_card_mono) auto
    then show ?thesis by (simp add: load_def)
  next
    case False
    from turn_buf [OF wstep(3) False] take have p: "set (ab_pending B (y_buf y')) = ?P - {m}" by simp
    have "card (set (ab_pending B (y_buf y'))) < card ?P" unfolding p by (intro card_Diff1_less) (use wstep(1) in auto)
    moreover have "card {k \<in> set (ab_pending B (y_buf y')). lists_atoms k} \<le> card {k \<in> ?P. lists_atoms k}"
      unfolding p by (intro card_mono) auto
    ultimately show ?thesis by (auto simp: load_def)
  qed
qed

text \<open>The steps that start no call carry out what is left of the current one or are turns of workers.\<close>

lemma turn_todo: "turn B L E t m y y' \<Longrightarrow> y_todo y' = y_todo y"
  by (auto elim!: turn.cases simp: after_def)

definition backlog :: "((handler, 'h Pkt) Msg, 'b) async_buffer \<Rightarrow> ('h, 'w, 'srv, 'b) sys \<Rightarrow> nat \<times> nat \<times> nat" where
  "backlog B y = (length (y_todo y), load B y)"

lemma sstep_backlog:
  assumes "async_buffer_ok eqv B" and "sstep B L E None y y'"
  shows "(backlog B y', backlog B y) \<in> less_than <*lex*> less_than <*lex*> less_than"
  using assms(2)
proof cases
  case (work m t)
  then have "wstep B L E y y'" by (blast intro: wstep.intros)
  from wstep_load [OF assms(1) this] turn_todo [OF work(3)] show ?thesis by (simp add: backlog_def)
qed (auto simp: backlog_def)



section \<open>Every call returns\<close>

lemma ssteps_trans: "ssteps B L E y1 ds y2 \<Longrightarrow> ssteps B L E y0 cs y1 \<Longrightarrow> ssteps B L E y0 (cs @ ds) y2"
proof (induction rule: ssteps.induct)
  case (step ds y l y')
  from ssteps.step [OF step.IH [OF step.prems] step.hyps(2)] show ?case by simp
qed simp

text \<open>A worker whose callback throws on the reply to a pending message.\<close>

definition callback_fails ::
  "((handler, 'h Pkt) Msg, 'b) async_buffer \<Rightarrow> ('h, 'v, 't, 'w) atomlib \<Rightarrow> 'srv env \<Rightarrow> ('h, 'w, 'srv, 'b) sys \<Rightarrow> bool" where
  "callback_fails B L E y \<longleftrightarrow>
     (\<exists>m t e g. m \<in> set (ab_pending B (y_buf y)) \<and> t < NTHREADS \<and> cog_work L E m (as_thread t y) = (Inl e, g) \<and> benign e)"

lemma call_ends:
  assumes "async_buffer_ok msg_equiv B" and "protocol E" and "hospitable E a"
  shows "sys_ok B a y \<Longrightarrow> \<exists>y'. ssteps B L E y [] y' \<and> (y_todo y' = [] \<or> callback_fails B L E y')"
proof (induction "backlog B y" arbitrary: y rule: wf_induct_rule [OF wf_lex_prod [OF wf_less_than wf_lex_prod [OF wf_less_than wf_less_than]]])
  case 1
  show ?case
  proof (cases "y_todo y = [] \<or> callback_fails B L E y")
    case True
    then show ?thesis by (blast intro: ssteps.start)
  next
    case False
    then obtain c cs where "y_todo y = c # cs" by (cases "y_todo y") auto
    from system_progress [OF assms "1.prems" this] False obtain y1 where y1: "sstep B L E None y y1" unfolding callback_fails_def by blast
    from "1.hyps" [OF sstep_backlog [OF assms(1) y1] sstep_keeps [OF assms y1 "1.prems"]] obtain y' where
      y': "ssteps B L E y1 [] y'" "y_todo y' = [] \<or> callback_fails B L E y'" by blast
    have "ssteps B L E y [] y1" using ssteps.step [OF ssteps.start y1] by simp
    from ssteps_trans [OF y'(1) this] y'(2) show ?thesis by auto
  qed
qed

text \<open>C17: every call of the multi-threaded node returns. In every reachable state the node can go on until
  the current call has done all it does to the buffer, its barriers included, unless the callback on
  the reply to a pending message throws, which is never an exception of the connection.\<close>

theorem cog_calls_return:
  assumes "async_buffer_ok msg_equiv B" and "protocol E" and "hospitable E a" and "fresh_sys B a y0" and "ssteps B L E y0 cs y"
  shows "\<exists>y'. ssteps B L E y [] y' \<and> (y_todo y' = [] \<or> callback_fails B L E y')"
  by (rule call_ends [OF assms(1-3) ssteps_keeps [OF assms(5,1-3) fresh_sys_ok [OF assms(4)]]])

theorem cog_calls_return_witness:
  "\<exists>y k cs y'. ssteps small_buffer small_lib small_host small_sys [Do GKillData] y \<and> y_todo y = BBarrierMsg k # cs \<and>
    ssteps small_buffer small_lib small_host y [] y' \<and> (y_todo y' = [] \<or> callback_fails small_buffer small_lib small_host y')"
proof -
  from small_sys_kill obtain y k cs where y: "ssteps small_buffer small_lib small_host small_sys [Do GKillData] y" "y_todo y = BBarrierMsg k # cs"
    by blast
  from cog_calls_return [OF small_buffer_ok small_host_protocol small_hospitable small_fresh_sys y(1)] y show ?thesis by blast
qed

end
