(* ===== verification/Delivery.thy ===== *)
theory Delivery
  imports Drain
begin

text \<open>
  What a client of the multi-threaded node may rely on after a barrier. A call that stores leaves a
  message in the buffer, and returns before a worker has taken it; the message can be dropped if one with
  the same text is pending. Here the whole way of the message is followed, from the call through the
  buffer to the socket of a worker: when a later barrier has returned, the text has been sent.
\<close>

section \<open>What has been sent\<close>

definition was_sent :: "string \<Rightarrow> ('c, 'd, 'srv) cst \<Rightarrow> bool" where
  "was_sent str x \<longleftrightarrow> str \<in> snd ` set (tx (x_net x))"

lemma was_sent_set_rx [simp]: "was_sent str (x\<lparr>x_net := set_rx fd evs n\<rparr>) = was_sent str (x\<lparr>x_net := n\<rparr>)"
  by (simp add: was_sent_def)

lemma sent_net:
  "keeps (was_sent str) (\<lambda>_. True) (x_on_net sys_socket)"
  "keeps (was_sent str) (\<lambda>_. True) (x_on_net (sys_connect E fd a))"
  "keeps (was_sent str) (\<lambda>_. True) (x_on_net (sys_close fd))"
  "keeps (was_sent str) (\<lambda>_. True) (x_on_net (sys_send E ns fd msg))"
  by (auto simp: keeps_def wp_def zoom_def was_sent_def sys_socket_def sys_connect_def sys_close_def sys_send_def
      split: list.splits prod.splits sum.splits)

lemma sent_recv: "keeps (was_sent str) (\<lambda>_. True) (chan_do_recv g)"
proof -
  have loop: "keeps (was_sent str) (\<lambda>_. True) (chan_recv_loop g)"
    by (rule keepsI) (simp add: wp_def chan_recv_loop_def Let_def was_sent_def split: prod.split)
  show ?thesis
    unfolding chan_do_recv_def by (intro keeps_rules keeps_rx_outcome sent_net loop TrueI)
qed

lemma sent_connect: "keeps (was_sent str) (\<lambda>_. True) (chan_connect_loop E addrs)"
  by (induction addrs) (auto intro!: keeps_rules sent_net)

lemma sent_open_sock: "keeps (was_sent str) (\<lambda>_. True) (chan_open_sock E)"
  unfolding chan_open_sock_def
  by (intro keeps_rules sent_net sent_connect sent_recv keeps_modify TrueI) (auto simp: was_sent_def)

lemma sent_send: "keeps (was_sent str) (\<lambda>_. True) (chan_do_send E msg)"
  unfolding chan_do_send_def set_tls_fd_def
  by (intro keeps_rules sent_net sent_open_sock keeps_modify TrueI) (auto simp: was_sent_def)

lemma sent_synchro: "keeps (was_sent str) (\<lambda>_. True) (chan_synchro E msg)"
  unfolding chan_synchro_def by (intro keeps_rules sent_send sent_recv)

lemma sent_handler: "keeps (was_sent str) (\<lambda>_. True) (chan_reply_handler E m)"
  unfolding chan_reply_handler_def by (intro keeps_rules sent_send sent_recv)

lemma net_send_sends: "wp (x_on_net (sys_send E ns fd msg)) (\<lambda>rc z. 0 \<le> rc \<longrightarrow> was_sent msg z) (\<lambda>_ _. True) x"
  by (auto simp: wp_def zoom_def sys_send_def was_sent_def split: prod.splits sum.splits)

lemma send_sends:
  fixes E :: "'srv env" and x :: "('c, 'd, 'srv) cst"
  shows "wp (chan_do_send E msg) (\<lambda>_. was_sent msg) (\<lambda>_ _. True) x"
proof -
  have any: "wp k (\<lambda>_ _. True) (\<lambda>_ _. True) x" for k :: "(('c, 'd, 'srv) cst, unit) io" and x
    by (simp add: wp_def split: prod.splits sum.splits)
  have last: "wp (bnd (x_on_net (sys_send E True fd msg)) (\<lambda>rc. if rc < 0 then throw (IOException UnableToTalk) else ret ()))
      (\<lambda>_. was_sent msg) (\<lambda>_ _. True) z" for fd and z :: "('c, 'd, 'srv) cst"
    unfolding wp_bnd by (rule wp_mono [OF net_send_sends]) (auto simp: wp_throw wp_ret)
  show ?thesis
    unfolding chan_do_send_def seq_def wp_bnd wp_gets
    by (rule wp_mono [OF any]) (use last in \<open>simp_all add: wp_bnd\<close>)
qed

lemma work_sends:
  assumes "cog_work L E m s = (Inr (), g)"
  shows "was_sent (m_str m) (g_x g)" and "was_sent str (g_x s) \<Longrightarrow> was_sent str (g_x g)"
proof -
  from assms obtain r z where z: "chan_reply_handler E m (g_x s) = (Inr r, z)"
    "(case r of None \<Rightarrow> ret () | Some reply \<Rightarrow>
      (case m_handler m of None \<Rightarrow> throw NullHandle | Some cb \<Rightarrow> cog_callback L cb reply (m_data m))) (s\<lparr>g_x := z\<rparr>) = (Inr (), g)"
    by (auto simp: cog_work_def bnd_def zoom_def split: prod.splits sum.splits)
  have "keeps (quiet (\<lambda>_. True) (x_net z) (x_tls z) (chan_of z)) benign
    (case r of None \<Rightarrow> ret () | Some reply \<Rightarrow>
      (case m_handler m of None \<Rightarrow> throw NullHandle | Some cb \<Rightarrow> cog_callback L cb reply (m_data m)))"
    by (intro keeps_option keeps_ret keeps_throw quiet_callback benign_simps) (simp add: asks_values_def)
  from keeps_state [OF this, of "s\<lparr>g_x := z\<rparr>"] z(2) have n: "x_net (g_x g) = x_net z"
    by (simp add: quiet_def list_all_iff)
  have "wp (chan_reply_handler E m) (\<lambda>_. was_sent (m_str m)) (\<lambda>_ _. True) (g_x s)"
    unfolding chan_reply_handler_def seq_def wp_bnd
    by (rule wp_mono [OF send_sends])
       (use keepsD [OF sent_recv] in \<open>auto simp: wp_ret wp_bnd elim!: wp_mono intro: wp_mono [OF keepsD [OF sent_recv]]\<close>)
  with z(1) n show "was_sent (m_str m) (g_x g)" by (simp add: wp_def was_sent_def)
  show "was_sent str (g_x g)" if "was_sent str (g_x s)"
    using keeps_state [OF sent_handler that, of E m] z(1) n by (simp add: was_sent_def)
qed

section \<open>The calls that store\<close>

text \<open>The texts that a call has to get to the server.\<close>

fun store_texts :: "('h, 'v, 't, 'w) atomlib \<Rightarrow> 'w \<Rightarrow> ('h, 'v, 't) cog_op \<Rightarrow> string list" where
  "store_texts L w (GStoreAtom h) = [cog_storeAtom_msg L w h]"
| "store_texts L w (GStoreValue h key) = [cog_storeValue_msg L w h key]"
| "store_texts L w (GUpdateValue h key delta) = [cog_updateValue_msg L w h key delta]"
| "store_texts L w (GStoreAtomSpace table) = map (cog_storeAtom_msg L w) (all_atoms L w table)"
| "store_texts L w _ = []"

lemma storeValue_run:
  "cog_connected s \<Longrightarrow>
     cog_storeValue L h key s = (Inr (), add_call (BInsert (plain None True (cog_storeValue_msg L (g_as s) h key) zero_pkt)) s)"
  by (simp add: cog_storeValue_def CHECK_OPEN_run seq_def bnd_def gets_def enqueue_noreply_run line_not_update cog_storeValue_msg_def)

lemma store_queues:
  assumes "cog_connected s" and "str \<in> set (store_texts L (g_as s) op)"
  shows "BInsert (plain None True str zero_pkt) \<in> set (calls (snd (cog_run L E junk op s)))"
proof (cases op)
  case (GStoreAtomSpace table)
  with storeAtomSpace_run [OF assms(1), of L table] assms(2) show ?thesis by auto
qed (use assms in \<open>auto simp: storeAtom_run storeValue_run updateValue_run\<close>)

section \<open>The way through the buffer\<close>

definition underway :: "((handler, 'h Pkt) Msg, 'b) async_buffer \<Rightarrow> string \<Rightarrow> ('h, 'w, 'srv, 'b) sys \<Rightarrow> bool" where
  "underway B str y \<longleftrightarrow> was_sent str (g_x (y_node y)) \<or> str \<in> m_str ` set (ab_pending B (y_buf y))"

lemma as_thread_sent [simp]: "was_sent str (g_x (as_thread t y)) = was_sent str (g_x (y_node y))"
  by (simp add: was_sent_def sys_net_def)

lemma put_calls_mono:
  assumes "async_buffer_ok eqv B"
  shows "set (ab_pending B b) \<subseteq> set (ab_pending B (fold (put_call B) cs b))"
proof (induction cs arbitrary: b)
  case (Cons c cs)
  have "set (ab_pending B b) \<subseteq> set (ab_pending B (put_call B c b))" using assms by (cases c) (auto simp: async_buffer_ok_def)
  also have "\<dots> \<subseteq> set (ab_pending B (fold (put_call B) cs (put_call B c b)))" by (rule Cons.IH)
  finally show ?case by simp
qed simp

lemma turn_sends:
  assumes "turn B L E t m y y'" and "async_buffer_ok eqv B"
  shows "was_sent (m_str m) (g_x (y_node y'))" and "was_sent str (g_x (y_node y)) \<Longrightarrow> was_sent str (g_x (y_node y'))"
    and "set (ab_pending B (y_buf y)) \<subseteq> set (ab_pending B (y_buf y'))"
proof -
  from assms(1) obtain g where g: "cog_work L E m (as_thread t y) = (Inr (), g)"
    "y' = (after t g y)\<lparr>y_buf := fold (put_call B) (calls g) (y_buf y)\<rparr>" by cases
  from work_sends [OF g(1)] put_calls_mono [OF assms(2)] show "was_sent (m_str m) (g_x (y_node y'))"
    "was_sent str (g_x (y_node y)) \<Longrightarrow> was_sent str (g_x (y_node y'))" "set (ab_pending B (y_buf y)) \<subseteq> set (ab_pending B (y_buf y'))"
    by (simp_all add: g(2) after_def)
qed

lemma turns_sends:
  "turns B L E k ts y y' \<Longrightarrow> async_buffer_ok eqv B \<Longrightarrow> was_sent str (g_x (y_node y)) \<Longrightarrow> was_sent str (g_x (y_node y'))"
  by (induction rule: turns.induct) (auto intro: turn_sends(2))

lemma sent_on_chan: "keeps (was_sent str) (\<lambda>_. True) m \<Longrightarrow> keeps (\<lambda>s. was_sent str (g_x s)) (\<lambda>_. True) (on_chan m)"
  by (auto simp: keeps_def wp_zoom elim!: wp_mono)

lemma sent_enqueue: "keeps (was_sent str) (\<lambda>_. True) (chan_enqueue cb msg d)"
  by (rule keepsI) (auto simp: wp_def chan_enqueue_def new_msg_def bnd_def buf_call_def modify_def was_sent_def split: prod.splits)

lemma run_sends:
  assumes "sys_ok B a y" and "sys_run L E junk c (as_thread NTHREADS y) = (r, g)" and "was_sent str (g_x (y_node y))"
  shows "was_sent str (g_x g)"
proof (cases "\<exists>h. c = Do (GGetAtom h)")
  case True
  then obtain h where c: "c = Do (GGetAtom h)" ..
  have "keeps (\<lambda>s. was_sent str (g_x s)) (\<lambda>_. True) (cog_getAtom L E junk h)"
    unfolding cog_getAtom_def CHECK_OPEN_def by (intro keeps_rules sent_on_chan sent_enqueue sent_synchro TrueI)
  from keeps_state [OF this, of "as_thread NTHREADS y"] assms(2,3) show ?thesis by (simp add: c)
next
  case False
  let ?s = "as_thread NTHREADS y"
  have "keeps (quiet call_ok (sys_net y) (y_tls y NTHREADS) (chan_of (g_x ?s))) (\<lambda>_. True) (sys_run L E junk c)"
    by (rule quiet_run) (use False assms(1) in \<open>auto simp: sys_ok_def\<close>)
  from keeps_state [OF this, of ?s] assms(2) have "x_net (g_x g) = sys_net y" by (simp add: quiet_def)
  with assms(3) show ?thesis by (simp add: was_sent_def sys_net_def)
qed

section \<open>Delivery\<close>

text \<open>A step keeps a text that is sent or pending, and what is left to insert, underway.\<close>

definition queued :: "string \<Rightarrow> ('h, 'w, 'srv, 'b) sys \<Rightarrow> bool" where
  "queued str y \<longleftrightarrow> (\<exists>d. BInsert (plain None True str d) \<in> set (y_todo y))"

lemma sstep_underway:
  assumes "async_buffer_ok msg_equiv B" and "sys_ok B a y" and "sstep B L E l y y'" and "underway B str y"
  shows "underway B str y'"
  using assms(3)
proof cases
  case (call junk c r g)
  from run_sends [OF assms(2) call(4)] assms(4) show ?thesis by (auto simp: call(2) underway_def after_def)
next
  case (insert m cs)
  have "set (ab_pending B (y_buf y)) \<subseteq> set (ab_pending B (ab_insert B m (y_buf y)))" using assms(1) by (auto simp: async_buffer_ok_def)
  with assms(4) show ?thesis by (auto simp: insert(2) underway_def)
next
  case (barrier k cs z)
  from barrier(4) assms(4) have "was_sent str (g_x (y_node y))" by (simp add: underway_def)
  from turns_sends [OF barrier(5) assms(1) this] show ?thesis by (simp add: barrier(2) underway_def)
next
  case (work m t)
  have "set (ab_pending B (ab_take B m (y_buf y))) = set (ab_pending B (y_buf y)) - {m}" using assms(1) by (simp add: async_buffer_ok_def)
  with turn_sends [OF work(4) assms(1)] assms(4) show ?thesis by (auto simp: underway_def)
qed (use assms(4) in \<open>simp add: underway_def\<close>)

lemma sstep_queued:
  assumes "async_buffer_ok msg_equiv B" and "sys_ok B a y" and "sstep B L E l y y'" and "underway B str y \<or> queued str y"
  shows "underway B str y' \<or> queued str y'"
proof (cases "underway B str y")
  case True
  from sstep_underway [OF assms(1-3) True] show ?thesis ..
next
  case False
  with assms(4) obtain d where d: "BInsert (plain None True str d) \<in> set (y_todo y)" by (auto simp: queued_def)
  from assms(3) show ?thesis
  proof cases
    case (insert m cs)
    show ?thesis
    proof (cases "m = plain None True str d")
      case True
      with assms(1) have "str \<in> m_str ` set (ab_pending B (ab_insert B m (y_buf y)))"
        by (auto simp: async_buffer_ok_def msg_equiv_iff plain_def image_iff)
      then show ?thesis by (simp add: insert(2) underway_def)
    next
      case False
      with insert d show ?thesis by (auto simp: queued_def)
    qed
  next
    case (work m t)
    from turn_todo [OF work(4)] d show ?thesis by (auto simp: queued_def)
  qed (use d in \<open>auto simp: queued_def\<close>)
qed

text \<open>Once a barrier has been called, the text is sent, or the barrier waits for it.\<close>

definition fenced :: "((handler, 'h Pkt) Msg, 'b) async_buffer \<Rightarrow> string \<Rightarrow> ('h, 'w, 'srv, 'b) sys \<Rightarrow> bool" where
  "fenced B str y \<longleftrightarrow> was_sent str (g_x (y_node y)) \<or> underway B str y \<and> (\<exists>k. y_todo y = [BBarrierMsg k])"

lemma sstep_sent:
  assumes "async_buffer_ok msg_equiv B" and "sys_ok B a y" and "sstep B L E l y y'" and "was_sent str (g_x (y_node y))"
  shows "was_sent str (g_x (y_node y'))"
  using assms(3)
proof cases
  case (call junk c r g)
  from run_sends [OF assms(2) call(4) assms(4)] show ?thesis by (simp add: call(2) after_def)
next
  case (barrier k cs z)
  from turns_sends [OF barrier(5) assms(1,4)] show ?thesis by (simp add: barrier(2))
next
  case (work m t)
  from turn_sends(2) [OF work(4) assms(1)] assms(4) show ?thesis by simp
qed (use assms(4) in simp_all)

lemma sstep_fenced:
  assumes "async_buffer_ok msg_equiv B" and "sys_ok B a y" and "sstep B L E l y y'" and "fenced B str y"
  shows "fenced B str y'"
proof (cases "was_sent str (g_x (y_node y))")
  case True
  from sstep_sent [OF assms(1-3) True] show ?thesis by (simp add: fenced_def)
next
  case False
  with assms(4) obtain k where k: "underway B str y" "y_todo y = [BBarrierMsg k]" by (auto simp: fenced_def)
  from assms(3) k False show ?thesis
  proof cases
    case (work m t)
    from turn_todo [OF work(4)] sstep_underway [OF assms(1-3) k(1)] k(2) show ?thesis by (simp add: fenced_def)
  qed (auto simp: underway_def)
qed

lemma barrier_call:
  assumes "sstep B L E (Some Barrier) y y'"
  shows "y_todo y = []" and "\<exists>k. y_todo y' = [BBarrierMsg k]"
  using assms by (auto elim!: sstep.cases simp: cog_barrier_def barrier_run)

lemma ssteps_fenced:
  assumes "ssteps B L E y1 ds y2" and "async_buffer_ok msg_equiv B" and "protocol E" and "hospitable E a" and "sys_ok B a y1"
    and "underway B str y1 \<or> queued str y1"
  shows "sys_ok B a y2 \<and> (underway B str y2 \<or> queued str y2) \<and> (Barrier \<in> set ds \<longrightarrow> fenced B str y2)"
  using assms(1)
proof (induction rule: ssteps.induct)
  case start
  with assms(5,6) show ?case by simp
next
  case (step ds y l y')
  then have y: "sys_ok B a y" "underway B str y \<or> queued str y" "Barrier \<in> set ds \<longrightarrow> fenced B str y" by simp_all
  have "fenced B str y'" if "Barrier \<in> set (ds @ label l)"
  proof (cases "Barrier \<in> set ds")
    case True
    with y(3) sstep_fenced [OF assms(2) y(1) step.hyps(2)] show ?thesis by blast
  next
    case False
    with that have "l = Some Barrier" by (cases l) auto
    with step.hyps(2) have b: "sstep B L E (Some Barrier) y y'" by simp
    from barrier_call(1) [OF b] y(2) have "underway B str y" by (simp add: queued_def)
    from sstep_underway [OF assms(2) y(1) b this] barrier_call(2) [OF b] show ?thesis by (simp add: fenced_def)
  qed
  with sstep_keeps [OF assms(2-4) step.hyps(2) y(1)] sstep_queued [OF assms(2) y(1) step.hyps(2) y(2)] show ?case by blast
qed

text \<open>C6: what was stored before a barrier has left for the server when the barrier returns. In every run
  of the multi-threaded node, whatever else is called, pending or merged with an equal message, if a call
  that stores atoms or values is followed by a call of \<open>barrier\<close> and the node is back from its calls, the
  text of every atom and value of the first call has been sent on a connection to the server.\<close>

theorem cog_barrier_delivers:
  assumes "async_buffer_ok msg_equiv B" and "protocol E" and "hospitable E a" and "fresh_sys B a y0"
    and "ssteps B L E y0 cs y" and "sstep B L E (Some (Do op)) y y1" and "ssteps B L E y1 ds y2"
    and "Barrier \<in> set ds" and "y_todo y2 = []" and "str \<in> set (store_texts L (g_as (y_node y)) op)"
  shows "\<exists>fd. (fd, str) \<in> set (tx (sys_net y2))"
proof -
  have ok: "sys_ok B a y" by (rule ssteps_keeps [OF assms(5,1-3) fresh_sys_ok [OF assms(4)]])
  from assms(6) obtain junk r g where g: "y1 = (after NTHREADS g y)\<lparr>y_todo := calls g\<rparr>"
    "cog_run L E junk op (as_thread NTHREADS y) = (r, g)" by cases auto
  have "cog_connected (as_thread NTHREADS y)" using ok by (auto simp: sys_ok_def cog_connected_def chan_connected_def)
  from store_queues [OF this, of str L op E junk] assms(10) g have "queued str y1" by (auto simp: queued_def as_thread_def)
  with ssteps_fenced [OF assms(7,1-3) sstep_keeps [OF assms(1-3,6) ok]] assms(8) have "fenced B str y2" by blast
  with assms(9) show ?thesis by (force simp: fenced_def was_sent_def sys_net_def)
qed

section \<open>A run that stores a value\<close>

lemma barrier_ends:
  assumes "async_buffer_ok msg_equiv B" and "protocol E" and "hospitable E a" and "sys_ok B a y" and "y_todo y = [BBarrierMsg k]"
    and "ab_pending B (y_buf y) = []"
  shows "\<exists>y'. sstep B L E None y y' \<and> y_todo y' = []"
proof -
  have "msg_ok k" "m_noreply k" using assms(4,5) by (simp_all add: sys_ok_def)
  from fence_turns [OF assms(1-3) this assms(4), of "[0..<NTHREADS]" L] obtain y' where "turns B L E k [0..<NTHREADS] y y'" by auto
  from sstep.barrier [OF assms(5,6) this] show ?thesis by (intro exI conjI) auto
qed

text \<open>From a node at rest a value can be stored and a barrier returns.\<close>

lemma store_fence_run:
  assumes "async_buffer_ok msg_equiv B" and "protocol E" and "hospitable E a" and "sys_ok B a y" and "y_todo y = []"
    and "ab_pending B (y_buf y) = []"
  shows "\<exists>y1 y2. sstep B L E (Some (Do (GStoreValue h key))) y y1 \<and> ssteps B L E y1 [Barrier] y2 \<and> y_todo y2 = []"
proof -
  let ?s = "as_thread NTHREADS y" and ?m = "plain None True (cog_storeValue_msg L (g_as (y_node y)) h key) zero_pkt"
  have "cog_connected ?s" using assms(4) by (auto simp: sys_ok_def cog_connected_def chan_connected_def)
  then have "sys_run L E Null (Do (GStoreValue h key)) ?s = (Inr (), add_call (BInsert ?m) ?s)"
    by (simp add: storeValue_run) (simp add: as_thread_def)
  from sstep.call [OF assms(5) this, of B] obtain y1 where
    y1: "sstep B L E (Some (Do (GStoreValue h key))) y y1" "y_todo y1 = [BInsert ?m]" "y_buf y1 = y_buf y"
    by (fastforce simp: after_def)
  have ok1: "sys_ok B a y1" by (rule sstep_keeps [OF assms(1-3) y1(1) assms(4)])
  let ?y2 = "y1\<lparr>y_buf := ab_insert B ?m (y_buf y1), y_todo := []\<rparr>"
  have s2: "sstep B L E None y1 ?y2" by (rule sstep.insert [OF y1(2)])
  have p2: "set (ab_pending B (y_buf ?y2)) = {?m}" using assms(1,6) by (simp add: y1(3) async_buffer_ok_def)
  obtain r g where c: "sys_run L E Null Barrier (as_thread NTHREADS ?y2) = (r, g)" by fastforce
  let ?y3 = "(after NTHREADS g ?y2)\<lparr>y_todo := calls g\<rparr>"
  have s3: "sstep B L E (Some Barrier) ?y2 ?y3" by (rule sstep.call [OF _ c]) simp
  from barrier_call(2) [OF s3] obtain k where k: "y_todo ?y3 = [BBarrierMsg k]" ..
  note ok3 = sstep_keeps [OF assms(1-3) s3 sstep_keeps [OF assms(1-3) s2 ok1]]
  have p3: "set (ab_pending B (y_buf ?y3)) = {?m}" using p2 by (simp add: after_def)
  let ?y3' = "?y3\<lparr>y_buf := ab_take B ?m (y_buf ?y3)\<rparr>"
  have "msg_ok ?m" by (simp add: msg_ok_def plain_def cog_msgs_noreply)
  moreover have "m_noreply ?m" "\<not> lists_atoms ?m" by (simp_all add: plain_def)
  ultimately obtain y4 where y4: "turn B L E 0 ?m ?y3' y4"
    using silent_turn [OF assms(2,3) sys_ok_take [OF assms(1) ok3], of 0 ?m L] by auto
  have s4: "sstep B L E None ?y3 y4" by (rule sstep.work [OF _ _ y4]) (use p3 in \<open>simp_all add: NTHREADS_def\<close>)
  note ok4 = sstep_keeps [OF assms(1-3) s4 ok3]
  have t4: "y_todo y4 = [BBarrierMsg k]" using turn_todo [OF y4] k by simp
  have "set (ab_pending B (y_buf y4)) = {}"
    using turn_buf [OF y4 \<open>\<not> lists_atoms ?m\<close>] p3 assms(1) by (simp add: async_buffer_ok_def)
  with barrier_ends [OF assms(1-3) ok4 t4] obtain y5 where s5: "sstep B L E None y4 y5" "y_todo y5 = []" by auto
  have "ssteps B L E y1 [Barrier] y5"
    using ssteps.step [OF ssteps.step [OF ssteps.step [OF ssteps.step [OF ssteps.start s2] s3] s4] s5(1)] by simp
  with y1(1) s5(2) show ?thesis by blast
qed

theorem cog_barrier_delivers_witness:
  "\<exists>y1 y2 fd. sstep small_buffer small_lib small_host (Some (Do (GStoreValue 1 2))) small_sys y1 \<and>
    ssteps small_buffer small_lib small_host y1 [Barrier] y2 \<and> y_todo y2 = [] \<and>
    (fd, cog_storeValue_msg small_lib [] 1 2) \<in> set (tx (sys_net y2))"
proof -
  note env = small_buffer_ok small_host_protocol small_hospitable small_fresh_sys
  have "g_as (y_node small_sys) = []" "y_todo small_sys = []" "ab_pending small_buffer (y_buf small_sys) = []"
    by (simp_all add: small_sys_def small_buffer_def)
  with store_fence_run [OF env(1-3) fresh_sys_ok [OF env(4)], of small_lib 1 2] obtain y1 y2 where
    y: "sstep small_buffer small_lib small_host (Some (Do (GStoreValue 1 2))) small_sys y1"
      "ssteps small_buffer small_lib small_host y1 [Barrier] y2" "y_todo y2 = []" by blast
  from cog_barrier_delivers [OF env ssteps.start y(1,2) _ y(3)] \<open>g_as (y_node small_sys) = []\<close>
  have "\<exists>fd. (fd, cog_storeValue_msg small_lib [] 1 2) \<in> set (tx (sys_net y2))" by simp
  with y show ?thesis by blast
qed

end
