(* ===== verification/SimpleRpc.thy ===== *)
theory SimpleRpc
  imports SimpleSteps
begin

text \<open>
  The single-socket node over an ideal connection. The abstract session \<open>rpc_session\<close> runs the programs of
  the calls with a server that is a function: a request is a call of that function, and there are no
  sockets, segments or idle bytes. Every session of the node over a real connection gives the results
  of the abstract one. With the server's promise to remember values this gives the round trip of
  \<open>storeValue\<close> and \<open>loadValue\<close> between two clients.
\<close>

section \<open>The node refines the ideal connection\<close>

text \<open>What remains of a node when the connection is an ideal one.\<close>

definition simple_view :: "('h, 'w, 'srv) simple \<Rightarrow> (nat \<times> ('h, 'w) shared, 'srv) rpc" where
  "simple_view s = \<lparr>r_client = node_get s, r_srv = srv (s_net s), r_reply = None\<rparr>"

interpretation sr: node_client s_sockfd "s_net :: ('h, 'w, 'srv) simple \<Rightarrow> 'srv net" "\<lambda>n s. s\<lparr>s_net := n\<rparr>" E
    "simple_do_send E" "simple_do_recv False" node_get node_put
  rewrites "line_client.in_step s_sockfd s_net = in_sync" and "node_client.view s_net node_get = simple_view"
  for E :: "'srv env"
proof -
  show nc: "node_client s_sockfd (s_net :: ('h, 'w, 'srv) simple \<Rightarrow> 'srv net) (\<lambda>n s. s\<lparr>s_net := n\<rparr>) E
      (simple_do_send E) (simple_do_recv False) node_get node_put"
    by unfold_locales (auto simp: node_get_def node_put_def put_shared_def shared_of_def)
  show "line_client.in_step s_sockfd s_net = (in_sync :: ('h, 'w, 'srv) simple \<Rightarrow> bool)"
    using node_client.axioms(1) [OF nc] by (intro ext) (simp add: line_client.in_step_def in_sync_def)
  show "node_client.view s_net node_get = (simple_view :: ('h, 'w, 'srv) simple \<Rightarrow> (nat \<times> ('h, 'w) shared, 'srv) rpc)"
    by (intro ext) (simp add: node_client.view_def [OF nc] simple_view_def)
qed

text \<open>The abstract session: every request is a call of the server's function \<open>ans\<close>.\<close>

fun rpc_session ::
  "('h, 'v, 't, 'w) atomlib \<Rightarrow> (string \<Rightarrow> 'srv \<Rightarrow> 'srv \<times> string option) \<Rightarrow> ('h, 'v, 't) simple_op list \<Rightarrow>
   (nat \<times> ('h, 'w) shared, 'srv) rpc \<Rightarrow> (cxx_fail + unit) list \<times> (nat \<times> ('h, 'w) shared, 'srv) rpc" where
  "rpc_session L ans [] r = ([], r)"
| "rpc_session L ans (op # ops) r =
     (case rpc_exec ans (t_run L op) r of
        (x, r') \<Rightarrow> (case rpc_session L ans ops r' of (xs, r'') \<Rightarrow> (x # xs, r'')))"

lemma run_refines:
  assumes "serves E (s_sockfd s) ans" and "in_sync s" and "simple_run L E op s = (x, s')" and "x \<noteq> Inl StackOverflow"
  shows "rpc_exec ans (t_run L op) (simple_view s) = (x, simple_view s') \<and> in_sync s' \<and> s_sockfd s' = s_sockfd s"
proof -
  have "simple_exec E (t_run L op) s = (x, s')"
    using t_run_agrees [of E L op] assms(3,4) unfolding agree_def
    by (metis fst_conv prod.collapse snd_conv)
  with sr.exec_refines [OF assms(1) refl assms(2) t_run_paired, of L op] show ?thesis
    unfolding simple_exec_def by auto
qed

lemma session_refines:
  assumes "serves E (s_sockfd s) ans" and "in_sync s" and "simple_session L E ops s = (xs, s')" and "Inl StackOverflow \<notin> set xs"
  shows "rpc_session L ans ops (simple_view s) = (xs, simple_view s') \<and> in_sync s'"
  using assms
proof (induction ops arbitrary: s xs)
  case (Cons op ops)
  obtain x s1 where x: "simple_run L E op s = (x, s1)" by fastforce
  obtain ys where ys: "simple_session L E ops s1 = (ys, s')" "xs = x # ys"
    using Cons.prems(3) x by (auto split: prod.splits)
  from run_refines [OF Cons.prems(1,2) x] Cons.prems(4) ys(2) have
    r: "rpc_exec ans (t_run L op) (simple_view s) = (x, simple_view s1)" "in_sync s1" "s_sockfd s1 = s_sockfd s" by auto
  with Cons.IH [of s1 ys] Cons.prems(1,4) ys show ?case by simp
qed simp

text \<open>C4: over any network the node behaves as over an ideal connection. However the server's replies are
  cut into segments and padded with idle bytes, a session gives the results, and leaves the fields of
  the node, the client's atomspaces and the server as the abstract session does, in which every
  request is a function call on the server's state.\<close>

theorem simple_session_refines:
  assumes "serves E (s_sockfd s) ans" and "in_sync s" and "simple_session L E ops s = (xs, s')" and "Inl StackOverflow \<notin> set xs"
  shows "rpc_session L ans ops (simple_view s) = (xs, simple_view s')"
  using session_refines [OF assms] by blast

text \<open>A server that cuts its replies in pieces, with idle bytes between them.\<close>

definition small_cut :: "string \<Rightarrow> recv_ev list" where
  "small_cut msg = (if wants_reply msg then [Seg [SYN], Seg ''('', Seg (SYN # '')'' @ [NL])] else [])"

definition small_ans :: "string \<Rightarrow> unit \<Rightarrow> unit \<times> string option" where
  "small_ans msg x = (x, if wants_reply msg then Some (''()'' @ [NL]) else None)"

lemma small_cut_reply: "is_reply [Seg [SYN], Seg ''('', Seg (SYN # '')'' @ [NL])] (''()'' @ [NL])"
  by (simp add: is_reply_def clean_def strip_def lstrip_def rstrip_def SYN_def NL_def NUL_def)

lemma small_cut_serves: "serves (small_env small_cut) fd small_ans"
  unfolding serves_def using small_cut_reply by (auto simp: small_env_def small_cut_def small_ans_def wants_reply_def)

lemma small_cut_protocol: "protocol (small_env small_cut)"
  unfolding protocol_def using small_cut_reply by (auto simp: small_env_def small_cut_def wants_reply_def)

theorem simple_session_refines_witness:
  "\<exists>s'. simple_session small_lib (small_env small_cut) [GetAtom 2, KillData] (small_simple []) = ([Inr (), Inr ()], s') \<and>
    rpc_session small_lib small_ans [GetAtom 2, KillData] (simple_view (small_simple [])) = ([Inr (), Inr ()], simple_view s')"
proof -
  have "is_reply (snd (on_data (small_env small_cut) (s_sockfd (small_simple [])) (simple_iknow_msg small_lib (s_as (small_simple [])) 2)
      (srv (s_net (small_simple []))))) (''()'' @ [NL])"
    using small_cut_reply by (simp add: small_env_def small_cut_def fetch_reply)
  from simple_getAtom_unknown [OF small_cut_protocol small_in_sync this] obtain n where
    g: "simple_getAtom small_lib (small_env small_cut) 2 (small_simple []) = (Inr (), (small_simple [])\<lparr>s_net := n\<rparr>)"
    and n: "in_sync ((small_simple [])\<lparr>s_net := n\<rparr>)" by (auto simp: compare0_eq_def)
  from simple_kill_data_resets [OF small_cut_protocol n] obtain s' where
    "simple_kill_data (small_env small_cut) ((small_simple [])\<lparr>s_net := n\<rparr>) = (Inr (), s')" by blast
  with g have r: "simple_session small_lib (small_env small_cut) [GetAtom 2, KillData] (small_simple []) = ([Inr (), Inr ()], s')"
    by simp
  from simple_session_refines [OF small_cut_serves small_in_sync r] r show ?thesis by simp
qed

section \<open>What is stored can be loaded\<close>

text \<open>The server's side of storing a value: after the command to set the value of \<open>K\<close> on \<open>A\<close> to \<open>V\<close>, the
  reply to the request for that value is \<open>V\<close>. (The arguments are the texts in the commands.)\<close>

definition remembers :: "(string \<Rightarrow> 'srv \<Rightarrow> 'srv \<times> string option) \<Rightarrow> string \<Rightarrow> string \<Rightarrow> string \<Rightarrow> bool" where
  "remembers ans A K V \<longleftrightarrow>
     (\<forall>x. snd (ans (''(cog-value '' @ A @ K @ '')'' @ [NL])
                (fst (ans (''(cog-set-value! '' @ A @ K @ V @ '')'' @ [NL]) x))) = Some (V @ [NL]))"

lemma storeValue_same_space:
  assumes "\<not> s_multi_space s" and "getAtomSpace L (s_as s) h = s_atom_space s"
  shows "simple_storeValue L E h key s = simple_do_send E (simple_storeValue_msg L (s_as s) False h key) s"
  using assms by (simp add: simple_storeValue_def simple_write_space_def bnd_def seq_def gets_def cond_do_def ret_def)

lemma loads_answer:
  assumes "serves E (s_sockfd t) ans" and "in_sync t" and "snd (ans (simple_loadValue_msg L (s_as t) h key) (srv (s_net t))) = Some m"
  shows "\<exists>n. in_sync (t\<lparr>s_net := n\<rparr>) \<and> simple_loadValue L E h key t = on_as (simple_take_value L h key m) (t\<lparr>s_net := n\<rparr>)"
proof -
  let ?q = "simple_loadValue_msg L (s_as t) h key"
  obtain x evs where d: "on_data E (s_sockfd t) ?q (srv (s_net t)) = (x, evs)" by fastforce
  with servesD(2) [OF assms(1) fetch_reply(1), of L "s_as t" h key "srv (s_net t)"] assms(3) have m: "is_reply evs m" by auto
  have "simple_do_send E ?q t = (Inr (), t\<lparr>s_net := sent (s_sockfd t) ?q x evs (s_net t)\<rparr>)"
    by (rule do_send_run [OF assms(2) servesD(1) [OF assms(1)] d])
  moreover obtain idle where "simple_do_recv False (t\<lparr>s_net := sent (s_sockfd t) ?q x evs (s_net t)\<rparr>) =
      (Inr m, t\<lparr>s_net := set_rx (s_sockfd t) idle (sent (s_sockfd t) ?q x evs (s_net t))\<rparr>)" "idle_only idle"
    using do_recv_reply [of "t\<lparr>s_net := sent (s_sockfd t) ?q x evs (s_net t)\<rparr>", OF _ _ _ _ m] assms(2)
    by (auto simp: in_sync_def sent_def)
  ultimately show ?thesis
    using assms(2)
    by (intro exI [of _ "set_rx (s_sockfd t) idle (sent (s_sockfd t) ?q x evs (s_net t))"])
       (simp add: simple_loadValue_def bnd_def seq_def gets_def, simp add: in_sync_def sent_def set_rx_def)
qed

text \<open>What a client's atomspaces are after it has loaded the value \<open>v\<close>.\<close>

definition with_value :: "('h, 'v, 't, 'w) atomlib \<Rightarrow> 'h \<Rightarrow> 'h \<Rightarrow> 'v \<Rightarrow> 'w \<Rightarrow> 'w" where
  "with_value L h key v w =
     (case (case getAtomSpace L w h of None \<Rightarrow> (v, w) | Some a \<Rightarrow> sexpr_add_atoms L a v w) of (v', w') \<Rightarrow> setValue L h key v' w')"

lemma take_value_run:
  assumes "decode_value L (encode_value L v @ [NL]) 0 = Inr (v, p)"
  shows "simple_take_value L h key (encode_value L v @ [NL]) w = (Inr (), with_value L h key v w)"
  using assms
  by (auto simp: simple_take_value_def with_value_def lift_lib_def bnd_def gets_def ret_def lib_call_def modify_def split: option.splits prod.splits)

lemma load_value:
  assumes "serves E (s_sockfd t) ans" and "in_sync t" and "decode_value L (encode_value L v @ [NL]) 0 = Inr (v, p)"
    and "snd (ans (simple_loadValue_msg L (s_as t) h key) (srv (s_net t))) = Some (encode_value L v @ [NL])"
  shows "\<exists>t'. simple_loadValue L E h key t = (Inr (), t') \<and> in_sync t' \<and> s_as t' = with_value L h key v (s_as t)"
proof -
  from loads_answer [OF assms(1,2,4)] obtain n where "in_sync (t\<lparr>s_net := n\<rparr>)"
    "simple_loadValue L E h key t = on_as (simple_take_value L h key (encode_value L v @ [NL])) (t\<lparr>s_net := n\<rparr>)" by blast
  with take_value_run [OF assms(3), of h key] show ?thesis by (auto simp: zoom_def in_sync_def)
qed

lemma store_value:
  assumes "serves E (s_sockfd s) ans" and "in_sync s" and "\<not> s_multi_space s" and "getAtomSpace L (s_as s) h = s_atom_space s"
  shows "\<exists>s'. simple_storeValue L E h key s = (Inr (), s') \<and> in_sync s' \<and>
    srv (s_net s') = fst (ans (simple_storeValue_msg L (s_as s) False h key) (srv (s_net s)))"
proof -
  let ?m = "simple_storeValue_msg L (s_as s) False h key"
  from sr.send_silent [OF assms(1,2) store_no_reply(2) [of L "s_as s" False h key]] obtain s' where
    s': "simple_do_send E ?m s = (Inr (), s')" "in_sync s'" "rpc_send ans ?m (simple_view s) = (Inr (), simple_view s')" by blast
  then have "srv (s_net s') = fst (ans ?m (srv (s_net s)))"
    by (auto simp: rpc_send_def simple_view_def node_get_def shared_of_def split: prod.splits)
  with s' show ?thesis unfolding storeValue_same_space [OF assms(3,4)] by blast
qed

definition with_server :: "'srv \<Rightarrow> ('h, 'w, 'srv) simple \<Rightarrow> ('h, 'w, 'srv) simple" where
  "with_server x t = t\<lparr>s_net := (s_net t)\<lparr>srv := x\<rparr>\<rparr>"

text \<open>C14: a value that one client stores is the value that another client loads. When a node stores the
  value of a key on an atom of its space, and then a second node, on its own connection to the same
  server and with its own atomspaces, loads the value of that key, it sets on its atom the value that
  the first client had, with the atoms in it added to the atom's space.\<close>

theorem store_load_round_trip:
  assumes "serves E (s_sockfd s) ans" and "in_sync s" and "\<not> s_multi_space s" and "getAtomSpace L (s_as s) h = s_atom_space s"
    and "serves E' (s_sockfd t) ans" and "in_sync t"
    and "encode_atom L (s_as t) h' False = encode_atom L (s_as s) h False"
    and "encode_atom L (s_as t) key' False = encode_atom L (s_as s) key False"
    and "remembers ans (encode_atom L (s_as s) h False) (encode_atom L (s_as s) key False) (encode_value L v)"
    and "v = getValue L (s_as s) h key" and "decode_value L (encode_value L v @ [NL]) 0 = Inr (v, p)"
  shows "\<exists>s' t'. simple_storeValue L E h key s = (Inr (), s') \<and>
    simple_loadValue L E' h' key' (with_server (srv (s_net s')) t) = (Inr (), t') \<and> in_sync s' \<and> in_sync t' \<and>
    s_as t' = with_value L h' key' v (s_as t)"
proof -
  from store_value [OF assms(1-4)] obtain s' where
    s': "simple_storeValue L E h key s = (Inr (), s')" "in_sync s'"
      "srv (s_net s') = fst (ans (simple_storeValue_msg L (s_as s) False h key) (srv (s_net s)))" by blast
  let ?t = "with_server (srv (s_net s')) t"
  have t: "in_sync ?t" "s_sockfd ?t = s_sockfd t" "s_as ?t = s_as t" "srv (s_net ?t) = srv (s_net s')"
    using assms(6) by (simp_all add: with_server_def in_sync_def)
  have "snd (ans (simple_loadValue_msg L (s_as ?t) h' key') (srv (s_net ?t))) = Some (encode_value L v @ [NL])"
    using assms(7-10) s'(3) t by (simp add: remembers_def simple_loadValue_msg_def simple_storeValue_msg_def)
  moreover have "serves E' (s_sockfd ?t) ans" using assms(5) t(2) by simp
  ultimately show ?thesis using load_value [of E' ?t ans L v p h' key'] t s'(1,2) assms(11) by auto
qed

text \<open>A server that keeps the commands that set values, and answers a request for a value from the last
  one that set it.\<close>

definition tidy :: "string \<Rightarrow> string" where
  "tidy str = filter (\<lambda>c. c \<notin> {SYN, NL, NUL}) str @ [NL]"

definition small_lookup :: "string \<Rightarrow> string list \<Rightarrow> string" where
  "small_lookup q x =
     (case List.find (\<lambda>m. prefix (''(cog-set-value! '' @ q) m) x of
        None \<Rightarrow> ''()''
      | Some m \<Rightarrow> (let v = drop (16 + length q) m in take (length v - 2) v))"

definition small_memory :: "string \<Rightarrow> string list \<Rightarrow> string list \<times> string option" where
  "small_memory msg x =
     (if noreply msg then (msg # x, None)
      else if wants_reply msg then (x, Some (tidy (small_lookup (take (length msg - 13) (drop 11 msg)) x)))
      else (x, None))"

definition memory_env :: "string list env" where
  "memory_env =
     \<lparr>getaddrinfo = (\<lambda>host port. None), accepts = (\<lambda>a x. False), on_accept = (\<lambda>a fd x. (x, [])),
      on_data = (\<lambda>fd msg x. case small_memory msg x of (x', r) \<Rightarrow> (x', case r of None \<Rightarrow> [] | Some m \<Rightarrow> [Seg m])),
      broken = (\<lambda>fd x. False)\<rparr>"

lemma tidy_reply: "is_reply [Seg (tidy str)] (tidy str)"
proof -
  have s: "SYN \<notin> set (tidy str)" by (auto simp: tidy_def SYN_def NL_def)
  then have "filter (\<lambda>c. c \<noteq> SYN) (tidy str) = tidy str" by (auto simp: filter_id_conv)
  moreover have "clean (tidy str)"
    unfolding clean_iff using s by (metis append_Nil append_Nil2 replicate_0)
  ultimately show ?thesis by (simp add: is_reply_def) (auto simp: tidy_def NUL_def NL_def)
qed

lemma memory_serves: "serves memory_env fd small_memory"
  unfolding serves_def using tidy_reply by (auto simp: memory_env_def small_memory_def wants_reply_def)

definition small_client :: "(nat \<times> nat \<times> nat) list \<Rightarrow> (nat, (nat \<times> nat \<times> nat) list, string list) simple" where
  "small_client w =
     \<lparr>s_uri = ''cog://host/'', s_sockfd = 3, s_multi_space = False, s_frame_map = [], s_fid_map = [], s_atom_space = Some 8,
      s_rng = 1, s_net = \<lparr>srv = [], rx = (\<lambda>fd. []), open_fds = [3], fd_pool = [], tx = []\<rparr>, s_as = w\<rparr>"

lemma small_client_in_sync: "in_sync (small_client w)"
  by (simp add: small_client_def in_sync_def)

lemma small_remembers: "remembers small_memory (num_text 1) (num_text 2) (num_text 3)"
  unfolding remembers_def small_memory_def small_lookup_def
  by (simp add: num_text_def noreply_iff wants_reply_iff tidy_def numeral_2_eq_2 numeral_3_eq_3 SYN_def NL_def NUL_def)

lemma small_decode: "decode_value small_lib (num_text 3 @ [NL]) 0 = Inr (3, 4)"
  using read_num_text [of "[]" 3 "[NL]"] by (simp add: small_lib_def num_text_def)

lemma small_lib_values:
  "encode_atom small_lib w h b = num_text h" "encode_value small_lib v = num_text v" "sexpr_add_atoms small_lib a v w = (v, w)"
  "setValue small_lib 1 2 3 [] = [(1, 2, 3)]" "getAtomSpace small_lib w 1 = Some 8" "getValue small_lib [(1, 2, 3)] 1 2 = 3"
  by (simp_all add: small_lib_def)

theorem store_load_round_trip_witness:
  "\<exists>s' t'. simple_storeValue small_lib memory_env 1 2 (small_client [(1, 2, 3)]) = (Inr (), s') \<and>
    simple_loadValue small_lib memory_env 1 2 (with_server (srv (s_net s')) (small_client [])) = (Inr (), t') \<and>
    s_as t' = [(1, 2, 3)]"
proof -
  have s: "s_sockfd (small_client w) = 3" "\<not> s_multi_space (small_client w)" "s_as (small_client w) = w"
    "s_atom_space (small_client w) = Some 8" for w by (simp_all add: small_client_def)
  from store_load_round_trip [of memory_env "small_client [(1, 2, 3)]" small_memory small_lib 1 memory_env "small_client []" 1 2 2 3 4]
    small_client_in_sync memory_serves small_remembers small_decode s show ?thesis by (auto simp: small_lib_values with_value_def simp del: One_nat_def)
qed

end
