(* ===== verification/StoreFence.thy ===== *)
theory StoreFence
  imports Delivery SimpleRpc
begin

text \<open>
  The two nodes together: a value that is stored through the multi-threaded node, followed by a barrier,
  is what a single-socket node of another client loads. Which worker sends the value, when, and whether
  it has to open a connection first, is left open; what the server answers is followed through all that
  the workers send.
\<close>

section \<open>What the server knows\<close>

text \<open>The server's answer to a request does not change when a client connects, or at a barrier.\<close>

definition answers :: "(string \<Rightarrow> 'srv \<Rightarrow> 'srv \<times> string option) \<Rightarrow> string \<Rightarrow> string \<Rightarrow> 'srv \<Rightarrow> bool" where
  "answers ans q r x \<longleftrightarrow> snd (ans q x) = Some r"

definition undisturbed :: "'srv env \<Rightarrow> ('srv \<Rightarrow> bool) \<Rightarrow> bool" where
  "undisturbed E P \<longleftrightarrow> (\<forall>fd x rnd. P x \<longrightarrow> P (fst (on_data E fd (barrier_text ''4'' rnd) x)))"

definition serves_all :: "'srv env \<Rightarrow> (string \<Rightarrow> 'srv \<Rightarrow> 'srv \<times> string option) \<Rightarrow> bool" where
  "serves_all E ans \<longleftrightarrow> (\<forall>fd. serves E fd ans)"

lemma serves_protocol: "serves_all E ans \<Longrightarrow> protocol E"
  unfolding serves_all_def protocol_def by (meson servesD)

text \<open>What a turn on a message without a reply does to the server.\<close>

lemma turn_server:
  assumes "protocol E" and "hospitable E a" and "sys_ok B a y" and "t \<le> NTHREADS" and "msg_ok m" and "m_noreply m"
    and "turn B L E t m y y'"
  shows "\<exists>fd x. srv (sys_net y') = fst (on_data E fd (m_str m) x) \<and> (\<forall>P. steady E a P \<longrightarrow> P (srv (sys_net y)) \<longrightarrow> P x)"
proof -
  have "noreply (m_str m)" using assms(5,6) by (simp add: msg_ok_def)
  from first_silent [OF assms(1,2) sys_can_talk [OF assms(3,4)] this] obtain z x where
    z: "chan_do_send E (m_str m) (g_x (as_thread t y)) = (Inr (), z)" "srv (x_net z) = fst (on_data E (x_fd z) (m_str m) x)"
      "\<forall>P. steady E a P \<longrightarrow> P (srv (x_net (g_x (as_thread t y)))) \<longrightarrow> P x" by blast
  from assms(7) obtain g where "cog_work L E m (as_thread t y) = (Inr (), g)" "y_node y' = g" by cases (auto simp: after_def)
  then have "sys_net y' = x_net z"
    using z(1) assms(6) by (auto simp: cog_work_def chan_reply_handler_def seq_def bnd_def ret_def zoom_def sys_net_def)
  with z(2,3) show ?thesis by auto
qed

lemma fence_server:
  assumes "turns B L E (fence k d) ts y y'" and "async_buffer_ok msg_equiv B" and "protocol E" and "hospitable E a"
    and "steady E a P" and "undisturbed E P"
  shows "sys_ok B a y \<Longrightarrow> \<forall>t \<in> set ts. t \<le> NTHREADS \<Longrightarrow> P (srv (sys_net y)) \<Longrightarrow> P (srv (sys_net y')) \<and> y_buf y' = y_buf y"
  using assms(1)
proof (induction rule: turns.induct)
  case (more t y y1 ts y2)
  have k: "msg_ok (fence k d)" using fence_ok [of k d] by simp
  have t: "t \<le> NTHREADS" using more.prems(2) by simp
  from turn_server [OF assms(3,4) more.prems(1) t k _ more.hyps(1)] assms(5,6) more.prems(3)
  have "P (srv (sys_net y1))" by (auto simp: undisturbed_def fence_def plain_def)
  moreover have "y_buf y1 = y_buf y" by (rule turn_buf [OF more.hyps(1)]) (simp add: fence_def plain_def)
  ultimately show ?case using more.IH turn_keeps [OF assms(2-4) more.prems(1) t k more.hyps(1)] more.prems(2) by simp
qed simp

section \<open>The phases of a stored value\<close>

text \<open>The message is all that can be pending; when nothing is pending the server has it.\<close>

definition landed ::
  "((handler, 'h Pkt) Msg, 'b) async_buffer \<Rightarrow> (handler, 'h Pkt) Msg \<Rightarrow> ('srv \<Rightarrow> bool) \<Rightarrow> ('h, 'w, 'srv, 'b) sys \<Rightarrow> bool" where
  "landed B m P y \<longleftrightarrow> set (ab_pending B (y_buf y)) \<subseteq> {m} \<and> (ab_pending B (y_buf y) = [] \<longrightarrow> P (srv (sys_net y)))"

definition storing ::
  "((handler, 'h Pkt) Msg, 'b) async_buffer \<Rightarrow> (handler, 'h Pkt) Msg \<Rightarrow> ('srv \<Rightarrow> bool) \<Rightarrow> ('h, 'w, 'srv, 'b) sys \<Rightarrow> bool" where
  "storing B m P y \<longleftrightarrow> y_todo y = [BInsert m] \<and> ab_pending B (y_buf y) = [] \<or> y_todo y = [] \<and> landed B m P y"

definition fencing ::
  "((handler, 'h Pkt) Msg, 'b) async_buffer \<Rightarrow> (handler, 'h Pkt) Msg \<Rightarrow> ('srv \<Rightarrow> bool) \<Rightarrow> ('h, 'w, 'srv, 'b) sys \<Rightarrow> bool" where
  "fencing B m P y \<longleftrightarrow>
     (\<exists>k d. y_todo y = [BBarrierMsg (fence k d)]) \<and> landed B m P y \<or> y_todo y = [] \<and> ab_pending B (y_buf y) = [] \<and> P (srv (sys_net y))"

lemma work_landed:
  assumes "async_buffer_ok msg_equiv B" and "protocol E" and "hospitable E a" and "sys_ok B a y" and "landed B m P y"
    and "\<And>fd x. P (fst (on_data E fd (m_str m) x))" and "m_noreply m" and "\<not> lists_atoms m"
    and "k \<in> set (ab_pending B (y_buf y))" and "t < NTHREADS" and "turn B L E t k (y\<lparr>y_buf := ab_take B k (y_buf y)\<rparr>) y'"
  shows "landed B m P y'" and "y_todo y' = y_todo y"
proof -
  have k: "k = m" using assms(5,9) by (auto simp: landed_def)
  have "msg_ok m" using assms(4,9) k by (simp add: sys_ok_def)
  from turn_server [OF assms(2,3) sys_ok_take [OF assms(1,4)] less_imp_le [OF assms(10)] this assms(7) assms(11) [unfolded k]]
  have "P (srv (sys_net y'))" using assms(6) by auto
  moreover have "set (ab_pending B (y_buf y')) = {}"
    using turn_buf [OF assms(11)] assms(1,5,8) k by (auto simp: landed_def async_buffer_ok_def)
  ultimately show "landed B m P y'" by (simp add: landed_def)
  show "y_todo y' = y_todo y" using turn_todo [OF assms(11)] by simp
qed

lemma storing_step:
  assumes "async_buffer_ok msg_equiv B" and "protocol E" and "hospitable E a" and "sys_ok B a y" and "storing B m P y"
    and "\<And>fd x. P (fst (on_data E fd (m_str m) x))" and "m_noreply m" and "\<not> lists_atoms m" and "sstep B L E None y y'"
  shows "storing B m P y'"
  using assms(9)
proof cases
  case (insert k cs)
  with assms(5) have "k = m" "cs = []" "ab_pending B (y_buf y) = []" by (auto simp: storing_def)
  moreover have "set (ab_pending B (ab_insert B m (y_buf y))) = {m}" using assms(1) \<open>ab_pending B (y_buf y) = []\<close> by (simp add: async_buffer_ok_def)
  ultimately show ?thesis by (auto simp: insert(1) storing_def landed_def)
next
  case (work k t)
  then have l: "landed B m P y" "y_todo y = []" using assms(5) by (auto simp: storing_def)
  with work_landed [OF assms(1-4) l(1) assms(6-8) work] show ?thesis by (simp add: storing_def)
qed (use assms(5) in \<open>auto simp: storing_def\<close>)

lemma fencing_step:
  assumes "async_buffer_ok msg_equiv B" and "protocol E" and "hospitable E a" and "sys_ok B a y" and "fencing B m P y"
    and "\<And>fd x. P (fst (on_data E fd (m_str m) x))" and "m_noreply m" and "\<not> lists_atoms m" and "steady E a P" and "undisturbed E P"
    and "sstep B L E None y y'"
  shows "fencing B m P y'"
  using assms(11)
proof cases
  case (barrier k cs z)
  then obtain r d where k: "k = fence r d" "cs = []" and l: "landed B m P y" using assms(5) by (auto simp: fencing_def)
  with barrier(3) have "P (srv (sys_net y))" by (simp add: landed_def)
  with fence_server [OF barrier(4) [unfolded k] assms(1-3,9,10,4)] have "P (srv (sys_net z))" "y_buf z = y_buf y" by simp_all
  with barrier k show ?thesis by (simp add: fencing_def sys_net_def)
next
  case (work k t)
  then have l: "landed B m P y" "\<exists>k d. y_todo y = [BBarrierMsg (fence k d)]" using assms(5) by (auto simp: fencing_def)
  with work_landed [OF assms(1-4) l(1) assms(6-8) work] show ?thesis by (simp add: fencing_def)
qed (use assms(5) in \<open>auto simp: fencing_def\<close>)

lemma storing_fence:
  assumes "storing B m P y" and "sstep B L E (Some Barrier) y y'"
  shows "fencing B m P y'"
  using assms(2)
proof cases
  case (call junk r g)
  with assms(1) have "landed B m P y" by (auto simp: storing_def)
  moreover have "sys_net y' = sys_net y" "y_todo y' = [BBarrierMsg (fence (x_rng (g_x (y_node y))) zero_pkt)]"
    using call by (auto simp: cog_barrier_def barrier_run sys_net_def after_def next_rng_def as_thread_def add_call_def)
  ultimately show ?thesis using call by (auto simp: fencing_def landed_def after_def)
qed

lemma ssteps_fencing:
  assumes "ssteps B L E y1 ds y2" and "async_buffer_ok msg_equiv B" and "protocol E" and "hospitable E a" and "sys_ok B a y1"
    and "storing B m P y1" and "\<And>fd x. P (fst (on_data E fd (m_str m) x))" and "m_noreply m" and "\<not> lists_atoms m"
    and "steady E a P" and "undisturbed E P"
  shows "(ds = [] \<longrightarrow> storing B m P y2) \<and> (ds = [Barrier] \<longrightarrow> fencing B m P y2)"
  using assms(1)
proof (induction rule: ssteps.induct)
  case (step ds y l y')
  have ok: "sys_ok B a y" by (rule ssteps_keeps [OF step.hyps(1) assms(2-5)])
  show ?case
  proof (cases l)
    case None
    with step storing_step [where P = P, OF assms(2-4) ok _ assms(7-9)] fencing_step [where P = P, OF assms(2-4) ok _ assms(7-11)] show ?thesis by auto
  next
    case (Some c)
    with step storing_fence show ?thesis by (auto simp: Cons_eq_append_conv append_eq_Cons_conv)
  qed
qed (use assms(6) in simp)

lemma store_call:
  assumes "sys_ok B a y" and "sstep B L E (Some (Do (GStoreValue h key))) y y'"
  shows "y_todo y' = [BInsert (plain None True (cog_storeValue_msg L (g_as (y_node y)) h key) zero_pkt)]" and "y_buf y' = y_buf y"
proof -
  have "cog_connected (as_thread NTHREADS y)" using assms(1) by (auto simp: sys_ok_def cog_connected_def chan_connected_def)
  moreover have "g_as (as_thread NTHREADS y) = g_as (y_node y)" by (simp add: as_thread_def)
  moreover from assms(2) obtain junk r g where "cog_storeValue L h key (as_thread NTHREADS y) = (r, g)"
    "y' = (after NTHREADS g y)\<lparr>y_todo := calls g\<rparr>" by cases auto
  ultimately show "y_todo y' = [BInsert (plain None True (cog_storeValue_msg L (g_as (y_node y)) h key) zero_pkt)]" "y_buf y' = y_buf y"
    by (auto simp: storeValue_run after_def)
qed

text \<open>C15: what is stored through the multi-threaded node before a barrier is what a single-socket node
  loads after it. From any reachable state with nothing pending, when \<open>storeValue\<close> and \<open>barrier\<close> of one
  client have returned, \<open>loadValue\<close> of another client on the same server sets on its atom the value that
  the first client had, whichever worker sent it. The server is assumed to remember a value and not to
  forget it when a client connects or sends a barrier.\<close>

theorem cog_store_simple_load:
  assumes "async_buffer_ok msg_equiv B" and "serves_all E ans" and "hospitable E a" and "fresh_sys B a y0"
    and "ssteps B L E y0 cs y" and "ab_pending B (y_buf y) = []" and "sstep B L E (Some (Do (GStoreValue h key))) y y1"
    and "ssteps B L E y1 [Barrier] y2" and "y_todo y2 = []"
    and "v = getValue L (g_as (y_node y)) h key" and "decode_value L (encode_value L v @ [NL]) 0 = Inr (v, p)"
    and "remembers ans (encode_atom L (g_as (y_node y)) h False) (encode_atom L (g_as (y_node y)) key False) (encode_value L v)"
    and "steady E a (answers ans (simple_loadValue_msg L (s_as t) h' key') (encode_value L v @ [NL]))"
    and "undisturbed E (answers ans (simple_loadValue_msg L (s_as t) h' key') (encode_value L v @ [NL]))"
    and "serves E' (s_sockfd t) ans" and "in_sync t" and "srv (s_net t) = srv (sys_net y2)"
    and "encode_atom L (s_as t) h' False = encode_atom L (g_as (y_node y)) h False"
    and "encode_atom L (s_as t) key' False = encode_atom L (g_as (y_node y)) key False"
  shows "\<exists>t'. simple_loadValue L E' h' key' t = (Inr (), t') \<and> in_sync t' \<and> s_as t' = with_value L h' key' v (s_as t)"
proof -
  let ?str = "cog_storeValue_msg L (g_as (y_node y)) h key"
  let ?m = "plain None True ?str zero_pkt"
  let ?P = "answers ans (simple_loadValue_msg L (s_as t) h' key') (encode_value L v @ [NL])"
  note E = serves_protocol [OF assms(2)] assms(3)
  have ok: "sys_ok B a y" by (rule ssteps_keeps [OF assms(5,1) E fresh_sys_ok [OF assms(4)]])
  have "?P (fst (on_data E fd ?str x))" for fd x
  proof -
    from assms(2) have "serves E fd ans" unfolding serves_all_def ..
    from servesD(3) [OF this cog_msgs_noreply(2), of L "g_as (y_node y)" h key x] have "ans ?str x = (fst (on_data E fd ?str x), None)" ..
    then have "fst (on_data E fd ?str x) = fst (ans ?str x)" by simp
    with assms(10,12,18,19) show ?thesis by (simp add: answers_def remembers_def simple_loadValue_msg_def cog_storeValue_msg_def)
  qed
  then have est: "?P (fst (on_data E fd (m_str ?m) x))" for fd x by (simp add: plain_def)
  have m: "m_noreply ?m" "\<not> lists_atoms ?m" by (simp_all add: plain_def)
  have "storing B ?m ?P y1" using store_call [OF ok assms(7)] assms(6) by (simp add: storing_def)
  from ssteps_fencing [OF assms(8,1) E sstep_keeps [OF assms(1) E assms(7) ok] this est m assms(13,14)] assms(9)
  have "?P (srv (sys_net y2))" by (auto simp: fencing_def)
  with assms(17) have "snd (ans (simple_loadValue_msg L (s_as t) h' key') (srv (s_net t))) = Some (encode_value L v @ [NL])" by (simp add: answers_def)
  from load_value [OF assms(15,16,11) this] show ?thesis .
qed

section \<open>An example\<close>

definition memory_host :: "string list env" where
  "memory_host = memory_env\<lparr>accepts := (\<lambda>a x. a = 7),
     on_data := (\<lambda>fd msg x. if msg = ''sexpr'' @ [NL] then (x, [Seg ''> '']) else on_data memory_env fd msg x)\<rparr>"

definition memory_sys :: "(nat, (nat \<times> nat \<times> nat) list, string list, (handler, nat Pkt) Msg list) sys" where
  "memory_sys =
     \<lparr>y_node =
        \<lparr>g_name = ''cog://host/'', g_uri = ''cog://host/'',
         g_x = \<lparr>x_chan = (chan_new 1)\<lparr>c_servinfo := Some [7]\<rparr>, x_tls = tlso_new, x_rng = 1, x_seq = 0,
                x_net = \<lparr>srv = [], rx = (\<lambda>fd. []), open_fds = [], fd_pool = [4, 5, 6, 7, 8], tx = []\<rparr>\<rparr>,
         g_fid_map = [], g_as = [(1, 2, 3)]\<rparr>,
      y_tls = (\<lambda>_. tlso_new), y_buf = [], y_todo = []\<rparr>"

lemma memory_host_serves: "serves_all memory_host small_memory"
proof -
  have "\<not> wants_reply (''sexpr'' @ [NL])" "\<not> noreply (''sexpr'' @ [NL])" by (simp_all add: wants_reply_iff noreply_iff)
  with memory_serves show ?thesis unfolding serves_all_def serves_def by (auto simp: memory_host_def memory_env_def)
qed

lemma memory_host_lets_in: "hospitable memory_host 7"
  by (simp add: hospitable_def memory_host_def memory_env_def chan_bufsize_def strip_def lstrip_def rstrip_def SYN_def)

lemma memory_fresh_sys: "fresh_sys small_buffer 7 memory_sys"
  by (simp add: fresh_sys_def memory_sys_def small_buffer_def fd_of_def sys_net_def tlso_new_def NTHREADS_def)

lemma memory_steady: "steady memory_host 7 P"
  by (simp add: steady_def memory_host_def memory_env_def)

lemma memory_undisturbed: "wants_reply q \<Longrightarrow> undisturbed memory_host (answers small_memory q r)"
proof -
  have "noreply (barrier_text ''4'' rnd)" "barrier_text ''4'' rnd \<noteq> ''sexpr'' @ [NL]" "\<not> prefix (''(cog-set-value! '' @ k) (barrier_text ''4'' rnd)"
    for rnd k by (simp_all add: barrier_text_def noreply_iff)
  moreover assume "wants_reply q"
  ultimately show ?thesis
    by (simp add: undisturbed_def answers_def memory_host_def memory_env_def small_memory_def small_lookup_def wants_reply_def)
qed

theorem cog_store_simple_load_witness:
  "\<exists>y1 y2 t'. sstep small_buffer small_lib memory_host (Some (Do (GStoreValue 1 2))) memory_sys y1 \<and>
    ssteps small_buffer small_lib memory_host y1 [Barrier] y2 \<and>
    simple_loadValue small_lib memory_env 1 2 (with_server (srv (sys_net y2)) (small_client [])) = (Inr (), t') \<and> s_as t' = [(1, 2, 3)]"
proof -
  note E = small_buffer_ok serves_protocol [OF memory_host_serves] memory_host_lets_in
  have y: "y_todo memory_sys = []" "ab_pending small_buffer (y_buf memory_sys) = []" "g_as (y_node memory_sys) = [(1, 2, 3)]"
    by (simp_all add: memory_sys_def small_buffer_def)
  from store_fence_run [OF E fresh_sys_ok [OF memory_fresh_sys] y(1,2), of small_lib 1 2] obtain y1 y2 where
    run: "sstep small_buffer small_lib memory_host (Some (Do (GStoreValue 1 2))) memory_sys y1"
      "ssteps small_buffer small_lib memory_host y1 [Barrier] y2" "y_todo y2 = []" by blast
  let ?t = "with_server (srv (sys_net y2)) (small_client [])"
  have t: "in_sync ?t" "s_as ?t = []" "srv (s_net ?t) = srv (sys_net y2)"
    using small_client_in_sync [of "[]"] by (simp_all add: with_server_def in_sync_def small_client_def)
  have q: "wants_reply (simple_loadValue_msg small_lib (s_as ?t) 1 2)" by (rule fetch_reply)
  from cog_store_simple_load [OF small_buffer_ok memory_host_serves memory_host_lets_in memory_fresh_sys ssteps.start y(2) run,
      where v = 3 and p = 4 and t = ?t and h' = 1 and key' = 2 and E' = memory_env, OF _ _ _ memory_steady memory_undisturbed [OF q] memory_serves t(1,3)]
  obtain t' where "simple_loadValue small_lib memory_env 1 2 ?t = (Inr (), t')" "s_as t' = with_value small_lib 1 2 3 (s_as ?t)"
    using small_remembers small_decode by (auto simp: y(3) small_lib_values simp del: One_nat_def)
  with run t(2) show ?thesis by (auto simp: with_value_def small_lib_values simp del: One_nat_def)
qed

end
