(* ===== verification/LoadAtoms.thy ===== *)
theory LoadAtoms
  imports SimpleRpc
begin

text \<open>
  What the bulk requests load. The server answers \<open>cog-get-atoms\<close> by a list of atoms, and the client asks
  for the values of each; the theorem shows that exactly the listed atoms, with exactly the values the
  server has for them, arrive in the client's atomspace. The proofs run the programs of the calls over
  the ideal connection and carry the result over to the sockets by refinement.
\<close>

section \<open>Steps over the ideal connection\<close>

definition set_space :: "'w \<Rightarrow> (nat \<times> ('h, 'w) shared, 'srv) rpc \<Rightarrow> (nat \<times> ('h, 'w) shared, 'srv) rpc" where
  "set_space w r = r\<lparr>r_client := (fst (r_client r), (snd (r_client r))\<lparr>h_as := w\<rparr>)\<rparr>"

definition space_of :: "(nat \<times> ('h, 'w) shared, 'srv) rpc \<Rightarrow> 'w" where
  "space_of r = h_as (snd (r_client r))"

lemma set_space_simps [simp]:
  "space_of (set_space w r) = w" "r_srv (set_space w r) = r_srv r" "r_reply (set_space w r) = r_reply r"
  "set_space w (set_space w' r) = set_space w r" "h_fid_map (snd (r_client (set_space w r))) = h_fid_map (snd (r_client r))"
  "set_space (space_of r) r = r"
  by (simp_all add: set_space_def space_of_def)

lemma rpc_simps:
  "rpc_exec ans (Return x) = ret x"
  "rpc_exec ans (pbnd p k) = bnd (rpc_exec ans p) (\<lambda>x. rpc_exec ans (k x))"
  "rpc_exec ans (pseq p q) = seq (rpc_exec ans p) (rpc_exec ans q)"
  "rpc_exec ans (locked m p) = rpc_exec ans p"
  "rpc_exec ans (rd f) r = (Inr (f (snd (r_client r))), r)"
  "rpc_exec ans (on_space g) r = (case g (space_of r) of (x, w) \<Rightarrow> (x, set_space w r))"
  "rpc_exec ans (of_lib (Inr x)) = ret x" "rpc_exec ans (of_res (Inr x)) = ret x"
  by (simp_all add: rpc_exec_def exec_simps rd_def exec_act gets_def on_space_def set_space_def space_of_def of_lib_def of_res_def
      split: prod.splits)

lemma rpc_wr_same: "f (snd (r_client r)) = snd (r_client r) \<Longrightarrow> rpc_exec ans (wr f) r = (Inr (), r)"
  by (simp add: rpc_exec_def wr_def exec_act modify_def)

lemma rpc_ask: "ans msg (r_srv r) = (r_srv r, Some m) \<Longrightarrow> r_reply r = None \<Longrightarrow> rpc_exec ans (ask msg) r = (Inr m, r)"
  by (simp add: rpc_exec_def exec_simps seq_def bnd_def rpc_send_def rpc_recv_def)

section \<open>Lists of atoms\<close>

text \<open>An entry of a list: the text of the atom, the atom, and its keys and values.\<close>

record ('h, 'v) entry =
  en_text :: string
  en_atom :: 'h
  en_kvs :: "('h \<times> 'v) list"

definition atoms_text :: "('h, 'v) entry list \<Rightarrow> string" where
  "atoms_text es = ''('' @ concat (map en_text es) @ '')''"

text \<open>The coder finds an atom in a list and reads it back, without new frames.\<close>

definition reads_entry :: "('h, 'v, 't, 'w) atomlib \<Rightarrow> (string, 'h) umap \<Rightarrow> ('h, 'v) entry \<Rightarrow> bool" where
  "reads_entry L fid e \<longleftrightarrow> 2 \<le> length (en_text e) \<and>
     (\<forall>pre post n. length pre + length (en_text e) \<le> n \<longrightarrow>
        get_next_expr L (pre @ en_text e @ post) (length pre) n = Inr (0, length pre, length pre + length (en_text e) - 1) \<and>
        decode_atom_in L (pre @ en_text e @ post) (length pre) (length pre + length (en_text e) - 1) fid = Inr (en_atom e, fid))"

text \<open>At the end of the list the coder finds nothing.\<close>

definition finds_end :: "('h, 'v, 't, 'w) atomlib \<Rightarrow> bool" where
  "finds_end L \<longleftrightarrow> (\<forall>s n. \<exists>p. get_next_expr L s n n = Inr (p, n, n))"

text \<open>The server in state \<open>x\<close> lists \<open>es\<close> when asked \<open>msg\<close>, and has their values; asking does not change
  it.\<close>

definition lists ::
  "('h, 'v, 't, 'w) atomlib \<Rightarrow> ('h \<Rightarrow> string) \<Rightarrow> ('v \<Rightarrow> string) \<Rightarrow> (string \<Rightarrow> 'srv \<Rightarrow> 'srv \<times> string option) \<Rightarrow> 'srv \<Rightarrow>
   string \<Rightarrow> ('h, 'v) entry list \<Rightarrow> bool" where
  "lists L ek ev ans x msg es \<longleftrightarrow>
     ans msg x = (x, Some (atoms_text es @ [NL])) \<and> length (atoms_text es @ [NL]) < npos \<and>
     (\<forall>e \<in> set es.
        ans (''(cog-keys->alist '' @ en_text e @ '')'' @ [NL]) x = (x, Some (alist_text ek ev (en_kvs e) @ [NL])) \<and>
        length (alist_text ek ev (en_kvs e) @ [NL]) < npos \<and>
        (\<forall>(k, v) \<in> set (en_kvs e). reads_key L ek k \<and> reads_value L ev v))"

text \<open>What loading an entry does to the client's atomspaces: the atom is added to the table if it is in
  no atomspace yet, and its values are attached.\<close>

definition load_entry :: "('h, 'v, 't, 'w) atomlib \<Rightarrow> 'h option \<Rightarrow> ('h, 'v) entry \<Rightarrow> ('w, unit) io" where
  "load_entry L table e =
     bnd (gets (\<lambda>w. getAtomSpace L w (en_atom e))) (\<lambda>home.
     bnd (case home of None \<Rightarrow> lib_call (add_nocheck L table (en_atom e)) | Some _ \<Rightarrow> ret (en_atom e)) (\<lambda>h.
     bnd (gets (\<lambda>w. case table of None \<Rightarrow> getAtomSpace L w h | Some a \<Rightarrow> Some a)) (\<lambda>as.
     for_each (\<lambda>(k, v). attach_value L as h k v) (en_kvs e))))"

definition place :: "('h, 'v, 't, 'w) atomlib \<Rightarrow> 'h option \<Rightarrow> 'h \<Rightarrow> 'w \<Rightarrow> 'h \<times> 'w" where
  "place L table a w = (case getAtomSpace L w a of None \<Rightarrow> add_nocheck L table a w | Some _ \<Rightarrow> (a, w))"

lemma load_entry_place:
  "load_entry L table e w =
     (case place L table (en_atom e) w of
        (h, w1) \<Rightarrow> bnd (gets (\<lambda>w. case table of None \<Rightarrow> getAtomSpace L w h | Some a \<Rightarrow> Some a))
          (\<lambda>as. for_each (\<lambda>(k, v). attach_value L as h k v) (en_kvs e)) w1)"
  by (simp add: load_entry_def place_def bnd_def gets_def ret_def lib_call_def split: option.splits prod.splits)

lemma rpc_place:
  "rpc_exec ans (case getAtomSpace L (h_as (snd (r_client r))) a of None \<Rightarrow> on_space (lib_call (add_nocheck L table a)) | Some _ \<Rightarrow> Return a) r =
     (Inr (fst (place L table a (space_of r))), set_space (snd (place L table a (space_of r))) r)"
  by (simp add: place_def rpc_simps lib_call_def ret_def flip: space_of_def split: option.splits prod.splits)

lemma attach_all_returns: "\<exists>w'. for_each (\<lambda>(k, v). attach_value L as h k v) kvs w = (Inr (), w')"
proof (induction kvs arbitrary: w)
  case (Cons kv kvs)
  obtain w1 where "attach_value L as h (fst kv) (snd kv) w = (Inr (), w1)" using attach_value_returns by metis
  with Cons.IH [of w1] show ?case by (simp add: seq_def bnd_def case_prod_beta)
qed (simp add: ret_def)

lemma load_entry_returns: "\<exists>w'. load_entry L table e w = (Inr (), w')"
  using attach_all_returns
  by (auto simp: load_entry_def bnd_def gets_def lib_call_def ret_def split: option.splits prod.splits)

lemma load_all_returns: "\<exists>w'. for_each (load_entry L table) es w = (Inr (), w')"
proof (induction es arbitrary: w)
  case (Cons e es)
  obtain w1 where "load_entry L table e w = (Inr (), w1)" using load_entry_returns by metis
  with Cons.IH [of w1] show ?case by (simp add: seq_def bnd_def)
qed (simp add: ret_def)

section \<open>The loop over a list\<close>

lemma substr_here:
  assumes "expr = pre @ t @ post" and "length expr < npos" and "0 < length t"
  shows "substr expr (length pre) (size_add (size_sub (length pre + length t - 1) (length pre)) 1) = Inr t"
proof -
  have "length t - 1 < 2 ^ 64" using assms(1,2) by (simp add: npos_def)
  moreover have "length pre + length t - 1 + 2 ^ 64 - length pre = (length t - 1) + 2 ^ 64" using assms(3) by linarith
  ultimately have "size_sub (length pre + length t - 1) (length pre) = length t - 1" by (simp add: size_sub_def)
  moreover have "size_add (length t - 1) 1 = length t"
    using assms by (simp add: size_add_def npos_def)
  ultimately show ?thesis using assms(1) by (simp add: substr_def)
qed

lemma atoms_loop_entry:
  assumes "expr = pre @ en_text e @ post" and "length expr < npos" and "length pre + length (en_text e) \<le> n"
    and "reads_entry L (h_fid_map (snd (r_client r))) e" and "r_reply r = None"
    and "ans (''(cog-keys->alist '' @ en_text e @ '')'' @ [NL]) (r_srv r) = (r_srv r, Some (alist_text ek ev (en_kvs e) @ [NL]))"
    and "length (alist_text ek ev (en_kvs e) @ [NL]) < npos"
    and "\<forall>(k, v) \<in> set (en_kvs e). reads_key L ek k \<and> reads_value L ev v"
    and "load_entry L table e (space_of r) = (Inr (), w)"
  shows "rpc_exec ans (t_atoms_loop (Suc fuel) L table expr n (length pre)) r =
    rpc_exec ans (t_atoms_loop fuel L table expr n (length (pre @ en_text e))) (set_space w r)"
proof -
  let ?fid = "h_fid_map (snd (r_client r))" and ?r = "length pre + length (en_text e) - 1"
  have g: "get_next_expr L expr (length pre) n = Inr (0, length pre, ?r)"
    and d: "decode_atom_in L expr (length pre) ?r ?fid = Inr (en_atom e, ?fid)" and t: "2 \<le> length (en_text e)"
    using assms(1,3,4) unfolding reads_entry_def by blast+
  have ne: "length pre \<noteq> ?r" using t by simp
  have sub: "substr expr (length pre) (size_add (size_sub ?r (length pre)) 1) = Inr (en_text e)"
    by (rule substr_here [OF assms(1,2)]) (use t in linarith)
  have nx: "size_add ?r 1 = length (pre @ en_text e)"
    using t assms(1,2) by (simp add: size_add_def npos_def)
  have al: "ro_decode_alist L table h (alist_text ek ev (en_kvs e) @ [NL]) =
      bnd (gets (\<lambda>w. case table of None \<Rightarrow> getAtomSpace L w h | Some a \<Rightarrow> Some a))
        (\<lambda>as. for_each (\<lambda>(k, v). attach_value L as h k v) (en_kvs e))" for h
    by (rule ro_decode_alist_text [OF assms(7) _ assms(8)]) (simp add: NL_def)
  obtain h w1 where p: "place L table (en_atom e) (space_of r) = (h, w1)" by fastforce
  have l: "ro_decode_alist L table h (alist_text ek ev (en_kvs e) @ [NL]) w1 = (Inr (), w)"
    using assms(9) by (simp add: load_entry_place p al)
  have wr: "rpc_exec ans (wr (h_fid_map_update (\<lambda>_. ?fid))) r = (Inr (), r)" by (rule rpc_wr_same) simp
  have a: "rpc_exec ans (ask (''(cog-keys->alist '' @ en_text e @ '')'' @ [NL])) (set_space w1 r) =
      (Inr (alist_text ek ev (en_kvs e) @ [NL]), set_space w1 r)"
    by (rule rpc_ask) (simp_all only: set_space_simps assms(5,6))
  have o: "rpc_exec ans (on_space (ro_decode_alist L table h (alist_text ek ev (en_kvs e) @ [NL]))) (set_space w1 r) = (Inr (), set_space w r)"
    by (simp add: rpc_simps l)
  have "rpc_exec ans (t_atoms_loop (Suc fuel) L table expr n (length pre)) r =
      bnd (rpc_exec ans (rd (\<lambda>g. getAtomSpace L (h_as g) (en_atom e)))) (\<lambda>home.
      bnd (rpc_exec ans (case home of None \<Rightarrow> on_space (lib_call (add_nocheck L table (en_atom e))) | Some _ \<Rightarrow> Return (en_atom e))) (\<lambda>h.
      bnd (rpc_exec ans (ask (''(cog-keys->alist '' @ en_text e @ '')'' @ [NL]))) (\<lambda>msg.
      seq (rpc_exec ans (on_space (ro_decode_alist L table h msg)))
      (rpc_exec ans (t_atoms_loop fuel L table expr n (length (pre @ en_text e))))))) r"
    unfolding t_atoms_loop.simps(2) rpc_simps(2) g
    by (simp only: rpc_simps(1-3,7) bnd_ret_left prod.case ne if_False less_irrefl)
       (simp only: rpc_simps(1-3,5,7,8) bnd_run(1) d bnd_ret_left prod.case seq_run(1) wr sub nx)
  also have "\<dots> = rpc_exec ans (t_atoms_loop fuel L table expr n (length (pre @ en_text e))) (set_space w r)"
    by (simp only: bnd_run(1) seq_run(1) rpc_simps(5) rpc_place p fst_conv snd_conv a o)
  finally show ?thesis .
qed

lemma atoms_loop_entries:
  assumes "length expr < npos" and "finds_end L"
  shows "expr = pre @ concat (map en_text es) @ '')'' @ post \<Longrightarrow> r_reply r = None \<Longrightarrow> length es < fuel \<Longrightarrow>
    n = length pre + length (concat (map en_text es)) \<Longrightarrow>
    \<forall>e \<in> set es. reads_entry L (h_fid_map (snd (r_client r))) e \<and>
      ans (''(cog-keys->alist '' @ en_text e @ '')'' @ [NL]) (r_srv r) = (r_srv r, Some (alist_text ek ev (en_kvs e) @ [NL])) \<and>
      length (alist_text ek ev (en_kvs e) @ [NL]) < npos \<and>
      (\<forall>(k, v) \<in> set (en_kvs e). reads_key L ek k \<and> reads_value L ev v) \<Longrightarrow>
    for_each (load_entry L table) es (space_of r) = (Inr (), w) \<Longrightarrow>
    rpc_exec ans (t_atoms_loop fuel L table expr n (length pre)) r = (Inr (), set_space w r)"
proof (induction es arbitrary: pre r fuel)
  case Nil
  from assms(2) obtain p where "get_next_expr L expr n n = Inr (p, n, n)" unfolding finds_end_def by blast
  moreover obtain m where "fuel = Suc m" using Nil.prems(3) by (cases fuel) auto
  ultimately show ?case using Nil.prems(4,6) by (auto simp: rpc_simps bnd_ret_left ret_def)
next
  case (Cons e es)
  obtain m where m: "fuel = Suc m" using Cons.prems(3) by (cases fuel) auto
  obtain w1 where w1: "load_entry L table e (space_of r) = (Inr (), w1)" using load_entry_returns by metis
  with Cons.prems(6) have w: "for_each (load_entry L table) es (space_of (set_space w1 r)) = (Inr (), w)" by (simp add: seq_def bnd_def)
  have x: "expr = pre @ en_text e @ (concat (map en_text es) @ '')'' @ post)" using Cons.prems(1) by simp
  have "rpc_exec ans (t_atoms_loop (Suc m) L table expr n (length pre)) r =
      rpc_exec ans (t_atoms_loop m L table expr n (length (pre @ en_text e))) (set_space w1 r)"
    by (rule atoms_loop_entry [OF x assms(1) _ _ Cons.prems(2) _ _ _ w1]) (use Cons.prems(4,5) in auto)
  also have "\<dots> = (Inr (), set_space w (set_space w1 r))"
    by (rule Cons.IH [OF _ _ _ _ _ w]) (use Cons.prems m in auto)
  finally show ?case by (simp add: m)
qed

lemma find_open: "find_char (CHR ''('') (''('' @ rest) 0 = 0"
  by (rule find_char_here) simp

lemma rfind_last: "c \<notin> set post \<Longrightarrow> rfind_char c (pre @ c # post) = length pre"
proof -
  assume "c \<notin> set post"
  then have "takeWhile (\<lambda>x. x \<noteq> c) (rev (pre @ c # post)) = rev post" by (simp add: takeWhile_to)
  then show ?thesis by (simp add: rfind_char_def)
qed

lemma ask_atoms_run:
  assumes "lists L ek ev ans (r_srv r) msg es" and "finds_end L" and "r_reply r = None"
    and "\<forall>e \<in> set es. reads_entry L (h_fid_map (snd (r_client r))) e"
    and "for_each (load_entry L table) es (space_of r) = (Inr (), w)"
  shows "rpc_exec ans (t_ask_atoms L table msg) r = (Inr (), set_space w r)"
proof -
  let ?x = "atoms_text es @ [NL]" and ?n = "1 + length (concat (map en_text es))"
  have l: "length ?x < npos" and a: "rpc_exec ans (ask msg) r = (Inr ?x, r)"
    using assms(1,3) rpc_ask [of ans msg r] by (auto simp: lists_def)
  have x: "?x = ''('' @ concat (map en_text es) @ '')'' @ [NL]" by (simp add: atoms_text_def)
  have f: "size_add (find_char (CHR ''('') ?x 0) 1 = 1"
    unfolding x find_open by (simp add: size_add_def)
  have r: "rfind_char (CHR '')'') ?x = ?n"
    using rfind_last [of "CHR '')''" "[NL]" "''('' @ concat (map en_text es)"] by (simp add: atoms_text_def NL_def)
  have fuel: "length es < length ?x + 2"
  proof -
    have "length es \<le> length (concat (map en_text es))" using assms(4)
      by (induction es) (auto simp: reads_entry_def)
    then show ?thesis by (simp add: x)
  qed
  have "rpc_exec ans (if 1 = ?n then Return () else t_atoms_loop (length ?x + 2) L table ?x ?n 1) r = (Inr (), set_space w r)"
  proof (cases "1 = ?n")
    case True
    have "es = []" using True assms(4) by (cases es) (auto simp: reads_entry_def)
    with assms(5) show ?thesis unfolding if_P [OF True] by (auto simp: rpc_simps ret_def)
  next
    case False
    have "rpc_exec ans (t_atoms_loop (length ?x + 2) L table ?x ?n (length ''('')) r = (Inr (), set_space w r)"
      by (rule atoms_loop_entries [OF l assms(2) x assms(3) fuel _ _ assms(5)]) (use assms(1,4) in \<open>auto simp: lists_def\<close>)
    moreover have "length ''('' = 1" by simp
    ultimately show ?thesis unfolding if_not_P [OF False] by (simp only:)
  qed
  with a f r show ?thesis by (simp only: t_ask_atoms_def rpc_simps bnd_run(1) Let_def)
qed

text \<open>C7: \<open>loadAtomSpace\<close> loads exactly what the server has. When the server lists the nodes and the links
  of its atomspace, each by a text that the coder reads back, and gives for each its keys and values,
  the call adds these atoms, in order, to the given atomspace unless they are in one already, and
  attaches exactly these values; the connection stays in step, and the server is as it was.\<close>

theorem loadAtomSpace_loads:
  assumes "serves E (s_sockfd s) ans" and "in_sync s" and "finds_end L"
    and "lists L ek ev ans (srv (s_net s)) (get_atoms_msg ''Node'' '' #t'') nodes"
    and "lists L ek ev ans (srv (s_net s)) (get_atoms_msg ''Link'' '' #t'') links"
    and "\<forall>e \<in> set (nodes @ links). reads_entry L (s_fid_map s) e"
  shows "\<exists>s'. simple_loadAtomSpace L E table s = (Inr (), s') \<and> in_sync s' \<and> srv (s_net s') = srv (s_net s) \<and>
    for_each (load_entry L table) (nodes @ links) (s_as s) = (Inr (), s_as s')"
proof -
  let ?p = "t_run L (LoadAtomSpace table)" and ?v = "simple_view s"
  obtain w1 where w1: "for_each (load_entry L table) nodes (s_as s) = (Inr (), w1)" using load_all_returns by metis
  obtain w2 where w2: "for_each (load_entry L table) links w1 = (Inr (), w2)" using load_all_returns by metis
  have v: "r_srv ?v = srv (s_net s)" "r_reply ?v = None" "space_of ?v = s_as s" "h_fid_map (snd (r_client ?v)) = s_fid_map s"
    by (simp_all add: simple_view_def space_of_def node_get_def)
  have "rpc_exec ans (t_ask_atoms L table (get_atoms_msg ''Node'' '' #t'')) ?v = (Inr (), set_space w1 ?v)"
    by (rule ask_atoms_run [OF _ assms(3)]) (use assms(4,6) v w1 in auto)
  moreover have "rpc_exec ans (t_ask_atoms L table (get_atoms_msg ''Link'' '' #t'')) (set_space w1 ?v) = (Inr (), set_space w2 (set_space w1 ?v))"
    by (rule ask_atoms_run [OF _ assms(3)]) (use assms(5,6) v w2 in auto)
  ultimately have p: "rpc_exec ans ?p ?v = (Inr (), set_space w2 ?v)"
    by (simp add: t_loadAtomSpace_def rpc_simps seq_run)
  from sr.exec_refines [OF assms(1) refl assms(2) t_run_paired, of L "LoadAtomSpace table"] p obtain s' where
    s': "simple_exec E ?p s = (Inr (), s')" "in_sync s'" "simple_view s' = set_space w2 ?v"
    unfolding simple_exec_def by auto
  have "simple_loadAtomSpace L E table s = (Inr (), s')"
    using t_run_agrees [of E L "LoadAtomSpace table"] s'(1) unfolding agree_def
    by (metis Inl_Inr_False fst_conv prod.collapse simple_run.simps(11) snd_conv)
  moreover have "space_of (simple_view s') = w2" "r_srv (simple_view s') = srv (s_net s)" using s'(3) v by simp_all
  ultimately show ?thesis
    using s'(2) w1 w2 by (simp add: for_each_append seq_run simple_view_def space_of_def node_get_def)
qed

text \<open>A server with two nodes, one of which has a value.\<close>

definition small_entry :: "nat \<Rightarrow> (nat \<times> nat) list \<Rightarrow> (nat, nat) entry" where
  "small_entry n kvs = \<lparr>en_text = num_text n, en_atom = n, en_kvs = kvs\<rparr>"

definition small_nodes :: "(nat, nat) entry list" where
  "small_nodes = [small_entry 1 [(2, 3)], small_entry 2 []]"

definition small_stock :: "string \<Rightarrow> string" where
  "small_stock msg =
     tidy (if msg = get_atoms_msg ''Node'' '' #t'' then atoms_text small_nodes
           else if msg = ''(cog-keys->alist '' @ num_text 1 @ '')'' @ [NL] then alist_text num_text num_text [(2, 3)] else ''()'')"

definition stock_ans :: "string \<Rightarrow> unit \<Rightarrow> unit \<times> string option" where
  "stock_ans msg x = (x, if wants_reply msg then Some (small_stock msg) else None)"

abbreviation stock_env :: "unit env" where
  "stock_env \<equiv> small_env (\<lambda>msg. if wants_reply msg then [Seg (small_stock msg)] else [])"

lemma stock_serves: "serves stock_env fd stock_ans"
  unfolding serves_def using tidy_reply by (auto simp: small_env_def stock_ans_def small_stock_def wants_reply_def)

lemma small_reads_entry: "0 < n \<Longrightarrow> reads_entry small_lib fid (small_entry n kvs)"
  unfolding reads_entry_def small_entry_def
  by (auto simp: small_lib_def read_num_text) (simp_all add: num_text_def)

lemma small_finds_end: "finds_end small_lib"
  by (simp add: finds_end_def small_lib_def)

lemma few_npos: "Suc (Suc (Suc (Suc (Suc (Suc (Suc (Suc (Suc (Suc (Suc (Suc (Suc (Suc (Suc (Suc 0))))))))))))))) < npos"
  by (simp add: npos_def)

lemma stock_lists:
  "lists small_lib num_text num_text stock_ans x (get_atoms_msg ''Node'' '' #t'') small_nodes"
  "lists small_lib num_text num_text stock_ans x (get_atoms_msg ''Link'' '' #t'') []"
  using few_npos
  by (simp_all add: lists_def stock_ans_def small_stock_def small_nodes_def small_entry_def get_atoms_msg_def wants_reply_iff small_reads
      atoms_text_def alist_text_def pair_text_def num_text_def tidy_def SYN_def NL_def NUL_def numeral_2_eq_2 numeral_3_eq_3)

theorem loadAtomSpace_loads_witness:
  "\<exists>s'. simple_loadAtomSpace small_lib stock_env (Some 8) (small_simple []) = (Inr (), s') \<and> in_sync s' \<and> s_as s' = [(1, 2, 3)]"
proof -
  have "\<forall>e \<in> set (small_nodes @ []). reads_entry small_lib (s_fid_map (small_simple [])) e"
    by (simp add: small_nodes_def small_reads_entry)
  from loadAtomSpace_loads [OF stock_serves small_in_sync small_finds_end stock_lists this, of "Some 8"] obtain s' where
    s': "simple_loadAtomSpace small_lib stock_env (Some 8) (small_simple []) = (Inr (), s')" "in_sync s'"
      "for_each (load_entry small_lib (Some 8)) (small_nodes @ []) (s_as (small_simple [])) = (Inr (), s_as s')" by blast
  have "for_each (load_entry small_lib (Some 8)) (small_nodes @ []) (s_as (small_simple [])) = (Inr (), [(1, 2, 3)])"
    by (simp add: small_nodes_def small_entry_def small_simple_def load_entry_def attach_value_def small_lib_def lib_call_def
        bnd_def seq_def gets_def modify_def ret_def)
  with s' show ?thesis by auto
qed

end
