(* ===== verification/Fetching.thy ===== *)
theory Fetching
  imports StoreFence LoadAtoms
begin

text \<open>
  What the fetches of the multi-threaded node do, without sockets, texts and threads. An abstract fetch
  machine has a set of requests and the client's atomspace: a call adds its requests, a request is taken
  in any order and puts what the server has into the atomspace, and a barrier waits for the empty set.
  The runs of the system of \<open>Workers\<close> refine the runs of the machine.
\<close>

section \<open>What the server has\<close>

definition req_text :: "('h, 'v) entry \<Rightarrow> string" where
  "req_text e = ''(cog-keys->alist '' @ en_text e @ '')'' @ [NL]"

datatype ('h, 'v) answer = Atoms "('h, 'v) entry list" | Alist "('h \<times> 'v) list" | AValue 'v | AText string

fun answer_text :: "('h \<Rightarrow> string) \<Rightarrow> ('v \<Rightarrow> string) \<Rightarrow> ('h, 'v) answer \<Rightarrow> string" where
  "answer_text ek ev (Atoms es) = atoms_text es @ [NL]"
| "answer_text ek ev (Alist kvs) = alist_text ek ev kvs @ [NL]"
| "answer_text ek ev (AValue v) = ev v @ [NL]"
| "answer_text ek ev (AText str) = str @ [NL]"

text \<open>A catalogue says what the server has for some requests; the server keeps to it, whichever of
  these requests it gets.\<close>

type_synonym ('h, 'v) catalogue = "string \<Rightarrow> ('h, 'v) answer option"

definition stocks ::
  "('h \<Rightarrow> string) \<Rightarrow> ('v \<Rightarrow> string) \<Rightarrow> (string \<Rightarrow> 'srv \<Rightarrow> 'srv \<times> string option) \<Rightarrow> ('h, 'v) catalogue \<Rightarrow> 'srv \<Rightarrow> bool" where
  "stocks ek ev ans cat x \<longleftrightarrow> (\<forall>q r. cat q = Some r \<longrightarrow> answers ans q (answer_text ek ev r) x)"

definition keeps_stock ::
  "('h \<Rightarrow> string) \<Rightarrow> ('v \<Rightarrow> string) \<Rightarrow> (string \<Rightarrow> 'srv \<Rightarrow> 'srv \<times> string option) \<Rightarrow> ('h, 'v) catalogue \<Rightarrow> bool" where
  "keeps_stock ek ev ans cat \<longleftrightarrow> (\<forall>q x. cat q \<noteq> None \<longrightarrow> stocks ek ev ans cat x \<longrightarrow> stocks ek ev ans cat (fst (ans q x)))"

text \<open>The coder reads the answers back, and the values of a listed atom are in the catalogue.\<close>

fun readable :: "('h, 'v, 't, 'w) atomlib \<Rightarrow> ('h \<Rightarrow> string) \<Rightarrow> ('v \<Rightarrow> string) \<Rightarrow> (string, 'h) umap \<Rightarrow> ('h, 'v) catalogue \<Rightarrow> ('h, 'v) answer \<Rightarrow> bool" where
  "readable L ek ev fid cat (Atoms es) \<longleftrightarrow> (\<forall>e \<in> set es. reads_entry L fid e \<and> cat (req_text e) = Some (Alist (en_kvs e)))"
| "readable L ek ev fid cat (Alist kvs) \<longleftrightarrow> (\<forall>(k, v) \<in> set kvs. reads_key L ek k \<and> reads_value L ev v)"
| "readable L ek ev fid cat (AValue v) \<longleftrightarrow> reads_value L ev v"
| "readable L ek ev fid cat (AText str) \<longleftrightarrow> True"

definition catalogue_ok ::
  "('h, 'v, 't, 'w) atomlib \<Rightarrow> ('h \<Rightarrow> string) \<Rightarrow> ('v \<Rightarrow> string) \<Rightarrow> (string, 'h) umap \<Rightarrow> ('h, 'v) catalogue \<Rightarrow> bool" where
  "catalogue_ok L ek ev fid cat \<longleftrightarrow> finds_end L \<and>
     (\<forall>q r. cat q = Some r \<longrightarrow> length (answer_text ek ev r) < npos \<and> readable L ek ev fid cat r)"

lemma catalogue_okD:
  assumes "catalogue_ok L ek ev fid cat" and "cat q = Some r"
  shows "finds_end L" and "length (answer_text ek ev r) < npos" and "readable L ek ev fid cat r"
  using assms unfolding catalogue_ok_def by blast+

section \<open>The requests\<close>

definition list_msg :: "'h option \<Rightarrow> string \<Rightarrow> (handler, 'h Pkt) Msg" where
  "list_msg table str = plain (Some DecodeAtomList) False str (table_pkt table)"

definition keys_msg :: "'h \<Rightarrow> string \<Rightarrow> (handler, 'h Pkt) Msg" where
  "keys_msg h str = plain (Some DecodeKvpList) False str \<lparr>p_table = Null, p_h = Some h, p_key = None\<rparr>"

definition value_msg :: "'h \<Rightarrow> 'h \<Rightarrow> string \<Rightarrow> (handler, 'h Pkt) Msg" where
  "value_msg h key str = plain (Some DecodeValue) False str \<lparr>p_table = Null, p_h = Some h, p_key = Some key\<rparr>"

lemmas request_defs = list_msg_def keys_msg_def value_msg_def

definition req :: "('h, 'v) entry \<Rightarrow> 'h \<Rightarrow> (handler, 'h Pkt) Msg" where
  "req e h = keys_msg h (req_text e)"

lemma as_opt_ptr [simp]: "as_opt (ptr_of table) = table"
  by (cases table) simp_all

text \<open>The message asks for something that is in the catalogue, with the callback that reads it.\<close>

fun fits :: "('h, 'v) answer \<Rightarrow> (handler, 'h Pkt) Msg \<Rightarrow> bool" where
  "fits (Atoms es) m \<longleftrightarrow> m_handler m = Some DecodeAtomList"
| "fits (Alist kvs) m \<longleftrightarrow> m_handler m = Some DecodeKvpList \<and> p_table (m_data m) = Null \<and> p_h (m_data m) \<noteq> None"
| "fits (AValue v) m \<longleftrightarrow> m_handler m = Some DecodeValue \<and> p_h (m_data m) \<noteq> None \<and> p_key (m_data m) \<noteq> None"
| "fits (AText str) m \<longleftrightarrow> False"

definition asks :: "('h, 'v) catalogue \<Rightarrow> (handler, 'h Pkt) Msg \<Rightarrow> bool" where
  "asks cat m \<longleftrightarrow> \<not> m_noreply m \<and> wants_reply (m_str m) \<and> (case cat (m_str m) of None \<Rightarrow> False | Some r \<Rightarrow> fits r m)"

section \<open>What a request does to the atomspace\<close>

fun add_all :: "('h, 'v, 't, 'w) atomlib \<Rightarrow> 'h option \<Rightarrow> ('h, 'v) entry list \<Rightarrow> 'w \<Rightarrow> 'h list \<times> 'w" where
  "add_all L table [] w = ([], w)"
| "add_all L table (e # es) w =
     (case add_nocheck L table (en_atom e) w of (h, w1) \<Rightarrow> case add_all L table es w1 of (hs, w2) \<Rightarrow> (h # hs, w2))"

definition attach_kvs :: "('h, 'v, 't, 'w) atomlib \<Rightarrow> 'h \<Rightarrow> ('h \<times> 'v) list \<Rightarrow> ('w, unit) io" where
  "attach_kvs L h kvs = bnd (gets (\<lambda>w. getAtomSpace L w h)) (\<lambda>as. for_each (\<lambda>(k, v). attach_value L as h k v) kvs)"

lemma attach_returns: "\<exists>w'. attach_kvs L h kvs w = (Inr (), w')"
  using attach_all_returns [of L "getAtomSpace L w h" h kvs w] by (auto simp: attach_kvs_def bnd_def gets_def)

fun carry :: "('h, 'v, 't, 'w) atomlib \<Rightarrow> ('h, 'v) answer \<Rightarrow> 'h Pkt \<Rightarrow> 'w \<Rightarrow> (handler, 'h Pkt) Msg list \<times> 'w" where
  "carry L (Atoms es) d w = (case add_all L (as_opt (p_table d)) es w of (hs, w') \<Rightarrow> (map (\<lambda>(e, h). req e h) (zip es hs), w'))"
| "carry L (Alist kvs) d w = ([], case p_h d of None \<Rightarrow> w | Some h \<Rightarrow> snd (attach_kvs L h kvs w))"
| "carry L (AValue v) d w = ([], case (p_h d, p_key d) of (Some h, Some key) \<Rightarrow> with_value L h key v w | _ \<Rightarrow> w)"
| "carry L (AText str) d w = ([], w)"

section \<open>The callbacks\<close>

definition add_calls :: "(handler, 'h Pkt) Msg bufcall list \<Rightarrow> ('h, 'w, 'srv) cog \<Rightarrow> ('h, 'w, 'srv) cog" where
  "add_calls cs s = s\<lparr>g_x := (g_x s)\<lparr>x_chan := (x_chan (g_x s))\<lparr>c_calls := calls s @ cs\<rparr>\<rparr>\<rparr>"

lemma add_calls_simps:
  "add_calls [] s = s" "add_calls cs (add_call c s) = add_calls (c # cs) s" "(add_calls cs s)\<lparr>g_as := w\<rparr> = add_calls cs (s\<lparr>g_as := w\<rparr>)"
  "g_fid_map (add_call c s) = g_fid_map s" "g_as (add_calls cs s) = g_as s" "calls (add_calls cs s) = calls s @ cs"
  "g_fid_map (add_calls cs s) = g_fid_map s" "x_net (g_x (add_calls cs s)) = x_net (g_x s)"
  by (simp_all add: add_calls_def add_call_def)

lemma atoms_loop_step:
  assumes "expr = pre @ en_text e @ post" and "length expr < npos" and "length pre + length (en_text e) \<le> n"
    and "reads_entry L (g_fid_map s) e" and "add_nocheck L table (en_atom e) (g_as s) = (h, w)"
  shows "cog_atoms_loop (Suc fuel) L table expr n (length pre) s =
    cog_atoms_loop fuel L table expr n (length (pre @ en_text e)) (add_call (BInsert (req e h)) (s\<lparr>g_as := w\<rparr>))"
proof -
  let ?r = "length pre + length (en_text e) - 1"
  have g: "get_next_expr L expr (length pre) n = Inr (0, length pre, ?r)"
    and d: "decode_atom_in L expr (length pre) ?r (g_fid_map s) = Inr (en_atom e, g_fid_map s)" and t: "2 \<le> length (en_text e)"
    using assms(1,3,4) unfolding reads_entry_def by blast+
  have ne: "length pre \<noteq> ?r" using t by simp
  have sub: "substr expr (length pre) (size_add (size_sub ?r (length pre)) 1) = Inr (en_text e)"
    by (rule substr_here [OF assms(1,2)]) (use t in linarith)
  have nx: "size_add ?r 1 = length (pre @ en_text e)"
    using t assms(1,2) by (simp add: size_add_def npos_def)
  have q: "req_text e \<noteq> ''(cog-update-value!''" by (rule line_not_update) (simp add: req_text_def)
  let ?s = "s\<lparr>g_as := w\<rparr>"
  have 1: "lift_lib (get_next_expr L expr (length pre) n) s = (Inr (0, length pre, ?r), s)"
    and 2: "gets g_fid_map s = (Inr (g_fid_map s), s)"
    and 3: "lift_lib (decode_atom_in L expr (length pre) ?r (g_fid_map s)) s = (Inr (en_atom e, g_fid_map s), s)"
    and 4: "modify (g_fid_map_update (\<lambda>_. g_fid_map s)) s = (Inr (), s)"
    and 5: "g_on_as (lib_call (add_nocheck L table (en_atom e))) s = (Inr h, ?s)"
    and 6: "lift_res (substr expr (length pre) (size_add (size_sub ?r (length pre)) 1)) ?s = (Inr (en_text e), ?s)"
    using g d sub assms(5) by (simp_all add: lift_lib_def ret_def gets_def modify_def zoom_def lib_call_def lift_res_def)
  have 7: "on_chan (chan_enqueue DecodeKvpList (''(cog-keys->alist '' @ en_text e @ '')'' @ [NL]) \<lparr>p_table = Null, p_h = Some h, p_key = None\<rparr>) ?s =
      (Inr (), add_call (BInsert (req e h)) ?s)"
    unfolding req_def keys_msg_def by (fold req_text_def) (rule enqueue_run [OF q])
  show ?thesis
    unfolding cog_atoms_loop.simps(2)
    by (simp only: bnd_run(1) seq_run(1) 1 2 3 4 5 6 7 prod.case ne if_False less_irrefl nx)
qed

lemma atoms_loop_all:
  assumes "length expr < npos" and "finds_end L"
  shows "expr = pre @ concat (map en_text es) @ '')'' @ post \<Longrightarrow> length es < fuel \<Longrightarrow> n = length pre + length (concat (map en_text es)) \<Longrightarrow>
    \<forall>e \<in> set es. reads_entry L (g_fid_map s) e \<Longrightarrow> add_all L table es (g_as s) = (hs, w) \<Longrightarrow>
    cog_atoms_loop fuel L table expr n (length pre) s = (Inr (), add_calls (map (\<lambda>(e, h). BInsert (req e h)) (zip es hs)) (s\<lparr>g_as := w\<rparr>))"
proof (induction es arbitrary: pre s fuel hs)
  case Nil
  from assms(2) obtain p where "get_next_expr L expr n n = Inr (p, n, n)" unfolding finds_end_def by blast
  moreover obtain m where "fuel = Suc m" using Nil.prems(2) by (cases fuel) auto
  ultimately show ?case using Nil.prems(3,5) by (auto simp: lift_lib_def bnd_def ret_def add_calls_simps)
next
  case (Cons e es)
  obtain m where m: "fuel = Suc m" using Cons.prems(2) by (cases fuel) auto
  obtain h w1 hs' where h: "add_nocheck L table (en_atom e) (g_as s) = (h, w1)" "add_all L table es w1 = (hs', w)" "hs = h # hs'"
    using Cons.prems(5) by (auto split: prod.splits)
  have x: "expr = pre @ en_text e @ (concat (map en_text es) @ '')'' @ post)" using Cons.prems(1) by simp
  let ?s = "add_call (BInsert (req e h)) (s\<lparr>g_as := w1\<rparr>)"
  have "cog_atoms_loop (Suc m) L table expr n (length pre) s = cog_atoms_loop m L table expr n (length (pre @ en_text e)) ?s"
    by (rule atoms_loop_step [OF x assms(1) _ _ h(1)]) (use Cons.prems(3,4) in auto)
  also have "\<dots> = (Inr (), add_calls (map (\<lambda>(e, h). BInsert (req e h)) (zip es hs')) (?s\<lparr>g_as := w\<rparr>))"
    by (rule Cons.IH) (use Cons.prems m h(2) in auto)
  finally show ?case by (simp add: m h(3) add_calls_def add_call_def)
qed

lemma decode_atoms:
  assumes "length (atoms_text es @ [NL]) < npos" and "finds_end L" and "\<forall>e \<in> set es. reads_entry L (g_fid_map s) e"
    and "add_all L table es (g_as s) = (hs, w)" and "as_opt (p_table pkt) = table"
  shows "cog_decode_atom_list L (atoms_text es @ [NL]) pkt s =
    (Inr (), add_calls (map (\<lambda>(e, h). BInsert (req e h)) (zip es hs)) (s\<lparr>g_as := w\<rparr>))"
proof -
  let ?x = "atoms_text es @ [NL]" and ?n = "1 + length (concat (map en_text es))"
  have x: "?x = ''('' @ concat (map en_text es) @ '')'' @ [NL]" by (simp add: atoms_text_def)
  have f: "size_add (find_char (CHR ''('') ?x 0) 1 = 1" unfolding x find_open by (simp add: size_add_def)
  have r: "rfind_char (CHR '')'') ?x = ?n"
    using rfind_last [of "CHR '')''" "[NL]" "''('' @ concat (map en_text es)"] by (simp add: atoms_text_def NL_def)
  have "length es \<le> length (concat (map en_text es))" using assms(3) by (induction es) (auto simp: reads_entry_def)
  then have fuel: "length es < length ?x + 2" by (simp add: x)
  have d: "cog_decode_atom_list L ?x pkt = (if 1 = ?n then ret () else cog_atoms_loop (length ?x + 2) L table ?x ?n 1)"
    by (simp only: cog_decode_atom_list_def f r Let_def assms(5))
  show ?thesis
  proof (cases "es = []")
    case True
    with assms(4) show ?thesis unfolding d by (auto simp: ret_def add_calls_simps)
  next
    case False
    then have ne: "1 \<noteq> ?n" using assms(3) by (cases es) (auto simp: reads_entry_def)
    have "cog_atoms_loop (length ?x + 2) L table ?x ?n (length ''('') s =
        (Inr (), add_calls (map (\<lambda>(e, h). BInsert (req e h)) (zip es hs)) (s\<lparr>g_as := w\<rparr>))"
      by (rule atoms_loop_all [OF assms(1,2) x fuel _ assms(3,4)]) simp
    moreover have "length ''('' = 1" by simp
    ultimately show ?thesis by (simp only: d ne if_False)
  qed
qed

lemma decode_values:
  assumes "length (alist_text ek ev kvs @ [NL]) < npos" and "\<forall>(k, v) \<in> set kvs. reads_key L ek k \<and> reads_value L ev v"
    and "p_table d = Null" and "p_h d = Some h"
  shows "cog_decode_kvp_list L (alist_text ek ev kvs @ [NL]) d s = (Inr (), s\<lparr>g_as := snd (attach_kvs L h kvs (g_as s))\<rparr>)"
proof -
  have "ro_decode_alist L None h (alist_text ek ev kvs @ [NL]) = attach_kvs L h kvs"
    using ro_decode_alist_text [OF assms(1) _ assms(2), of None h] by (simp add: attach_kvs_def NL_def)
  with attach_returns [of L h kvs "g_as s"] assms(3,4) show ?thesis by (auto simp: cog_decode_kvp_list_def zoom_def)
qed

lemma decode_one:
  assumes "reads_value L ev v" and "p_h d = Some h" and "p_key d = Some key"
  shows "cog_decode_value L (ev v @ [NL]) d s = (Inr (), s\<lparr>g_as := with_value L h key v (g_as s)\<rparr>)"
proof -
  from assms(1) [unfolded reads_value_def, rule_format, of "[]" "[NL]"] have "decode_value L (ev v @ [NL]) 0 = Inr (v, length (ev v))" by simp
  with assms(2,3) show ?thesis
    by (simp add: cog_decode_value_def with_value_def zoom_def lift_lib_def bnd_def gets_def ret_def lib_call_def modify_def split: option.splits prod.splits)
qed

text \<open>A callback on the text of an answer does what the answer stands for.\<close>

lemma callback_carry:
  assumes "catalogue_ok L ek ev (g_fid_map s) cat" and "cat q = Some r" and "fits r m" and "m_handler m = Some cb"
    and "carry L r (m_data m) (g_as s) = (ms, w)"
  shows "cog_callback L cb (answer_text ek ev r) (m_data m) s = (Inr (), add_calls (map BInsert ms) (s\<lparr>g_as := w\<rparr>))"
proof (cases r)
  case (Atoms es)
  obtain hs where hs: "add_all L (as_opt (p_table (m_data m))) es (g_as s) = (hs, w)" "ms = map (\<lambda>(e, h). req e h) (zip es hs)"
    using assms(5) by (auto simp: Atoms split: prod.splits)
  from catalogue_okD [OF assms(1,2)] Atoms
  have "length (atoms_text es @ [NL]) < npos" "finds_end L" "\<forall>e \<in> set es. reads_entry L (g_fid_map s) e" by simp_all
  from decode_atoms [OF this hs(1) refl] have "cog_decode_atom_list L (atoms_text es @ [NL]) (m_data m) s = (Inr (), add_calls (map BInsert ms) (s\<lparr>g_as := w\<rparr>))"
    by (simp add: hs(2) case_prod_unfold comp_def)
  with assms(3,4) show ?thesis by (simp add: Atoms)
next
  case (Alist kvs)
  from assms(3) Alist obtain h where h: "p_table (m_data m) = Null" "p_h (m_data m) = Some h" by auto
  from catalogue_okD [OF assms(1,2)] Alist
  have "length (alist_text ek ev kvs @ [NL]) < npos" "\<forall>(k, v) \<in> set kvs. reads_key L ek k \<and> reads_value L ev v" by simp_all
  from decode_values [OF this h] assms(3-5) h show ?thesis by (auto simp: Alist add_calls_simps)
next
  case (AValue v)
  from assms(3) AValue obtain h key where h: "p_h (m_data m) = Some h" "p_key (m_data m) = Some key" by auto
  from catalogue_okD [OF assms(1,2)] AValue have "reads_value L ev v" by simp
  from decode_one [OF this h] assms(3-5) h show ?thesis by (auto simp: AValue add_calls_simps)
qed (use assms(3) in simp)

section \<open>Turns with a reply\<close>

lemma first_reply:
  assumes "serves_all E ans" and "hospitable E a" and "can_talk a x" and "wants_reply msg" and "steady E a P" and "P (srv (x_net x))"
  shows "\<exists>z r x'. seq (chan_do_send E msg) (chan_do_recv False) x = (Inr r, z) \<and> moved x z \<and> P x' \<and> ans msg x' = (srv (x_net z), Some r)"
proof -
  note p = serves_protocol [OF assms(1)]
  from first_send [OF p assms(2,3)] obtain w where w: "chan_do_send E msg x = chan_do_send E msg w" "moved x w"
    "\<forall>P. steady E a P \<longrightarrow> P (srv (x_net x)) \<longrightarrow> P (srv (x_net w))" by blast
  from w(2) have "worker_in_sync w" by (simp add: moved_def)
  from thread_exchange [OF p this assms(4)] obtain z r where z: "seq (chan_do_send E msg) (chan_do_recv False) w = (Inr r, z)" "moved w z"
    "srv (x_net z) = fst (on_data E (x_fd w) msg (srv (x_net w)))" "is_reply (snd (on_data E (x_fd w) msg (srv (x_net w)))) r" by blast
  from assms(1) have "serves E (x_fd w) ans" unfolding serves_all_def ..
  from servesD(2) [OF this assms(4)] z(3,4) have "ans msg (srv (x_net w)) = (srv (x_net z), Some r)" by (metis is_reply_unique)
  with w z(1,2) assms(5,6) moved_trans [OF w(2) z(2)] show ?thesis by (auto simp: seq_def bnd_def)
qed

lemma work_reply:
  assumes "serves_all E ans" and "hospitable E a" and "sys_ok B a y" and "t \<le> NTHREADS" and "wants_reply (m_str m)"
    and "\<not> m_noreply m" and "m_handler m = Some cb" and "steady E a P" and "P (srv (sys_net y))"
  shows "\<exists>z r x. P x \<and> ans (m_str m) x = (srv (x_net z), Some r) \<and> c_calls (x_chan z) = [] \<and>
    cog_work L E m (as_thread t y) = cog_callback L cb r (m_data m) ((as_thread t y)\<lparr>g_x := z\<rparr>)"
proof -
  have "P (srv (x_net (g_x (as_thread t y))))" using assms(9) by simp
  from first_reply [OF assms(1,2) sys_can_talk [OF assms(3,4)] assms(5,8) this] obtain z r x where
    z: "seq (chan_do_send E (m_str m)) (chan_do_recv False) (g_x (as_thread t y)) = (Inr r, z)" "moved (g_x (as_thread t y)) z" "P x"
      "ans (m_str m) x = (srv (x_net z), Some r)" by blast
  have "chan_reply_handler E m (g_x (as_thread t y)) = (Inr (Some r), z)"
    using z(1) assms(6) by (auto simp: chan_reply_handler_def seq_def bnd_def ret_def split: prod.splits sum.splits)
  with assms(7) have "cog_work L E m (as_thread t y) = cog_callback L cb r (m_data m) ((as_thread t y)\<lparr>g_x := z\<rparr>)"
    by (simp add: cog_work_def bnd_def zoom_def)
  moreover have "c_calls (x_chan z) = []" using z(2) by (simp add: moved_def as_thread_def)
  ultimately show ?thesis using z(3,4) by blast
qed

text \<open>What a turn leaves when its outcome is known.\<close>

lemma turn_outcome:
  assumes "turn B L E t m y y'" and "cog_work L E m (as_thread t y) = (Inr (), g)"
  shows "y_node y' = g" and "sys_net y' = x_net (g_x g)" and "y_buf y' = fold (put_call B) (calls g) (y_buf y)"
  using assms by (auto elim!: turn.cases simp: after_def sys_net_def)

section \<open>A turn on a request\<close>

text \<open>What the buffer, the network, the server and the coder are assumed to do.\<close>

definition fetch_env ::
  "((handler, 'h Pkt) Msg, 'b) async_buffer \<Rightarrow> ('h, 'v, 't, 'w) atomlib \<Rightarrow> 'srv env \<Rightarrow> addrinfo \<Rightarrow> ('h \<Rightarrow> string) \<Rightarrow> ('v \<Rightarrow> string) \<Rightarrow>
   (string \<Rightarrow> 'srv \<Rightarrow> 'srv \<times> string option) \<Rightarrow> ('h, 'v) catalogue \<Rightarrow> (string, 'h) umap \<Rightarrow> bool" where
  "fetch_env B L E a ek ev ans cat fid \<longleftrightarrow> async_buffer_ok msg_equiv B \<and> serves_all E ans \<and> hospitable E a \<and> catalogue_ok L ek ev fid cat \<and>
     keeps_stock ek ev ans cat \<and> steady E a (stocks ek ev ans cat) \<and> undisturbed E (stocks ek ev ans cat)"

lemma fetch_envD:
  assumes "fetch_env B L E a ek ev ans cat fid"
  shows "async_buffer_ok msg_equiv B" and "serves_all E ans" and "hospitable E a" and "catalogue_ok L ek ev fid cat"
    and "keeps_stock ek ev ans cat" and "steady E a (stocks ek ev ans cat)" and "undisturbed E (stocks ek ev ans cat)" and "protocol E"
  using assms serves_protocol by (auto simp: fetch_env_def)

lemma asksD:
  assumes "asks cat m"
  shows "\<exists>r cb. cat (m_str m) = Some r \<and> fits r m \<and> m_handler m = Some cb \<and> wants_reply (m_str m) \<and> \<not> m_noreply m"
  using assms by (cases "cat (m_str m)"; cases "the (cat (m_str m))") (auto simp: asks_def)

lemma work_carry:
  assumes env: "fetch_env B L E a ek ev ans cat fid" and ok: "sys_ok B a y" and "t \<le> NTHREADS" and "stocks ek ev ans cat (srv (sys_net y))"
    and "g_fid_map (y_node y) = fid" and "asks cat m" and r: "cat (m_str m) = Some r" and "carry L r (m_data m) (g_as (y_node y)) = (ms, w)"
  shows "\<exists>g. cog_work L E m (as_thread t y) = (Inr (), g) \<and> calls g = map BInsert ms \<and> g_as g = w \<and> g_fid_map g = fid \<and>
    stocks ek ev ans cat (srv (x_net (g_x g)))"
proof -
  note env = fetch_envD [OF env]
  from asksD [OF assms(6)] r obtain cb where m: "fits r m" "m_handler m = Some cb" "wants_reply (m_str m)" "\<not> m_noreply m" by auto
  from work_reply [OF env(2,3) ok assms(3) m(3,4,2) env(6) assms(4), of L] obtain z str x where
    z: "stocks ek ev ans cat x" "ans (m_str m) x = (srv (x_net z), Some str)" "c_calls (x_chan z) = []"
      "cog_work L E m (as_thread t y) = cog_callback L cb str (m_data m) ((as_thread t y)\<lparr>g_x := z\<rparr>)" by blast
  from z(1,2) r have str: "str = answer_text ek ev r" by (fastforce simp: stocks_def answers_def)
  have "stocks ek ev ans cat (fst (ans (m_str m) x))" using env(5) z(1) r by (simp add: keeps_stock_def)
  with z(2) have st: "stocks ek ev ans cat (srv (x_net z))" by simp
  let ?s = "(as_thread t y)\<lparr>g_x := z\<rparr>"
  have s: "g_fid_map ?s = fid" "g_as ?s = g_as (y_node y)" "calls ?s = []" using z(3) assms(5) by (simp_all add: as_thread_def)
  have "cog_callback L cb str (m_data m) ?s = (Inr (), add_calls (map BInsert ms) (?s\<lparr>g_as := w\<rparr>))"
    unfolding str by (rule callback_carry [where cat = cat and q = "m_str m", OF _ r m(1,2)]) (use env(4) assms(8) s in simp_all)
  with z(4) s st show ?thesis by (simp add: add_calls_def)
qed

lemma silent_client:
  assumes "protocol E" and "hospitable E a" and "sys_ok B a y" and "t \<le> NTHREADS" and "msg_ok m" and "m_noreply m" and "turn B L E t m y y'"
  shows "g_as (y_node y') = g_as (y_node y) \<and> g_fid_map (y_node y') = g_fid_map (y_node y)"
proof -
  have "noreply (m_str m)" using assms(5,6) by (simp add: msg_ok_def)
  from first_silent [OF assms(1,2) sys_can_talk [OF assms(3,4)] this] obtain z where
    z: "chan_do_send E (m_str m) (g_x (as_thread t y)) = (Inr (), z)" by blast
  from assms(7) obtain g where "cog_work L E m (as_thread t y) = (Inr (), g)" "y_node y' = g" by cases (auto simp: after_def)
  with z assms(6) show ?thesis by (auto simp: cog_work_def chan_reply_handler_def seq_def bnd_def ret_def zoom_def as_thread_def)
qed

lemma fence_client:
  assumes "turns B L E (fence k d) ts y y'" and "async_buffer_ok msg_equiv B" and "protocol E" and "hospitable E a"
  shows "sys_ok B a y \<Longrightarrow> \<forall>t \<in> set ts. t \<le> NTHREADS \<Longrightarrow> g_as (y_node y') = g_as (y_node y) \<and> g_fid_map (y_node y') = g_fid_map (y_node y)"
  using assms(1)
proof (induction rule: turns.induct)
  case (more t y y1 ts y2)
  have k: "msg_ok (fence k d)" using fence_ok [of k d] by simp
  have t: "t \<le> NTHREADS" using more.prems(2) by simp
  have "g_as (y_node y1) = g_as (y_node y) \<and> g_fid_map (y_node y1) = g_fid_map (y_node y)"
    by (rule silent_client [OF assms(3,4) more.prems(1) t k _ more.hyps(1)]) (simp add: fence_def plain_def)
  with more.IH turn_keeps [OF assms(2-4) more.prems(1) t k more.hyps(1)] more.prems(2) show ?case by simp
qed simp

section \<open>The fetch machine\<close>

text \<open>What is left of a call is a list of actions: put a request into the set, wait until the set is empty.
  The state is the actions, the set of requests and the atomspace.\<close>

datatype 'm act = Put 'm | Wait

type_synonym ('h, 'w) fetch_st = "(handler, 'h Pkt) Msg act list \<times> (handler, 'h Pkt) Msg set \<times> 'w"

text \<open>The set keeps one of several equivalent requests.\<close>

definition enlist :: "(handler, 'h Pkt) Msg \<Rightarrow> (handler, 'h Pkt) Msg set \<Rightarrow> (handler, 'h Pkt) Msg set" where
  "enlist m M = (if \<exists>x \<in> M. msg_equiv x m then M else insert m M)"

definition list_text :: "string \<Rightarrow> string" where
  "list_text ty = ''(cog-get-atoms '' @ [cog_SQ] @ ty @ '' #t)'' @ [NL]"

definition type_text :: "string \<Rightarrow> string" where
  "type_text ty = ''(cog-get-atoms '' @ [cog_SQ] @ ty @ '')'' @ [NL]"

lemma text_replies: "wants_reply (list_text ty)" "wants_reply (type_text ty)" "wants_reply (req_text e)"
  by (simp_all add: list_text_def type_text_def req_text_def wants_reply_iff)

text \<open>The actions of the calls that fetch, and of \<open>barrier\<close>. Of an atom that the server does not know,
  \<open>getAtom\<close> asks for the values or not: that depends on what was in the memory of its packet.\<close>

fun requests :: "('h, 'v, 't, 'w) atomlib \<Rightarrow> ('h, 'v) catalogue \<Rightarrow> 'w \<Rightarrow> ('h, 'v, 't) sys_call \<Rightarrow> (handler, 'h Pkt) Msg act list set" where
  "requests L cat w (Do (GFetchIncomingSet table h)) = {[Put (list_msg table (cog_incoming_msg L w h))]}"
| "requests L cat w (Do (GFetchIncomingByType table h t)) = {[Put (list_msg table (cog_incoming_type_msg L w h t))]}"
| "requests L cat w (Do (GLoadType table t)) = {[Put (list_msg table (type_text (getTypeName L t)))]}"
| "requests L cat w (Do (GLoadAtomSpace table)) = {[Put (list_msg table (list_text ''Node'')), Put (list_msg table (list_text ''Link'')), Wait]}"
| "requests L cat w (Do (GLoadValue h key)) = {[Put (value_msg h key (cog_loadValue_msg L w h key))]}"
| "requests L cat w (Do (GRunQuery query key meta fresh)) = {[Put (value_msg query key (cog_runQuery_msg L w query key meta fresh))]}"
| "requests L cat w (Do (GGetAtom h)) =
     (case cat (cog_iknow_msg L w h) of
        Some (AText str) \<Rightarrow> (if take 2 (str @ [NL]) = ''()'' then {[], [Put (keys_msg h (cog_get_keys_msg L w h))]}
                              else {[Put (keys_msg h (cog_get_keys_msg L w h))]})
      | _ \<Rightarrow> {})"
| "requests L cat w Barrier = {[Wait]}"
| "requests L cat w _ = {}"

inductive fstep ::
  "('h, 'v, 't, 'w) atomlib \<Rightarrow> ('h, 'v) catalogue \<Rightarrow> ('h, 'v, 't) sys_call option \<Rightarrow> ('h, 'w) fetch_st \<Rightarrow> ('h, 'w) fetch_st \<Rightarrow> bool"
  for L cat where
  ask: "T \<in> requests L cat w c \<Longrightarrow> fstep L cat (Some c) ([], M, w) (T, M, w)"
| put: "fstep L cat None (Put m # T, M, w) (T, enlist m M, w)"
| wait: "fstep L cat None (Wait # T, {}, w) (T, {}, w)"
| work: "m \<in> M \<Longrightarrow> cat (m_str m) = Some r \<Longrightarrow> carry L r (m_data m) w = (ms, w') \<Longrightarrow>
    fstep L cat None (T, M, w) (T, fold enlist ms (M - {m}), w')"

inductive fsteps ::
  "('h, 'v, 't, 'w) atomlib \<Rightarrow> ('h, 'v) catalogue \<Rightarrow> ('h, 'w) fetch_st \<Rightarrow> ('h, 'v, 't) sys_call list \<Rightarrow> ('h, 'w) fetch_st \<Rightarrow> bool"
  for L cat f0 where
  start: "fsteps L cat f0 [] f0"
| step: "fsteps L cat f0 cs f \<Longrightarrow> fstep L cat l f f' \<Longrightarrow> fsteps L cat f0 (cs @ label l) f'"

text \<open>A call is covered by the catalogue when it fetches, and asks only for what is there.\<close>

definition covers :: "('h, 'v, 't, 'w) atomlib \<Rightarrow> ('h, 'v) catalogue \<Rightarrow> 'w \<Rightarrow> ('h, 'v, 't) sys_call \<Rightarrow> bool" where
  "covers L cat w c \<longleftrightarrow> requests L cat w c \<noteq> {} \<and> (\<forall>T \<in> requests L cat w c. \<forall>m. Put m \<in> set T \<longrightarrow> asks cat m)"

section \<open>The system refines the machine\<close>

fun acts :: "'m bufcall list \<Rightarrow> 'm act list" where
  "acts [] = []"
| "acts (BInsert m # cs) = Put m # acts cs"
| "acts (BBarrierMsg k # cs) = Wait # acts cs"
| "acts (_ # cs) = acts cs"

definition view :: "((handler, 'h Pkt) Msg, 'b) async_buffer \<Rightarrow> ('h, 'w, 'srv, 'b) sys \<Rightarrow> ('h, 'w) fetch_st" where
  "view B y = (acts (y_todo y), set (ab_pending B (y_buf y)), g_as (y_node y))"

fun fetch_todo :: "('h, 'v) catalogue \<Rightarrow> (handler, 'h Pkt) Msg bufcall \<Rightarrow> bool" where
  "fetch_todo cat (BInsert m) \<longleftrightarrow> asks cat m"
| "fetch_todo cat (BBarrierMsg k) \<longleftrightarrow> (\<exists>x d. k = fence x d)"
| "fetch_todo cat BFlush \<longleftrightarrow> True"
| "fetch_todo cat _ \<longleftrightarrow> False"

definition fetching ::
  "((handler, 'h Pkt) Msg, 'b) async_buffer \<Rightarrow> addrinfo \<Rightarrow> ('h \<Rightarrow> string) \<Rightarrow> ('v \<Rightarrow> string) \<Rightarrow>
   (string \<Rightarrow> 'srv \<Rightarrow> 'srv \<times> string option) \<Rightarrow> ('h, 'v) catalogue \<Rightarrow> (string, 'h) umap \<Rightarrow> ('h, 'w, 'srv, 'b) sys \<Rightarrow> bool" where
  "fetching B a ek ev ans cat fid y \<longleftrightarrow> sys_ok B a y \<and> stocks ek ev ans cat (srv (sys_net y)) \<and> g_fid_map (y_node y) = fid \<and>
     (\<forall>m \<in> set (ab_pending B (y_buf y)). asks cat m) \<and> list_all (fetch_todo cat) (y_todo y)"

lemma enlist_insert: "async_buffer_ok msg_equiv B \<Longrightarrow> set (ab_pending B (ab_insert B m b)) = enlist m (set (ab_pending B b))"
  by (simp add: async_buffer_ok_def enlist_def)

lemma enlist_all:
  assumes "async_buffer_ok msg_equiv B"
  shows "set (ab_pending B (fold (put_call B) (map BInsert ms) b)) = fold enlist ms (set (ab_pending B b))"
  by (induction ms arbitrary: b) (simp_all add: enlist_insert [OF assms])

lemma enlist_sub: "fold enlist ms M \<subseteq> M \<union> set ms"
proof (induction ms arbitrary: M)
  case (Cons m ms)
  from Cons.IH [of "enlist m M"] show ?case by (auto simp: enlist_def split: if_splits)
qed simp

text \<open>The requests that a list of atoms gives rise to are in the catalogue.\<close>

lemma carry_asks:
  assumes "catalogue_ok L ek ev fid cat" and "cat q = Some r" and "carry L r d w = (ms, w')" and "k \<in> set ms"
  shows "asks cat k"
proof (cases r)
  case (Atoms es)
  with assms(3,4) obtain e h where k: "k = req e h" "e \<in> set es" by (auto split: prod.splits) (metis set_zip_leftD)
  from catalogue_okD(3) [OF assms(1,2)] Atoms k(2) have "cat (req_text e) = Some (Alist (en_kvs e))" by simp
  then show ?thesis by (simp add: k(1) asks_def req_def keys_msg_def plain_def text_replies)
qed (use assms(3,4) in auto)

lemma fetch_work:
  assumes env: "fetch_env B L E a ek ev ans cat fid" and f: "fetching B a ek ev ans cat fid y" and m: "m \<in> set (ab_pending B (y_buf y))"
    and t: "t < NTHREADS" and turn: "turn B L E t m (y\<lparr>y_buf := ab_take B m (y_buf y)\<rparr>) y'" and ok: "sys_ok B a y'"
  shows "fetching B a ek ev ans cat fid y' \<and> fstep L cat None (view B y) (view B y')"
proof -
  let ?y = "y\<lparr>y_buf := ab_take B m (y_buf y)\<rparr>"
  note env' = fetch_envD [OF env]
  from f have f': "sys_ok B a y" "stocks ek ev ans cat (srv (sys_net ?y))" "g_fid_map (y_node ?y) = fid"
      "\<forall>m \<in> set (ab_pending B (y_buf y)). asks cat m" "list_all (fetch_todo cat) (y_todo y)"
    by (simp_all add: fetching_def sys_net_def)
  with m obtain r where r: "cat (m_str m) = Some r" "asks cat m" using asksD by blast
  obtain ms w where c: "carry L r (m_data m) (g_as (y_node ?y)) = (ms, w)" by fastforce
  from work_carry [OF env sys_ok_take [OF env'(1) f'(1)] less_imp_le [OF t] f'(2,3) r(2,1) c] turn_outcome [OF turn]
  have y': "y_buf y' = fold (put_call B) (map BInsert ms) (y_buf ?y)" "g_as (y_node y') = w" "g_fid_map (y_node y') = fid"
    "stocks ek ev ans cat (srv (sys_net y'))" by auto
  have p: "set (ab_pending B (y_buf y')) = fold enlist ms (set (ab_pending B (y_buf y)) - {m})"
    unfolding y'(1) enlist_all [OF env'(1)] using env'(1) by (simp add: async_buffer_ok_def)
  have "\<forall>k \<in> set (ab_pending B (y_buf y')). asks cat k"
    using enlist_sub [of ms "set (ab_pending B (y_buf y)) - {m}"] f'(4) carry_asks [OF env'(4) r(1) c] by (auto simp: p)
  moreover have todo: "y_todo y' = y_todo y" using turn_todo [OF turn] by simp
  ultimately have "fetching B a ek ev ans cat fid y'" using y'(3,4) ok f'(5) by (simp add: fetching_def)
  moreover have "fstep L cat None (view B y) (view B y')"
    unfolding view_def todo p y'(2) by (rule fstep.work [where m = m and r = r and cat = cat, OF m r(1)]) (use c in simp)
  ultimately show ?thesis ..
qed

lemma flush_run: "on_chan chan_flush s = (Inr (), add_call BFlush s)"
  by (simp add: chan_flush_def zoom_def buf_call_def modify_def add_call_def)

lemma loadAtomSpace_run:
  assumes "cog_connected s"
  shows "\<exists>g k. cog_loadAtomSpace table s = (Inr (), g) \<and> g_as g = g_as s \<and> g_fid_map g = g_fid_map s \<and> x_net (g_x g) = x_net (g_x s) \<and>
    calls g = calls s @ [BInsert (list_msg table (list_text ''Node'')), BFlush, BInsert (list_msg table (list_text ''Link'')), BBarrierMsg (fence k zero_pkt)]"
proof -
  have q: "list_text ty \<noteq> ''(cog-update-value!''" for ty by (rule line_not_update) (simp add: list_text_def)
  have t: "''(cog-get-atoms '' @ [cog_SQ] @ ''Node #t)'' @ [NL] = list_text ''Node''" "''(cog-get-atoms '' @ [cog_SQ] @ ''Link #t)'' @ [NL] = list_text ''Link''"
    by (simp_all add: list_text_def)
  show ?thesis
    unfolding cog_loadAtomSpace_def t using assms
    by (simp add: seq_def bnd_def CHECK_OPEN_run enqueue_run [OF q] flush_run barrier_run list_msg_def next_rng_def) (auto simp: add_call_def)
qed

lemma fetch_runs:
  assumes "cog_connected s"
  shows "cog_fetchIncomingSet L table h s = (Inr (), add_call (BInsert (list_msg table (cog_incoming_msg L (g_as s) h))) s)"
    and "cog_fetchIncomingByType L table h t s = (Inr (), add_call (BInsert (list_msg table (cog_incoming_type_msg L (g_as s) h t))) s)"
    and "cog_loadType L table t s = (Inr (), add_call (BInsert (list_msg table (type_text (getTypeName L t)))) s)"
    and "cog_loadValue L h key s = (Inr (), add_call (BInsert (value_msg h key (cog_loadValue_msg L (g_as s) h key))) s)"
    and "cog_runQuery L h key meta fresh s = (Inr (), add_call (BInsert (value_msg h key (cog_runQuery_msg L (g_as s) h key meta fresh))) s)"
proof -
  have q: "cog_incoming_msg L w h \<noteq> ''(cog-update-value!''" "cog_incoming_type_msg L w h t \<noteq> ''(cog-update-value!''"
    "type_text ty \<noteq> ''(cog-update-value!''" "cog_loadValue_msg L w h key \<noteq> ''(cog-update-value!''"
    "cog_runQuery_msg L w h key meta fresh \<noteq> ''(cog-update-value!''" for w ty
    by (rule line_not_update, simp add: cog_incoming_msg_def cog_incoming_type_msg_def type_text_def cog_loadValue_msg_def cog_runQuery_msg_def)+
  have t: "''(cog-get-atoms '' @ [cog_SQ] @ ty @ '')'' @ [NL] = type_text ty" for ty by (simp add: type_text_def)
  note open_runs = CHECK_OPEN_run seq_def bnd_def gets_def request_defs
  show "cog_fetchIncomingSet L table h s = (Inr (), add_call (BInsert (list_msg table (cog_incoming_msg L (g_as s) h))) s)"
    using assms by (simp add: cog_fetchIncomingSet_def open_runs enqueue_run [OF q(1)])
  show "cog_fetchIncomingByType L table h t s = (Inr (), add_call (BInsert (list_msg table (cog_incoming_type_msg L (g_as s) h t))) s)"
    using assms by (simp add: cog_fetchIncomingByType_def open_runs enqueue_run [OF q(2)])
  show "cog_loadType L table t s = (Inr (), add_call (BInsert (list_msg table (type_text (getTypeName L t)))) s)"
    unfolding cog_loadType_def t using assms by (simp add: open_runs enqueue_run [OF q(3)])
  show "cog_loadValue L h key s = (Inr (), add_call (BInsert (value_msg h key (cog_loadValue_msg L (g_as s) h key))) s)"
    using assms by (simp add: cog_loadValue_def open_runs enqueue_run [OF q(4)])
  show "cog_runQuery L h key meta fresh s = (Inr (), add_call (BInsert (value_msg h key (cog_runQuery_msg L (g_as s) h key meta fresh))) s)"
    using assms by (simp add: cog_runQuery_def open_runs enqueue_run [OF q(5)])
qed

text \<open>What a call that asks for \<open>T\<close> leaves.\<close>

definition asked ::
  "('h \<Rightarrow> string) \<Rightarrow> ('v \<Rightarrow> string) \<Rightarrow> (string \<Rightarrow> 'srv \<Rightarrow> 'srv \<times> string option) \<Rightarrow> ('h, 'v) catalogue \<Rightarrow> (handler, 'h Pkt) Msg act list set \<Rightarrow>
   ('h, 'w, 'srv) cog \<Rightarrow> ('h, 'w, 'srv) cog \<Rightarrow> bool" where
  "asked ek ev ans cat Ts s g \<longleftrightarrow> g_as g = g_as s \<and> g_fid_map g = g_fid_map s \<and> stocks ek ev ans cat (srv (x_net (g_x g))) \<and>
     acts (calls g) \<in> Ts \<and> list_all (fetch_todo cat) (calls g)"

lemma asked_one:
  assumes "calls s = []" and "stocks ek ev ans cat (srv (x_net (g_x s)))" and "[Put m] \<in> Ts" and "asks cat m"
  shows "asked ek ev ans cat Ts s (add_call (BInsert m) s)"
  using assms by (simp add: asked_def add_call_def)

lemma getAtom_asked:
  assumes env: "fetch_env B L E a ek ev ans cat fid" and talk: "can_talk a (g_x s)" and "stocks ek ev ans cat (srv (x_net (g_x s)))"
    and "calls s = []" and cov: "covers L cat (g_as s) (Do (GGetAtom h))" and run: "cog_getAtom L E junk h s = (r, g)"
  shows "asked ek ev ans cat (requests L cat (g_as s) (Do (GGetAtom h))) s g"
proof -
  note env' = fetch_envD [OF env]
  let ?q = "cog_iknow_msg L (g_as s) h" and ?k = "cog_get_keys_msg L (g_as s) h" and ?Ts = "requests L cat (g_as s) (Do (GGetAtom h))"
  from cov obtain str where str: "cat ?q = Some (AText str)" by (auto simp: covers_def split: option.splits answer.splits)
  have k: "?k \<noteq> ''(cog-update-value!''" by (rule line_not_update) (simp add: cog_get_keys_msg_def)
  have put: "[Put (keys_msg h ?k)] \<in> ?Ts" "take 2 (str @ [NL]) = ''()'' \<Longrightarrow> [] \<in> ?Ts" using str by auto
  then have "asks cat (keys_msg h ?k)" using cov unfolding covers_def by fastforce
  from first_reply [OF env'(2,3) talk cog_msgs_reply(3) [of L "g_as s" h] env'(6) assms(3)] obtain z x str' where
    z: "chan_synchro E ?q (g_x s) = (Inr str', z)" "moved (g_x s) z" "stocks ek ev ans cat x" "ans ?q x = (srv (x_net z), Some str')"
    unfolding chan_synchro_def by blast
  from z(3,4) str have str': "str' = str @ [NL]" by (fastforce simp: stocks_def answers_def)
  have "stocks ek ev ans cat (fst (ans ?q x))" using env'(5) z(3) str by (simp add: keeps_stock_def)
  with z(4) have st: "stocks ek ev ans cat (srv (x_net z))" by simp
  let ?s = "s\<lparr>g_x := z\<rparr>"
  have c: "calls ?s = []" using z(2) assms(4) by (simp add: moved_def)
  have "cog_connected s" using talk by (auto simp: can_talk_def cog_connected_def chan_connected_def)
  with z(1) have "cog_getAtom L E junk h s = (if p_table (cog_is_ok str' (raw_pkt junk)) = Null then ret ()
      else on_chan (chan_enqueue DecodeKvpList ?k \<lparr>p_table = Null, p_h = Some h, p_key = None\<rparr>)) ?s"
    by (simp add: cog_getAtom_def seq_def bnd_def gets_def CHECK_OPEN_run zoom_def)
  then have "g = ?s \<and> take 2 (str @ [NL]) = ''()'' \<or> g = add_call (BInsert (keys_msg h ?k)) ?s"
    using run by (auto simp: ret_def enqueue_run [OF k] keys_msg_def cog_is_ok_def compare0_eq_def str' split: if_splits)
  then show ?thesis
  proof
    assume "g = ?s \<and> take 2 (str @ [NL]) = ''()''"
    with put(2) st c show ?thesis by (simp add: asked_def)
  next
    assume "g = add_call (BInsert (keys_msg h ?k)) ?s"
    moreover have "asked ek ev ans cat ?Ts ?s (add_call (BInsert (keys_msg h ?k)) ?s)"
      by (rule asked_one) (use c st put(1) \<open>asks cat (keys_msg h ?k)\<close> in simp_all)
    ultimately show ?thesis by (simp add: asked_def)
  qed
qed

lemma call_asked:
  assumes env: "fetch_env B L E a ek ev ans cat fid" and talk: "can_talk a (g_x s)" and st: "stocks ek ev ans cat (srv (x_net (g_x s)))"
    and c: "calls s = []" and cov: "covers L cat (g_as s) c" and run: "sys_run L E junk c s = (r, g)"
  shows "asked ek ev ans cat (requests L cat (g_as s) c) s g"
proof -
  have conn: "cog_connected s" using talk by (auto simp: can_talk_def cog_connected_def chan_connected_def)
  note one = asked_one [OF c st]
  have put: "asks cat m" if "[Put m] \<in> requests L cat (g_as s) c" for m using cov that unfolding covers_def by fastforce
  have bar: "sys_run L E junk Barrier s = (Inr (), add_call (BBarrierMsg (fence (x_rng (g_x s)) zero_pkt)) (next_rng s))"
    by (simp add: cog_barrier_def barrier_run)
  show ?thesis
  proof (cases c)
    case (Do op)
    show ?thesis
    proof (cases op)
      case (GGetAtom h)
      with getAtom_asked [OF env talk st c] cov run Do show ?thesis by simp
    next
      case (GLoadAtomSpace table)
      from loadAtomSpace_run [OF conn, of table] run GLoadAtomSpace Do c obtain k where
        "g_as g = g_as s" "g_fid_map g = g_fid_map s" "x_net (g_x g) = x_net (g_x s)"
        "calls g = [BInsert (list_msg table (list_text ''Node'')), BFlush, BInsert (list_msg table (list_text ''Link'')), BBarrierMsg (fence k zero_pkt)]"
        by auto
      moreover have "asks cat (list_msg table (list_text ''Node''))" "asks cat (list_msg table (list_text ''Link''))"
        using cov by (simp_all add: covers_def Do GLoadAtomSpace)
      ultimately show ?thesis using st by (auto simp: asked_def Do GLoadAtomSpace)
    qed (use run put one cov Do in \<open>auto simp: fetch_runs [OF conn] covers_def\<close>)
  next
    case Barrier
    with run bar st c show ?thesis by (auto simp: asked_def next_rng_def add_call_def)
  qed (use cov in \<open>auto simp: covers_def\<close>)
qed

text \<open>Every step of the system is a step of the machine, or changes nothing that the machine has.\<close>

lemma fetch_simulation:
  assumes env: "fetch_env B L E a ek ev ans cat fid" and f: "fetching B a ek ev ans cat fid y" and step: "sstep B L E l y y'"
    and cov: "\<And>c. l = Some c \<Longrightarrow> covers L cat (g_as (y_node y)) c"
  shows "fetching B a ek ev ans cat fid y' \<and> (fstep L cat l (view B y) (view B y') \<or> l = None \<and> view B y' = view B y)"
proof -
  note env' = fetch_envD [OF env]
  from f have y: "sys_ok B a y" "stocks ek ev ans cat (srv (sys_net y))" "g_fid_map (y_node y) = fid"
      "\<forall>m \<in> set (ab_pending B (y_buf y)). asks cat m" "list_all (fetch_todo cat) (y_todo y)"
    by (simp_all add: fetching_def)
  have ok: "sys_ok B a y'" by (rule sstep_keeps [OF env'(1,8,3) step y(1)])
  from step show ?thesis
  proof cases
    case (call junk c r g)
    let ?s = "as_thread NTHREADS y"
    have s: "g_as ?s = g_as (y_node y)" "g_fid_map ?s = fid" "calls ?s = []" "stocks ek ev ans cat (srv (x_net (g_x ?s)))"
      using y(2,3) by (simp_all add: as_thread_def sys_net_def)
    from call_asked [OF env sys_can_talk [OF y(1) order_refl] s(4,3) _ call(4)] cov [OF call(1)]
    have g: "asked ek ev ans cat (requests L cat (g_as (y_node y)) c) ?s g" by (simp add: s(1))
    then have "fetching B a ek ev ans cat fid y'"
      using ok y(4) s by (simp add: call(2) fetching_def asked_def after_def sys_net_def)
    moreover have "view B y = ([], set (ab_pending B (y_buf y)), g_as (y_node y))" by (simp add: view_def call(3))
    moreover have "view B y' = (acts (calls g), set (ab_pending B (y_buf y)), g_as (y_node y))"
      using g s(1) by (simp add: view_def call(2) after_def asked_def)
    ultimately show ?thesis using g call(1) fstep.ask by (auto simp: asked_def)
  next
    case (insert m cs)
    have "\<forall>k \<in> set (ab_pending B (y_buf y')). asks cat k"
      using y(4,5) enlist_sub [of "[m]" "set (ab_pending B (y_buf y))"] by (auto simp: insert(2,3) enlist_insert [OF env'(1)])
    then have "fetching B a ek ev ans cat fid y'" using ok y by (simp add: insert(2,3) fetching_def sys_net_def)
    moreover have "fstep L cat None (view B y) (view B y')"
      unfolding view_def insert(2,3) by (simp add: enlist_insert [OF env'(1)] fstep.put)
    ultimately show ?thesis using insert(1) by simp
  next
    case (other c cs)
    then have "c = BFlush" using y(5) by auto
    then have "view B y' = view B y" by (simp add: view_def other(2,3))
    moreover have "fetching B a ek ev ans cat fid y'" using ok y by (simp add: other(2,3) fetching_def sys_net_def)
    ultimately show ?thesis using other(1) by simp
  next
    case (barrier k cs z)
    with y(5) obtain x d where k: "k = fence x d" by auto
    from fence_server [OF barrier(5) [unfolded k] env'(1,8,3,6,7) y(1) _ y(2)] fence_client [OF barrier(5) [unfolded k] env'(1,8,3) y(1)]
    have z: "stocks ek ev ans cat (srv (sys_net z))" "y_buf z = y_buf y" "g_as (y_node z) = g_as (y_node y)" "g_fid_map (y_node z) = fid"
      using y(3) by simp_all
    then have "fetching B a ek ev ans cat fid y'" using ok y(4,5) by (simp add: barrier(2,3) fetching_def sys_net_def)
    moreover have "fstep L cat None (view B y) (view B y')"
      using fstep.wait by (simp add: view_def barrier(2,3,4) z(2,3))
    ultimately show ?thesis using barrier(1) by simp
  next
    case (work m t)
    from fetch_work [OF env f work(2-4) ok] work(1) show ?thesis by simp
  qed
qed

lemma fetch_runs_refine:
  assumes "ssteps B L E y cs y'" and env: "fetch_env B L E a ek ev ans cat fid" and "fetching B a ek ev ans cat fid y"
  shows "\<forall>c \<in> set cs. \<forall>w. covers L cat w c \<Longrightarrow> fetching B a ek ev ans cat fid y' \<and> fsteps L cat (view B y) cs (view B y')"
  using assms(1)
proof (induction rule: ssteps.induct)
  case start
  with assms(3) show ?case by (simp add: fsteps.start)
next
  case (step cs y1 l y2)
  then have y1: "fetching B a ek ev ans cat fid y1" "fsteps L cat (view B y) cs (view B y1)" by simp_all
  have "covers L cat (g_as (y_node y1)) c" if "l = Some c" for c using that step.prems by simp
  from fetch_simulation [OF env y1(1) step.hyps(2) this] have "fetching B a ek ev ans cat fid y2"
    "fstep L cat l (view B y1) (view B y2) \<or> l = None \<and> view B y2 = view B y1" by blast+
  with fsteps.step [OF y1(2), of l "view B y2"] y1(2) show ?case by auto
qed

text \<open>No callback throws while the server keeps to the catalogue.\<close>

lemma fetching_returns:
  assumes env: "fetch_env B L E a ek ev ans cat fid" and f: "fetching B a ek ev ans cat fid y"
  shows "\<not> callback_fails B L E y"
proof -
  have "\<exists>g. cog_work L E m (as_thread t y) = (Inr (), g)" if m: "m \<in> set (ab_pending B (y_buf y))" and t: "t < NTHREADS" for m t
  proof -
    from f m have m': "asks cat m" by (simp add: fetching_def)
    with asksD obtain r where r: "cat (m_str m) = Some r" by blast
    obtain ms w where c: "carry L r (m_data m) (g_as (y_node y)) = (ms, w)" by fastforce
    from work_carry [OF env _ less_imp_le [OF t] _ _ m' r c] f show ?thesis by (auto simp: fetching_def)
  qed
  then show ?thesis unfolding callback_fails_def by (metis Inl_Inr_False fst_conv)
qed

lemma fetch_returns:
  assumes env: "fetch_env B L E a ek ev ans cat fid" and f: "fetching B a ek ev ans cat fid y"
  shows "\<exists>y'. ssteps B L E y [] y' \<and> y_todo y' = []"
proof -
  note env' = fetch_envD [OF env]
  from f have "sys_ok B a y" by (simp add: fetching_def)
  from call_ends [OF env'(1,8,3) this, of L] obtain y' where y': "ssteps B L E y [] y'" "y_todo y' = [] \<or> callback_fails B L E y'" by blast
  with fetch_runs_refine [OF y'(1) env f] fetching_returns [OF env] show ?thesis by auto
qed

lemma fetching_starts:
  assumes "fetch_env B L E a ek ev ans cat (g_fid_map (y_node y))" and "fresh_sys B a y0" and "ssteps B L E y0 cs y"
    and "y_todo y = []" and "ab_pending B (y_buf y) = []" and "stocks ek ev ans cat (srv (sys_net y))"
  shows "fetching B a ek ev ans cat (g_fid_map (y_node y)) y"
  using ssteps_keeps [OF assms(3) fetch_envD(1,8,3) [OF assms(1)] fresh_sys_ok [OF assms(2)]] assms(4-6) by (simp add: fetching_def)


section \<open>A fetched value\<close>

lemma covers_barrier [simp]: "covers L cat w Barrier"
  by (simp add: covers_def)

text \<open>When a barrier that was called last has returned, no request is left.\<close>

lemma barrier_phase:
  assumes "fsteps L cat f ds f'"
  shows "ds = [Barrier] \<Longrightarrow> fst f' = [Wait] \<or> fst f' = [] \<and> fst (snd f') = {}"
  using assms
proof (induction rule: fsteps.induct)
  case (step ds f1 l f2)
  show ?case
  proof (cases l)
    case None
    with step have "fst f1 = [Wait] \<or> fst f1 = [] \<and> fst (snd f1) = {}" by simp
    with step.hyps(2) None show ?thesis by cases auto
  next
    case (Some c)
    with step.prems have "c = Barrier" by simp
    with step.hyps(2) Some show ?thesis by cases auto
  qed
qed simp

lemma fetch_then_barrier:
  assumes env: "fetch_env B L E a ek ev ans cat fid" and f: "fetching B a ek ev ans cat fid y"
  shows "\<exists>y2. ssteps B L E y [Barrier] y2 \<and> y_todo y2 = []"
proof -
  from fetch_returns [OF env f] obtain y1 where y1: "ssteps B L E y [] y1" "y_todo y1 = []" by blast
  obtain r g where "sys_run L E Null Barrier (as_thread NTHREADS y1) = (r, g)" by fastforce
  from ssteps.step [OF y1(1) sstep.call [OF y1(2) this]] obtain z where z: "ssteps B L E y [Barrier] z" by auto
  from fetch_runs_refine [OF this env f] have "fetching B a ek ev ans cat fid z" by auto
  from fetch_returns [OF env this] obtain y2 where "ssteps B L E z [] y2" "y_todo y2 = []" by blast
  with ssteps_trans [OF _ z] show ?thesis by fastforce
qed

text \<open>The life of a request that gives rise to no others.\<close>

definition single :: "(handler, 'h Pkt) Msg \<Rightarrow> 'w \<Rightarrow> 'w \<Rightarrow> ('h, 'w) fetch_st \<Rightarrow> bool" where
  "single m w w' f \<longleftrightarrow> f = ([Put m], {}, w) \<or> fst f \<in> {[], [Wait]} \<and> snd f \<in> {({m}, w), ({}, w')}"

lemma single_runs:
  assumes "fsteps L cat ([Put m], {}, w) ds f" and "cat (m_str m) = Some r" and "carry L r (m_data m) w = ([], w')"
  shows "set ds \<subseteq> {Barrier} \<Longrightarrow> single m w w' f"
  using assms(1)
proof (induction rule: fsteps.induct)
  case (step ds f1 l f2)
  then have f1: "single m w w' f1" by simp
  from step.hyps(2) show ?case
  proof cases
    case (ask T w1 c M)
    with step.prems have "c = Barrier" by simp
    with f1 ask show ?thesis by (auto simp: single_def)
  next
    case (work k M r' w1 ms w2 T)
    with f1 have "k = m" "M = {m}" "w1 = w" "T \<in> {[], [Wait]}" by (auto simp: single_def)
    with work assms(2,3) show ?thesis by (auto simp: single_def)
  qed (use f1 in \<open>auto simp: single_def enlist_def\<close>)
qed (simp add: single_def)

fun value_query :: "('h, 'v, 't, 'w) atomlib \<Rightarrow> 'w \<Rightarrow> ('h, 'v, 't) cog_op \<Rightarrow> ('h \<times> 'h \<times> string) option" where
  "value_query L w (GLoadValue h key) = Some (h, key, cog_loadValue_msg L w h key)"
| "value_query L w (GRunQuery query key meta fresh) = Some (query, key, cog_runQuery_msg L w query key meta fresh)"
| "value_query L w _ = None"

lemma value_query_requests:
  "value_query L w op = Some (h, key, q) \<Longrightarrow> requests L cat w (Do op) = {[Put (value_msg h key q)]} \<and> wants_reply q"
  by (cases op) (auto simp: cog_msgs_reply)

text \<open>C11: \<open>loadValue\<close> and \<open>runQuery\<close> of the multi-threaded node, followed by a barrier, set on the atom the
  value that the server has, and nothing else. From any reachable state with nothing pending the barrier
  can always return, and when it has, the client's atomspaces are as they were but for that value, whose
  atoms have been added to the atomspace of the atom.\<close>

theorem cog_value_fetched:
  assumes "async_buffer_ok msg_equiv B" and "serves_all E ans" and "hospitable E a" and "fresh_sys B a y0" and "ssteps B L E y0 cs y"
    and "ab_pending B (y_buf y) = []"
    and "catalogue_ok L ek ev (g_fid_map (y_node y)) cat" and "stocks ek ev ans cat (srv (sys_net y))" and "keeps_stock ek ev ans cat"
    and "steady E a (stocks ek ev ans cat)" and "undisturbed E (stocks ek ev ans cat)"
    and "value_query L (g_as (y_node y)) op = Some (h, key, q)" and "cat q = Some (AValue v)" and "sstep B L E (Some (Do op)) y y1"
  shows "(\<exists>y2. ssteps B L E y1 [Barrier] y2 \<and> y_todo y2 = []) \<and>
    (\<forall>y2. ssteps B L E y1 [Barrier] y2 \<and> y_todo y2 = [] \<longrightarrow>
      g_as (y_node y2) = with_value L h key v (g_as (y_node y)) \<and> ab_pending B (y_buf y2) = [])"
proof -
  let ?w = "g_as (y_node y)" and ?m = "value_msg h key q"
  have env: "fetch_env B L E a ek ev ans cat (g_fid_map (y_node y))" using assms(1-3,7,9-11) by (simp add: fetch_env_def)
  have todo: "y_todo y = []" using assms(14) by cases
  note y = fetching_starts [OF env assms(4,5) todo assms(6,8)]
  from value_query_requests [OF assms(12), of cat] have rq: "requests L cat ?w (Do op) = {[Put ?m]}" "wants_reply q" by simp_all
  then have "covers L cat ?w (Do op)" using assms(13) by (simp add: covers_def asks_def value_msg_def plain_def)
  with fetch_simulation [OF env y assms(14)] have y1: "fetching B a ek ev ans cat (g_fid_map (y_node y)) y1"
    "fstep L cat (Some (Do op)) ([], {}, ?w) (view B y1)" by (auto simp: view_def todo assms(6))
  from y1(2) have v1: "view B y1 = ([Put ?m], {}, ?w)" by cases (auto simp: rq(1))
  have "g_as (y_node y2) = with_value L h key v ?w \<and> ab_pending B (y_buf y2) = []" if y2: "ssteps B L E y1 [Barrier] y2" "y_todo y2 = []" for y2
  proof -
    from fetch_runs_refine [OF y2(1) env y1(1)] have f: "fsteps L cat ([Put ?m], {}, ?w) [Barrier] (view B y2)" by (simp add: v1)
    have "single ?m ?w (with_value L h key v ?w) (view B y2)"
      by (rule single_runs [where r = "AValue v", OF f]) (use assms(13) in \<open>simp_all add: value_msg_def plain_def\<close>)
    with barrier_phase [OF f refl] y2(2) show ?thesis by (auto simp: single_def view_def)
  qed
  with fetch_then_barrier [OF env y1(1)] show ?thesis by blast
qed

section \<open>An example\<close>

text \<open>A server with two nodes, one of which has a value and the other as its incoming set.\<close>

definition small_cat :: "(nat, nat) catalogue" where
  "small_cat = map_of
     [(list_text ''Node'', Atoms small_nodes), (list_text ''Link'', Atoms []), (req_text (small_entry 1 [(2, 3)]), Alist [(2, 3)]),
      (req_text (small_entry 2 []), Alist []), (cog_incoming_msg small_lib [] 1, Atoms [small_entry 2 []]),
      (cog_loadValue_msg small_lib [] 1 2, AValue 3)]"

definition shelf_text :: "string \<Rightarrow> string" where
  "shelf_text msg = tidy (case small_cat msg of None \<Rightarrow> ''()'' | Some r \<Rightarrow> answer_text num_text num_text r)"

definition shelf_ans :: "string \<Rightarrow> unit \<Rightarrow> unit \<times> string option" where
  "shelf_ans msg x = (x, if wants_reply msg then Some (shelf_text msg) else None)"

definition shelf_host :: "unit env" where
  "shelf_host = small_env (\<lambda>msg. if msg = ''sexpr'' @ [NL] then [Seg ''> ''] else if wants_reply msg then [Seg (shelf_text msg)] else [])"

lemma shelf_serves: "serves_all shelf_host shelf_ans"
proof -
  have "\<not> wants_reply (''sexpr'' @ [NL])" "\<not> noreply (''sexpr'' @ [NL])" by (simp_all add: wants_reply_iff noreply_iff)
  then show ?thesis
    unfolding serves_all_def serves_def using tidy_reply by (auto simp: shelf_host_def small_env_def shelf_ans_def shelf_text_def wants_reply_def)
qed

lemma shelf_lets_in: "hospitable shelf_host 7"
  by (simp add: hospitable_def shelf_host_def small_env_def chan_bufsize_def strip_def lstrip_def rstrip_def SYN_def)

lemmas shelf_env = small_buffer_ok shelf_serves shelf_lets_in small_fresh_sys

lemma small_cat_answers:
  assumes "small_cat q = Some r"
  shows "wants_reply q \<and> tidy (answer_text num_text num_text r) = answer_text num_text num_text r \<and>
    length (answer_text num_text num_text r) < npos \<and> readable small_lib num_text num_text fid small_cat r"
proof -
  from map_of_SomeD [OF assms [unfolded small_cat_def]] have
    "(q, r) \<in> {(list_text ''Node'', Atoms small_nodes), (list_text ''Link'', Atoms []), (req_text (small_entry 1 [(2, 3)]), Alist [(2, 3)]),
      (req_text (small_entry 2 []), Alist []), (cog_incoming_msg small_lib [] 1, Atoms [small_entry 2 []]),
      (cog_loadValue_msg small_lib [] 1 2, AValue 3)}" by auto
  moreover have "small_cat (req_text (small_entry 1 [(2, 3)])) = Some (Alist [(2, 3)])" "small_cat (req_text (small_entry 2 [])) = Some (Alist [])"
    by (simp_all add: small_cat_def list_text_def req_text_def small_entry_def num_text_def numeral_2_eq_2)
  ultimately show ?thesis
    using few_npos
    by (auto simp: text_replies cog_msgs_reply small_nodes_def small_reads small_reads_entry)
       (simp_all add: small_entry_def atoms_text_def alist_text_def pair_text_def num_text_def tidy_def SYN_def NL_def NUL_def numeral_2_eq_2 numeral_3_eq_3)
qed

lemma shelf_cat: "catalogue_ok small_lib num_text num_text fid small_cat" "stocks num_text num_text shelf_ans small_cat x"
proof -
  show "catalogue_ok small_lib num_text num_text fid small_cat"
    using small_finds_end small_cat_answers by (simp add: catalogue_ok_def)
  show "stocks num_text num_text shelf_ans small_cat x"
    using small_cat_answers by (auto simp: stocks_def answers_def shelf_ans_def shelf_text_def)
qed

lemma shelf_kept:
  "keeps_stock num_text num_text shelf_ans small_cat" "steady shelf_host 7 (stocks num_text num_text shelf_ans small_cat)"
  "undisturbed shelf_host (stocks num_text num_text shelf_ans small_cat)"
  using shelf_cat(2) by (simp_all add: keeps_stock_def steady_def undisturbed_def)

lemma small_sys_idle: "y_todo small_sys = []" "ab_pending small_buffer (y_buf small_sys) = []" "g_as (y_node small_sys) = []"
  by (simp_all add: small_sys_def small_buffer_def)

lemma small_sys_step: "\<exists>y1. sstep small_buffer small_lib E (Some c) small_sys y1"
proof -
  obtain r g where "sys_run small_lib E Null c (as_thread NTHREADS small_sys) = (r, g)" by fastforce
  from sstep.call [OF small_sys_idle(1) this] show ?thesis by blast
qed

lemma shelf_lists:
  "small_cat (list_text ''Node'') = Some (Atoms small_nodes)" "small_cat (list_text ''Link'') = Some (Atoms [])"
  "small_cat (cog_incoming_msg small_lib [] 1) = Some (Atoms [small_entry 2 []])" "small_cat (cog_loadValue_msg small_lib [] 1 2) = Some (AValue 3)"
  by (simp_all add: small_cat_def list_text_def req_text_def cog_incoming_msg_def cog_loadValue_msg_def)

theorem cog_value_fetched_witness:
  "\<exists>y1 y2. sstep small_buffer small_lib shelf_host (Some (Do (GLoadValue 1 2))) small_sys y1 \<and>
    ssteps small_buffer small_lib shelf_host y1 [Barrier] y2 \<and> y_todo y2 = [] \<and> g_as (y_node y2) = [(1, 2, 3)]"
proof -
  obtain y1 where y1: "sstep small_buffer small_lib shelf_host (Some (Do (GLoadValue 1 2))) small_sys y1" using small_sys_step by blast
  have q: "value_query small_lib (g_as (y_node small_sys)) (GLoadValue 1 2) = Some (1, 2, cog_loadValue_msg small_lib [] 1 2)"
    by (simp add: small_sys_idle(3))
  from cog_value_fetched [OF shelf_env ssteps.start small_sys_idle(2) shelf_cat shelf_kept q shelf_lists(4) y1] obtain y2 where
    "ssteps small_buffer small_lib shelf_host y1 [Barrier] y2" "y_todo y2 = []" "g_as (y_node y2) = with_value small_lib 1 2 3 []"
    unfolding small_sys_idle(3) by blast
  with y1 show ?thesis by (auto simp: with_value_def small_lib_def)
qed

lemma small_covers: "covers small_lib small_cat w (Do (GLoadAtomSpace table))"
  by (auto simp: covers_def asks_def list_msg_def plain_def shelf_lists text_replies)


end
