(* ===== verification/BulkLoad.thy ===== *)
theory BulkLoad
  imports Fetching
begin

text \<open>
  What the fetches of lists of atoms leave in the atomspace: \<open>loadAtomSpace\<close>, \<open>loadType\<close> and the two
  fetches of incoming sets. Four workers take the lists and the requests for the values in any order, so
  the result is not one atomspace but any that an abstract bulk load can give: each listed atom is added
  once and later its values are attached once. The runs of the fetch machine, and with them those of the
  node, refine the steps of the bulk load.
\<close>

section \<open>The abstract bulk load\<close>

text \<open>The entries that are still to be added, and those whose values are still to be attached, with the
  atom that was added for each.\<close>

inductive bulk ::
  "('h, 'v, 't, 'w) atomlib \<Rightarrow> 'h option \<Rightarrow> ('h, 'v) entry set \<Rightarrow> 'w \<Rightarrow>
   ('h, 'v) entry set \<Rightarrow> (('h, 'v) entry \<times> 'h) set \<Rightarrow> 'w \<Rightarrow> bool" for L table es w0 where
  start: "bulk L table es w0 es {} w0"
| add: "bulk L table es w0 R W w \<Longrightarrow> e \<in> R \<Longrightarrow> add_nocheck L table (en_atom e) w = (h, w') \<Longrightarrow>
    bulk L table es w0 (R - {e}) (insert (e, h) W) w'"
| attach: "bulk L table es w0 R W w \<Longrightarrow> (e, h) \<in> W \<Longrightarrow> attach_kvs L h (en_kvs e) w = (Inr (), w') \<Longrightarrow>
    bulk L table es w0 R (W - {(e, h)}) w'"

lemma bulk_parts: "bulk L table es w0 R W w \<Longrightarrow> R \<subseteq> es \<and> fst ` W \<subseteq> es - R \<and> inj_on fst W"
proof (induction rule: bulk.induct)
  case (add R W w e h w')
  then have "e \<notin> fst ` W" by blast
  with add show ?case by (auto simp: inj_on_insert image_iff)
next
  case (attach R W w e h w')
  then show ?case by (auto intro: inj_on_subset)
qed simp

lemma bulk_add_all:
  assumes "bulk L table es0 w0 R W w" and "set es \<subseteq> R" and "distinct es" and "add_all L table es w = (hs, w')"
  shows "bulk L table es0 w0 (R - set es) (W \<union> set (zip es hs)) w'"
  using assms
proof (induction es arbitrary: R W w hs)
  case (Cons e es)
  obtain h w1 hs' where h: "add_nocheck L table (en_atom e) w = (h, w1)" "add_all L table es w1 = (hs', w')" "hs = h # hs'"
    using Cons.prems(4) by (auto split: prod.splits)
  have "bulk L table es0 w0 (R - {e}) (insert (e, h) W) w1" by (rule bulk.add [OF Cons.prems(1) _ h(1)]) (use Cons.prems(2) in simp)
  from Cons.IH [OF this _ _ h(2)] Cons.prems(2,3) have "bulk L table es0 w0 (R - {e} - set es) (insert (e, h) W \<union> set (zip es hs')) w'" by auto
  moreover have "R - {e} - set es = R - set (e # es)" by auto
  ultimately show ?case by (simp add: h(3))
qed simp

section \<open>The requests of a bulk load\<close>

text \<open>What is listed for a request, and what is asked for the lists \<open>J\<close> and for the values of the atoms
  \<open>W\<close>.\<close>

definition listed :: "('h, 'v) catalogue \<Rightarrow> string \<Rightarrow> ('h, 'v) entry list" where
  "listed cat q = (case cat q of Some (Atoms es) \<Rightarrow> es | _ \<Rightarrow> [])"

definition messages :: "'h option \<Rightarrow> string set \<Rightarrow> (('h, 'v) entry \<times> 'h) set \<Rightarrow> (handler, 'h Pkt) Msg set" where
  "messages table J W = list_msg table ` J \<union> (\<lambda>(e, h). req e h) ` W"

abbreviation all_listed :: "('h, 'v) catalogue \<Rightarrow> string set \<Rightarrow> ('h, 'v) entry set" where
  "all_listed cat J \<equiv> (\<Union>q \<in> J. set (listed cat q))"

text \<open>The requests \<open>Q\<close> list atoms, each atom once and in one list only.\<close>

definition bulk_cat :: "('h, 'v) catalogue \<Rightarrow> string list \<Rightarrow> bool" where
  "bulk_cat cat Q \<longleftrightarrow> distinct Q \<and> distinct (map en_text (concat (map (listed cat) Q))) \<and>
     (\<forall>q \<in> set Q. cat q = Some (Atoms (listed cat q)) \<and> (\<forall>e \<in> set (listed cat q). cat (req_text e) = Some (Alist (en_kvs e))))"

lemma bulk_catD:
  assumes "bulk_cat cat Q"
  shows "inj_on en_text (all_listed cat (set Q))" and "q \<in> set Q \<Longrightarrow> cat q = Some (Atoms (listed cat q))"
    and "q \<in> set Q \<Longrightarrow> distinct (listed cat q)" and "e \<in> all_listed cat (set Q) \<Longrightarrow> cat (req_text e) = Some (Alist (en_kvs e))"
proof -
  have "inj_on en_text (set (concat (map (listed cat) Q)))" "distinct (concat (map (listed cat) Q))"
    using assms unfolding bulk_cat_def distinct_map by blast+
  then show "inj_on en_text (all_listed cat (set Q))" "q \<in> set Q \<Longrightarrow> distinct (listed cat q)" by (auto simp: distinct_concat_iff)
qed (use assms in \<open>auto simp: bulk_cat_def\<close>)

lemma concat_disjoint:
  "distinct Q \<Longrightarrow> distinct (concat (map f Q)) \<Longrightarrow> q \<in> set Q \<Longrightarrow> q' \<in> set Q \<Longrightarrow> q \<noteq> q' \<Longrightarrow> set (f q) \<inter> set (f q') = {}"
  by (induction Q) auto

lemma lists_disjoint:
  assumes "bulk_cat cat Q" and "q \<in> set Q" and "q' \<in> set Q" and "q \<noteq> q'"
  shows "set (listed cat q) \<inter> set (listed cat q') = {}"
proof -
  have "distinct Q" "distinct (concat (map (listed cat) Q))" using assms(1) unfolding bulk_cat_def distinct_map by blast+
  from concat_disjoint [OF this assms(2-4)] show ?thesis .
qed

lemma message_texts:
  "m_str (list_msg table q) = q" "m_str (req e h) = req_text e" "m_sequence (list_msg table q) = 0" "m_sequence (req e h) = 0"
  "m_data (list_msg table q) = table_pkt table" "m_data (req e h) = \<lparr>p_table = Null, p_h = Some h, p_key = None\<rparr>"
  "req_text e = req_text e' \<longleftrightarrow> en_text e = en_text e'"
  by (simp_all add: list_msg_def req_def keys_msg_def plain_def req_text_def)

lemma message_cases:
  assumes "m \<in> messages table J W"
  obtains (list) q where "q \<in> J" "m = list_msg table q" | (req) e h where "(e, h) \<in> W" "m = req e h"
  using assms by (auto simp: messages_def)

text \<open>The text of a request tells what it is for.\<close>

lemma message_unique:
  assumes Q: "bulk_cat cat Q" and J: "J \<subseteq> set Q" and W: "fst ` W \<subseteq> all_listed cat (set Q)" "inj_on fst W"
    and m: "m \<in> messages table J W" "m' \<in> messages table J W" "m_str m = m_str m'"
  shows "m = m'"
proof -
  note Q' = bulk_catD [OF Q]
  have diff: "q \<noteq> req_text e" if "q \<in> J" "(e, h) \<in> W" for q e h
  proof -
    have "q \<in> set Q" using that(1) J by blast
    moreover have "e \<in> all_listed cat (set Q)" using that(2) W(1) by force
    ultimately show ?thesis using Q'(2,4) by force
  qed
  have same: "req e h = req e' h'" if "(e, h) \<in> W" "(e', h') \<in> W" "en_text e = en_text e'" for e h e' h'
  proof -
    from that(1,2) W(1) have "e \<in> all_listed cat (set Q)" "e' \<in> all_listed cat (set Q)" by force+
    with inj_onD [OF Q'(1) that(3)] have "e = e'" by blast
    with inj_onD [OF W(2), of "(e, h)" "(e', h')"] that(1,2) show ?thesis by simp
  qed
  from m(1) show ?thesis
  proof (cases rule: message_cases)
    case (list q)
    from m(2) show ?thesis
    proof (cases rule: message_cases)
      case (list q')
      with \<open>m = list_msg table q\<close> m(3) show ?thesis by (simp add: message_texts)
    next
      case (req e h)
      with list m(3) diff [OF list(1) req(1)] show ?thesis by (simp add: message_texts)
    qed
  next
    case (req e h)
    from m(2) show ?thesis
    proof (cases rule: message_cases)
      case (list q)
      with req m(3) diff [OF list(1) req(1)] show ?thesis by (simp add: message_texts)
    next
      case (req e' h')
      with \<open>m = req e h\<close> m(3) same [OF \<open>(e, h) \<in> W\<close> req(1)] show ?thesis by (simp add: message_texts)
    qed
  qed
qed

lemma message_equiv:
  assumes "m \<in> messages table J W" and "msg_equiv m m'"
  shows "m_str m = m_str m'"
proof -
  have "m_sequence m = 0" using assms(1) by (auto elim!: message_cases simp: message_texts)
  with assms(2) show ?thesis by (simp add: msg_equiv_iff)
qed

lemma enlist_new:
  assumes "\<And>x m. x \<in> M \<union> set ms \<Longrightarrow> m \<in> M \<union> set ms \<Longrightarrow> msg_equiv x m \<Longrightarrow> x = m"
  shows "fold enlist ms M = M \<union> set ms"
  using assms
proof (induction ms arbitrary: M)
  case (Cons m ms)
  have m: "enlist m M = insert m M" using Cons.prems by (auto simp: enlist_def)
  have "fold enlist ms (insert m M) = insert m M \<union> set ms" by (rule Cons.IH) (use Cons.prems in auto)
  with m show ?case by simp
qed simp

section \<open>The machine refines the bulk load\<close>

fun puts :: "'m act list \<Rightarrow> 'm list" where
  "puts [] = []"
| "puts (Put m # T) = m # puts T"
| "puts (Wait # T) = puts T"

text \<open>What is asked for or still to be asked for are the lists \<open>J\<close> and the values of \<open>W\<close> that the bulk load
  has not got yet.\<close>

definition loading ::
  "('h, 'v, 't, 'w) atomlib \<Rightarrow> ('h, 'v) catalogue \<Rightarrow> 'h option \<Rightarrow> string list \<Rightarrow> 'w \<Rightarrow> ('h, 'w) fetch_st \<Rightarrow> bool" where
  "loading L cat table Q w0 f \<longleftrightarrow> (case f of (T, M, w) \<Rightarrow>
     \<exists>J W. J \<subseteq> set Q \<and> bulk L table (all_listed cat (set Q)) w0 (all_listed cat J) W w \<and>
       set (puts T) \<union> M = messages table J W \<and> set (puts T) \<inter> M = {} \<and> distinct (puts T))"

lemma loading_starts:
  assumes "distinct Q" and "puts T = map (list_msg table) Q"
  shows "loading L cat table Q w (T, {}, w)"
proof -
  have "distinct (map (list_msg table) Q)" using assms(1) by (auto simp: distinct_map inj_on_def) (metis message_texts(1))
  moreover have "set (puts T) = messages table (set Q) {}" by (simp add: assms(2) messages_def)
  ultimately show ?thesis unfolding loading_def using bulk.start assms(2) by fastforce
qed

lemma loading_list:
  assumes Q: "bulk_cat cat Q" and J: "J \<subseteq> set Q" and q: "q \<in> J" and m: "list_msg table q \<in> M"
    and bulk: "bulk L table (all_listed cat (set Q)) w0 (all_listed cat J) W w"
    and wait: "set (puts T) \<union> M = messages table J W" "set (puts T) \<inter> M = {}" "distinct (puts T)"
    and c: "carry L (Atoms (listed cat q)) (table_pkt table) w = (ms, w')"
  shows "loading L cat table Q w0 (T, fold enlist ms (M - {list_msg table q}), w')"
proof -
  note Q' = bulk_catD [OF Q]
  let ?es = "listed cat q" and ?m = "list_msg table q"
  have qQ: "q \<in> set Q" using q J by blast
  obtain hs where a: "add_all L table ?es w = (hs, w')" "ms = map (\<lambda>(e, h). req e h) (zip ?es hs)" using c by (auto split: prod.splits)
  let ?J = "J - {q}" and ?W = "W \<union> set (zip ?es hs)"
  have J': "?J \<subseteq> set Q" using J by blast
  have "bulk L table (all_listed cat (set Q)) w0 (all_listed cat J - set ?es) ?W w'"
    by (rule bulk_add_all [OF bulk _ Q'(3) [OF qQ] a(1)]) (use q in auto)
  moreover have "all_listed cat J - set ?es = all_listed cat ?J"
  proof -
    have "set (listed cat q') \<inter> set ?es = {}" if "q' \<in> ?J" for q' using lists_disjoint [OF Q _ qQ, of q'] that J by blast
    then show ?thesis by blast
  qed
  ultimately have bulk': "bulk L table (all_listed cat (set Q)) w0 (all_listed cat ?J) ?W w'" by simp
  from bulk_parts [OF bulk'] have W': "fst ` ?W \<subseteq> all_listed cat (set Q)" "inj_on fst ?W" by auto
  have ms: "set ms = (\<lambda>(e, h). req e h) ` set (zip ?es hs)" by (simp add: a(2))
  have diff: "?m \<noteq> req e h" if "(e, h) \<in> ?W" for e h
  proof -
    have "e \<in> all_listed cat (set Q)" using W'(1) that by force
    with Q'(2) [OF qQ] Q'(4) have "q \<noteq> req_text e" by force
    then show ?thesis by (metis message_texts(1,2))
  qed
  have mess: "messages table ?J ?W = messages table J W - {?m} \<union> set ms"
    using diff by (auto simp: messages_def ms dest: arg_cong [of _ _ m_str] simp: message_texts)
  have new: "set (puts T) \<inter> set ms = {}"
  proof -
    have False if "(e, h) \<in> set (zip ?es hs)" "req e h \<in> messages table J W" for e h
    proof -
      have e: "e \<in> set ?es" using that(1) by (rule set_zip_leftD)
      from that(2) obtain e' h' where eh: "(e', h') \<in> W" "req e h = req e' h'"
      proof (cases rule: message_cases)
        case (list q')
        have "e \<in> all_listed cat (set Q)" using e qQ by blast
        moreover have "q' = req_text e" using list(2) by (metis message_texts(1,2))
        ultimately show ?thesis using list(1) J Q'(2) [of q'] Q'(4) by force
      qed (use that in blast)
      then have "en_text e = en_text e'" by (metis message_texts(2,7))
      moreover from bulk_parts [OF bulk] eh(1) have "e' \<in> all_listed cat (set Q) - all_listed cat J" by force
      ultimately have "e = e'" using inj_onD [OF Q'(1), of e e'] e qQ by blast
      with \<open>e' \<in> all_listed cat (set Q) - all_listed cat J\<close> e q show False by blast
    qed
    with wait(1) show ?thesis by (auto simp: ms)
  qed
  have sub: "set (puts T) \<union> (M - {?m}) \<union> set ms = messages table ?J ?W"
    unfolding mess using wait(1,2) m by blast
  have "fold enlist ms (M - {?m}) = M - {?m} \<union> set ms"
  proof (rule enlist_new)
    fix x k assume x: "x \<in> M - {?m} \<union> set ms" and k: "k \<in> M - {?m} \<union> set ms" and e: "msg_equiv x k"
    from x k sub have "x \<in> messages table ?J ?W" "k \<in> messages table ?J ?W" by blast+
    with message_unique [OF Q J' W' this] message_equiv [OF _ e] show "x = k" by blast
  qed
  moreover have "set (puts T) \<union> (M - {?m} \<union> set ms) = messages table ?J ?W" "set (puts T) \<inter> (M - {?m} \<union> set ms) = {}"
    using sub new wait(2) by blast+
  ultimately show ?thesis unfolding loading_def prod.case using bulk' J' wait(3) by metis
qed

lemma loading_values:
  assumes Q: "bulk_cat cat Q" and J: "J \<subseteq> set Q" and eh: "(e, h) \<in> W" and m: "req e h \<in> M"
    and bulk: "bulk L table (all_listed cat (set Q)) w0 (all_listed cat J) W w"
    and wait: "set (puts T) \<union> M = messages table J W" "set (puts T) \<inter> M = {}" "distinct (puts T)"
    and w': "attach_kvs L h (en_kvs e) w = (Inr (), w')"
  shows "loading L cat table Q w0 (T, M - {req e h}, w')"
proof -
  let ?W = "W - {(e, h)}"
  note Q' = bulk_catD [OF Q]
  from bulk_parts [OF bulk] have W: "fst ` W \<subseteq> all_listed cat (set Q)" "inj_on fst W" by auto
  have e: "e \<in> all_listed cat (set Q)" using W(1) eh by force
  have "req e' h' \<noteq> req e h" if "(e', h') \<in> ?W" for e' h'
  proof
    assume "req e' h' = req e h"
    then have "en_text e' = en_text e" by (metis message_texts(2,7))
    moreover have "e' \<in> all_listed cat (set Q)" using W(1) that by force
    ultimately have "e' = e" using inj_onD [OF Q'(1)] e by blast
    with inj_onD [OF W(2), of "(e', h')" "(e, h)"] that eh show False by auto
  qed
  moreover have "list_msg table q \<noteq> req e h" if "q \<in> J" for q
  proof
    assume "list_msg table q = req e h"
    then have "q = req_text e" by (metis message_texts(1,2))
    with Q'(2) [of q] Q'(4) [OF e] that J show False by force
  qed
  ultimately have "messages table J ?W = messages table J W - {req e h}" using eh by (fastforce simp: messages_def)
  with wait(1,2) m have "set (puts T) \<union> (M - {req e h}) = messages table J ?W" "set (puts T) \<inter> (M - {req e h}) = {}" by blast+
  with bulk.attach [OF bulk eh w'] J wait(3) show ?thesis unfolding loading_def prod.case by metis
qed

lemma loading_step:
  assumes Q: "bulk_cat cat Q" and load: "loading L cat table Q w0 f" and step: "fstep L cat l f f'" and l: "l = None \<or> l = Some Barrier"
  shows "loading L cat table Q w0 f'"
proof -
  obtain T M w where f: "f = (T, M, w)" by (cases f)
  from load f obtain J W where J: "J \<subseteq> set Q" and bulk: "bulk L table (all_listed cat (set Q)) w0 (all_listed cat J) W w"
    and wait: "set (puts T) \<union> M = messages table J W" "set (puts T) \<inter> M = {}" "distinct (puts T)" by (auto simp: loading_def)
  from bulk_parts [OF bulk] have W: "fst ` W \<subseteq> all_listed cat (set Q)" "inj_on fst W" by auto
  from step show ?thesis
  proof cases
    case (ask T' w' c M')
    with l load f show ?thesis by (auto simp: loading_def)
  next
    case (put m T' M' w')
    with f have p: "T = Put m # T'" "M' = M" "w' = w" by simp_all
    have "m \<in> messages table J W" using wait(1) p(1) by auto
    have "fold enlist [m] M = M \<union> set [m]"
    proof (rule enlist_new)
      fix x k assume "x \<in> M \<union> set [m]" "k \<in> M \<union> set [m]" and e: "msg_equiv x k"
      then have x: "x \<in> messages table J W" "k \<in> messages table J W" using wait(1) p(1) by auto
      with message_unique [OF Q J W x] message_equiv [OF x(1) e] show "x = k" by blast
    qed
    then have "enlist m M = insert m M" by simp
    moreover have "set (puts T') \<union> insert m M = messages table J W" "set (puts T') \<inter> insert m M = {}" "distinct (puts T')"
      using wait p(1) by auto
    ultimately show ?thesis unfolding put(3) p(2,3) loading_def prod.case using J bulk by metis
  next
    case (wait T' w')
    with load show ?thesis unfolding wait(2,3) loading_def by simp
  next
    case (work m M' r w1 ms w' T')
    with f have p: "M' = M" "w1 = w" "T' = T" by simp_all
    from work(4) p(1) wait(1) have "m \<in> messages table J W" by blast
    then show ?thesis
    proof (cases rule: message_cases)
      case (list q)
      have r: "r = Atoms (listed cat q)" using bulk_catD(2) [OF Q, of q] list J work(5) by (auto simp: message_texts)
      show ?thesis
        unfolding work(3) p list(2)
        by (rule loading_list [OF Q J list(1) _ bulk wait]) (use work(4,6) p list r in \<open>simp_all add: message_texts\<close>)
    next
      case (req e h)
      then have "e \<in> all_listed cat (set Q)" using W(1) by force
      then have r: "r = Alist (en_kvs e)" using bulk_catD(4) [OF Q] work(5) req(2) by (auto simp: message_texts)
      obtain w2 where w2: "attach_kvs L h (en_kvs e) w = (Inr (), w2)" using attach_returns by metis
      have "ms = []" "w' = w2" using work(6) w2 p(2) req(2) by (simp_all add: r message_texts)
      with loading_values [OF Q J req(1) _ bulk wait w2] work(4) p req(2) show ?thesis by (simp add: work(3))
    qed
  qed
qed

lemma loading_runs:
  assumes "fsteps L cat f ds f'" and "bulk_cat cat Q" and "loading L cat table Q w0 f"
  shows "set ds \<subseteq> {Barrier} \<Longrightarrow> loading L cat table Q w0 f'"
  using assms(1)
proof (induction rule: fsteps.induct)
  case (step ds f1 l f2)
  then have "l = None \<or> l = Some Barrier" by (cases l) auto
  moreover have "loading L cat table Q w0 f1" using step by simp
  ultimately show ?case using loading_step [OF assms(2) _ step.hyps(2)] by blast
qed (use assms(3) in simp)

lemma loading_ends:
  assumes "loading L cat table Q w0 ([], {}, w)"
  shows "bulk L table (all_listed cat (set Q)) w0 {} {} w"
  using assms by (auto simp: loading_def messages_def)

section \<open>The calls\<close>

text \<open>A call that ends with a barrier of its own returns with no request left.\<close>

lemma wait_phase:
  assumes "fsteps L cat f ds f'" and "fst f = T @ [Wait]"
  shows "ds = [] \<Longrightarrow> (\<exists>T. fst f' = T @ [Wait]) \<or> fst f' = [] \<and> fst (snd f') = {}"
  using assms(1)
proof (induction rule: fsteps.induct)
  case (step ds f1 l f2)
  then have "l = None" "(\<exists>T. fst f1 = T @ [Wait]) \<or> fst f1 = [] \<and> fst (snd f1) = {}" by (cases l; simp)+
  with step.hyps(2) show ?case by cases (auto simp: Cons_eq_append_conv)
qed (use assms(2) in simp)

text \<open>C9: \<open>loadAtomSpace\<close> of the multi-threaded node returns, and has then loaded exactly what the server
  has, however the four workers share the work. When the server lists its nodes and its links, each by
  a text of its own that the coder reads back, and gives the values of each, then from any reachable
  state with nothing pending the call can always go on until it returns, and in every run in which it
  has returned the client's atomspaces are the result of a bulk load: each listed atom was added once
  and after that its values, and no others, were attached to it.\<close>

theorem cog_loadAtomSpace_loads:
  assumes "async_buffer_ok msg_equiv B" and "serves_all E ans" and "hospitable E a" and "fresh_sys B a y0" and "ssteps B L E y0 cs y"
    and "ab_pending B (y_buf y) = []"
    and "catalogue_ok L ek ev (g_fid_map (y_node y)) cat" and "stocks ek ev ans cat (srv (sys_net y))" and "keeps_stock ek ev ans cat"
    and "steady E a (stocks ek ev ans cat)" and "undisturbed E (stocks ek ev ans cat)"
    and "cat (list_text ''Node'') = Some (Atoms nodes)" and "cat (list_text ''Link'') = Some (Atoms links)"
    and "distinct (map en_text (nodes @ links))" and "sstep B L E (Some (Do (GLoadAtomSpace table))) y y1"
  shows "(\<exists>y2. ssteps B L E y1 [] y2 \<and> y_todo y2 = []) \<and>
    (\<forall>y2. ssteps B L E y1 [] y2 \<and> y_todo y2 = [] \<longrightarrow>
      bulk L table (set (nodes @ links)) (g_as (y_node y)) {} {} (g_as (y_node y2)) \<and> ab_pending B (y_buf y2) = [])"
proof -
  let ?w = "g_as (y_node y)" and ?Q = "[list_text ''Node'', list_text ''Link'']" and ?c = "Do (GLoadAtomSpace table)"
  have env: "fetch_env B L E a ek ev ans cat (g_fid_map (y_node y))" using assms(1-3,7,9-11) by (simp add: fetch_env_def)
  have todo: "y_todo y = []" using assms(15) by cases
  note y = fetching_starts [OF env assms(4,5) todo assms(6,8)]
  have ls: "listed cat (list_text ''Node'') = nodes" "listed cat (list_text ''Link'') = links" using assms(12,13) by (simp_all add: listed_def)
  have "list_text ''Node'' \<noteq> list_text ''Link''" by (simp add: list_text_def)
  then have Q: "bulk_cat cat ?Q"
    using assms(12-14) catalogue_okD(3) [OF assms(7,12)] catalogue_okD(3) [OF assms(7,13)] by (auto simp: bulk_cat_def ls)
  have "covers L cat ?w ?c" using assms(12,13) by (auto simp: covers_def asks_def list_msg_def plain_def text_replies)
  with fetch_simulation [OF env y assms(15)] have y1: "fetching B a ek ev ans cat (g_fid_map (y_node y)) y1"
    "fstep L cat (Some ?c) ([], {}, ?w) (view B y1)" by (auto simp: view_def todo assms(6))
  let ?T = "[Put (list_msg table (list_text ''Node'')), Put (list_msg table (list_text ''Link'')), Wait]"
  from y1(2) have v1: "view B y1 = (?T, {}, ?w)" by cases auto
  have load: "loading L cat table ?Q ?w (?T, {}, ?w)" by (rule loading_starts) (simp_all add: list_text_def)
  have "bulk L table (set (nodes @ links)) ?w {} {} (g_as (y_node y2)) \<and> ab_pending B (y_buf y2) = []"
    if y2: "ssteps B L E y1 [] y2" "y_todo y2 = []" for y2
  proof -
    from fetch_runs_refine [OF y2(1) env y1(1)] have f: "fsteps L cat (?T, {}, ?w) [] (view B y2)" by (simp add: v1)
    from wait_phase [OF f, of "butlast ?T"] y2(2) have v2: "view B y2 = ([], {}, g_as (y_node y2))" "ab_pending B (y_buf y2) = []"
      by (auto simp: view_def)
    from loading_runs [OF f Q load] loading_ends [of L cat table ?Q ?w "g_as (y_node y2)"] v2 show ?thesis by (simp add: ls)
  qed
  with fetch_returns [OF env y1(1)] show ?thesis by blast
qed

fun list_query :: "('h, 'v, 't, 'w) atomlib \<Rightarrow> 'w \<Rightarrow> ('h, 'v, 't) cog_op \<Rightarrow> ('h option \<times> string) option" where
  "list_query L w (GFetchIncomingSet table h) = Some (table, cog_incoming_msg L w h)"
| "list_query L w (GFetchIncomingByType table h t) = Some (table, cog_incoming_type_msg L w h t)"
| "list_query L w (GLoadType table t) = Some (table, type_text (getTypeName L t))"
| "list_query L w _ = None"

lemma list_query_requests:
  "list_query L w op = Some (table, q) \<Longrightarrow> requests L cat w (Do op) = {[Put (list_msg table q)]} \<and> wants_reply q"
  by (cases op) (auto simp: cog_msgs_reply text_replies)

text \<open>C10: \<open>fetchIncomingSet\<close>, \<open>fetchIncomingByType\<close> and \<open>loadType\<close> of the multi-threaded node return before
  anything is loaded; after a barrier exactly the atoms that the server lists have been loaded. From any
  reachable state with nothing pending, the barrier can always return, and when it has, the client's
  atomspaces are the result of a bulk load of the listed atoms: each was added once and after that its
  values, and no others, were attached to it.\<close>

theorem cog_list_fetched:
  assumes "async_buffer_ok msg_equiv B" and "serves_all E ans" and "hospitable E a" and "fresh_sys B a y0" and "ssteps B L E y0 cs y"
    and "ab_pending B (y_buf y) = []"
    and "catalogue_ok L ek ev (g_fid_map (y_node y)) cat" and "stocks ek ev ans cat (srv (sys_net y))" and "keeps_stock ek ev ans cat"
    and "steady E a (stocks ek ev ans cat)" and "undisturbed E (stocks ek ev ans cat)"
    and "list_query L (g_as (y_node y)) op = Some (table, q)" and "cat q = Some (Atoms es)" and "distinct (map en_text es)"
    and "sstep B L E (Some (Do op)) y y1"
  shows "g_as (y_node y1) = g_as (y_node y) \<and> (\<exists>y2. ssteps B L E y1 [Barrier] y2 \<and> y_todo y2 = []) \<and>
    (\<forall>y2. ssteps B L E y1 [Barrier] y2 \<and> y_todo y2 = [] \<longrightarrow>
      bulk L table (set es) (g_as (y_node y)) {} {} (g_as (y_node y2)) \<and> ab_pending B (y_buf y2) = [])"
proof -
  let ?w = "g_as (y_node y)" and ?m = "list_msg table q"
  have env: "fetch_env B L E a ek ev ans cat (g_fid_map (y_node y))" using assms(1-3,7,9-11) by (simp add: fetch_env_def)
  have todo: "y_todo y = []" using assms(15) by cases
  note y = fetching_starts [OF env assms(4,5) todo assms(6,8)]
  have ls: "listed cat q = es" using assms(13) by (simp add: listed_def)
  have Q: "bulk_cat cat [q]" using assms(13,14) catalogue_okD(3) [OF assms(7,13)] by (auto simp: bulk_cat_def ls)
  from list_query_requests [OF assms(12), of cat] have rq: "requests L cat ?w (Do op) = {[Put ?m]}" "wants_reply q" by simp_all
  then have "covers L cat ?w (Do op)" using assms(13) by (simp add: covers_def asks_def list_msg_def plain_def)
  with fetch_simulation [OF env y assms(15)] have y1: "fetching B a ek ev ans cat (g_fid_map (y_node y)) y1"
    "fstep L cat (Some (Do op)) ([], {}, ?w) (view B y1)" by (auto simp: view_def todo assms(6))
  from y1(2) have v1: "view B y1 = ([Put ?m], {}, ?w)" by cases (auto simp: rq(1))
  have load: "loading L cat table [q] ?w ([Put ?m], {}, ?w)" by (rule loading_starts) simp_all
  have "bulk L table (set es) ?w {} {} (g_as (y_node y2)) \<and> ab_pending B (y_buf y2) = []"
    if y2: "ssteps B L E y1 [Barrier] y2" "y_todo y2 = []" for y2
  proof -
    from fetch_runs_refine [OF y2(1) env y1(1)] have f: "fsteps L cat ([Put ?m], {}, ?w) [Barrier] (view B y2)" by (simp add: v1)
    from barrier_phase [OF f refl] y2(2) have v2: "view B y2 = ([], {}, g_as (y_node y2))" "ab_pending B (y_buf y2) = []"
      by (auto simp: view_def)
    from loading_runs [OF f Q load] loading_ends [of L cat table "[q]" ?w "g_as (y_node y2)"] v2 show ?thesis by (simp add: ls)
  qed
  moreover have "g_as (y_node y1) = ?w" using v1 by (simp add: view_def)
  ultimately show ?thesis using fetch_then_barrier [OF env y1(1)] by blast
qed

section \<open>An example\<close>

lemma small_texts_distinct: "distinct (map en_text (small_nodes @ []))" "distinct (map en_text [small_entry 2 []])"
  by (simp_all add: small_nodes_def small_entry_def num_text_def numeral_2_eq_2)

theorem cog_loadAtomSpace_loads_witness:
  "\<exists>y1 y2. sstep small_buffer small_lib shelf_host (Some (Do (GLoadAtomSpace (Some 8)))) small_sys y1 \<and>
    ssteps small_buffer small_lib shelf_host y1 [] y2 \<and> y_todo y2 = [] \<and> bulk small_lib (Some 8) (set small_nodes) [] {} {} (g_as (y_node y2))"
proof -
  obtain y1 where y1: "sstep small_buffer small_lib shelf_host (Some (Do (GLoadAtomSpace (Some 8)))) small_sys y1" using small_sys_step by blast
  from cog_loadAtomSpace_loads [OF shelf_env ssteps.start small_sys_idle(2) shelf_cat shelf_kept shelf_lists(1,2) small_texts_distinct(1) y1]
  obtain y2 where "ssteps small_buffer small_lib shelf_host y1 [] y2" "y_todo y2 = []"
    "bulk small_lib (Some 8) (set (small_nodes @ [])) [] {} {} (g_as (y_node y2))"
    unfolding small_sys_idle(3) by blast
  with y1 show ?thesis by auto
qed

theorem cog_list_fetched_witness:
  "\<exists>y1 y2. sstep small_buffer small_lib shelf_host (Some (Do (GFetchIncomingSet (Some 8) 1))) small_sys y1 \<and>
    ssteps small_buffer small_lib shelf_host y1 [Barrier] y2 \<and> y_todo y2 = [] \<and>
    bulk small_lib (Some 8) {small_entry 2 []} [] {} {} (g_as (y_node y2))"
proof -
  obtain y1 where y1: "sstep small_buffer small_lib shelf_host (Some (Do (GFetchIncomingSet (Some 8) 1))) small_sys y1" using small_sys_step by blast
  have q: "list_query small_lib (g_as (y_node small_sys)) (GFetchIncomingSet (Some 8) 1) = Some (Some 8, cog_incoming_msg small_lib [] 1)"
    by (simp add: small_sys_idle(3))
  from cog_list_fetched [OF shelf_env ssteps.start small_sys_idle(2) shelf_cat shelf_kept q shelf_lists(3) small_texts_distinct(2) y1]
  obtain y2 where "ssteps small_buffer small_lib shelf_host y1 [Barrier] y2" "y_todo y2 = []"
    "bulk small_lib (Some 8) (set [small_entry 2 []]) [] {} {} (g_as (y_node y2))"
    unfolding small_sys_idle(3) by blast
  with y1 show ?thesis by auto
qed

end
