(* ===== verification/Spec2Isabelle.thy ===== *)
theory Spec2Isabelle
  imports Guile FrameMaps Threads Lifecycle BulkLoad
begin

text \<open>
  The client side of atomspace-cog: two storage nodes that keep an AtomSpace in step with a remote
  CogServer by exchanging lines of s-expressions over TCP.

  \<^bold>\<open>The program.\<close> \<open>CogSimpleStorage\<close> (\<open>src/opencog/persist/cog-simple\<close>) has one socket and runs
  every request to its end. \<open>CogStorage\<close> (\<open>src/opencog/persist/cog-storage\<close>) puts its requests into the
  \<open>async_buffer\<close> of a \<open>CogChannel\<close>, from which four worker threads, each with a socket of its own, take
  them; replies are handled by callbacks in the workers. Both contain \<open>ro_decode_alist\<close>
  (\<open>cog-common/ListUtils.cc\<close>). The scheme commands (\<open>CogSimplePersistSCM\<close>, \<open>CogPersistSCM\<close>) open and close
  one node of the current atomspace.

  \<^bold>\<open>The theories.\<close>
  \<^item> \<open>Prelude\<close>: exceptions and faults as values, the state-and-exception monad with its
    weakest-precondition rules, \<open>std::string\<close> with \<open>size_t\<close> positions modulo \<open>2 ^ 64\<close>,
    \<open>std::unordered_map\<close> (the locale \<open>insert_once\<close>).
  \<^item> \<open>Sockets\<close>: system calls on sockets with arrival queues. The server, the resolver and the network
    are the parameter \<open>env\<close>.
  \<^item> \<open>Framing\<close>: the loop of \<open>do_recv\<close>, with its index arithmetic, and the locale \<open>framing\<close>, which both
    buffer sizes interpret: replies are reassembled from any segmentation.
  \<^item> \<open>LineClient\<close>: the protocol (which commands get a reply) and the locale \<open>line_client\<close>: send a
    message, receive a line, stay in step. Interpreted on the methods of both nodes.
  \<^item> \<open>Uri\<close>: \<open>init\<close> of both nodes, and the host and port parsing of \<open>open\<close> and \<open>open_connection\<close>.
  \<^item> \<open>Barrier\<close>: \<open>minstd_rand\<close>, the identifier and the text of the barrier message.
  \<^item> \<open>AtomLib\<close>: the AtomSpace and the \<open>Sexpr\<close> coder, which are not in the repository, as the record
    \<open>atomlib\<close> of functions.
  \<^item> \<open>ListUtils\<close>: \<open>ro_decode_alist\<close>; round trip, termination, and what a missing separator does.
  \<^item> \<open>SimpleStorage\<close>, \<open>SimpleIO\<close>: every method of \<open>CogSimpleStorage\<close>. A \<open>simple\<close> record is an object;
    \<open>simple_run\<close> is its interface as data.
  \<^item> \<open>Channel\<close>: \<open>CogChannel\<close>: messages and their order, the thread's socket, \<open>open_connection\<close>,
    \<open>do_send\<close>, \<open>do_recv\<close>, \<open>reply_handler\<close>, \<open>barrier\<close>. What a method does to the buffer is the list
    \<open>c_calls\<close> of its calls.
  \<^item> \<open>MsgBuffer\<close>: the order of messages as a strict weak order (the locale \<open>strict_weak\<close>), the contract
    \<open>async_buffer_ok\<close> of the buffer, and the runs \<open>bufrun\<close>: all interleavings of calls and workers'
    turns that the contract allows.
  \<^item> \<open>CogStorage\<close>: every method and callback of \<open>CogStorage\<close>; \<open>cog_run\<close> is its interface as data, and
    \<open>cog_work\<close> a worker's turn.
  \<^item> \<open>FrameMaps\<close>: the frame maps of the single-socket node as an invariant of every call.
  \<^item> \<open>Steps\<close>: programs of steps (lock, unlock, send, receive, local step), run alone, over an ideal
    connection, and their lock discipline; the locale \<open>node_client\<close> extends \<open>line_client\<close> by the client's
    own fields and shows that a program over sockets refines the program over the ideal connection.
  \<^item> \<open>SimpleSteps\<close>: every method of \<open>CogSimpleStorage\<close> as such a program, with the scopes of \<open>_mtx\<close> and
    \<open>_mtx_frame\<close> where the code has them; run alone, the programs are the methods.
  \<^item> \<open>SimpleRpc\<close>: the interpretation of \<open>node_client\<close>, abstract sessions in which a request is a function
    call on the server, and the round trip of \<open>storeValue\<close> and \<open>loadValue\<close> between two clients.
  \<^item> \<open>LoadAtoms\<close>: what \<open>loadAtomSpace\<close> loads.
  \<^item> \<open>Threads\<close>: threads that share a \<open>CogSimpleStorage\<close>, as the step relation \<open>tstep\<close> on configurations
    with owners of the two mutexes.
  \<^item> \<open>Workers\<close>: the multi-threaded node with its four workers, their sockets and the buffer, as the step
    relation \<open>sstep\<close>, labelled with the call that a step starts; \<open>ssteps\<close> are the runs with the list of
    calls that were made.
  \<^item> \<open>Drain\<close>: a measure on the work that is left, which every step without a new call makes smaller;
    every call returns.
  \<^item> \<open>Lifecycle\<close>: \<open>open\<close> as the start of the system, the end of the workers in \<open>close_connection\<close> (\<open>shut\<close>), with the destructor of the
    thread-local socket on a heap of channels, and an account of all sockets of a run.
  \<^item> \<open>Delivery\<close>: the way of a stored atom or value from the call through the buffer to a socket.
  \<^item> \<open>StoreFence\<close>: the same way up to the server, and on to a single-socket node of another client.
  \<^item> \<open>Fetching\<close>: an abstract fetch machine (\<open>fstep\<close>: a set of requests, the atomspace, and what is left of
    the current call) and the simulation of the system by it: the calls that fetch, in any series with
    barriers, do what the machine does. What the server has is a \<open>catalogue\<close> from requests to answers.
  \<^item> \<open>BulkLoad\<close>: an abstract bulk load (\<open>bulk\<close>: add an atom, attach its values, in any order), which the
    machine refines on the calls that load lists of atoms.
  \<^item> \<open>PersistSCM\<close>: \<open>do_open\<close> and \<open>do_close\<close> of the scheme commands, over the locale \<open>storage_node\<close>, which
    both nodes interpret.
  \<^item> \<open>Guile\<close>: how the first object of a class, and the load of its module, register the commands.
  \<^item> \<open>Example\<close>: a small library and server on which hypotheses are shown to hold.

  \<^bold>\<open>What is shown.\<close> For the single-socket node: sessions never get out of step with a server that keeps
  to the protocol; opening, closing and their failures; what storing and fetching send and change;
  frames are defined once and cached, and the frame maps keep their type; a session over sockets
  refines a session of function calls; values and atoms that are loaded are those the server has;
  threads that share the node get their own replies and never deadlock, except that the two proxy calls
  take no lock. For the multi-threaded node: in every interleaving each thread keeps a socket of its own
  in step; the workers always come to rest and every call returns, unless a callback throws; its barrier
  is a fence in every run, and what was stored before it has then been sent;
  \<open>storeAtomSpace\<close> has sent every atom when it returns, and \<open>loadAtomSpace\<close> has loaded exactly what the
  server has; any series of fetches and barriers refines the fetch machine, so that after a barrier a
  fetched list is loaded and a fetched value is set; \<open>kill_data\<close> is ordered; between \<open>open\<close> and \<open>close\<close> the workers lose no socket; closed nodes refuse every call. Across both: the same requests, the same
  fetched values, what the single-socket node loads is a bulk load too, and a value stored through one
  node is loaded through the other.
  Some theorems state behaviour that is probably not meant: updates that are de-duplicated, sockets
  shared between channels, a worker that does not reconnect, a node left half open, a pointer that
  stays set after a failed open, positions that wrap around, a destructor that throws, a thread whose
  end uses a channel that is gone.

  \<^bold>\<open>Fuel and bounds.\<close> The receive loop terminates by a measure on the arrivals. The loops over decoded
  text depend on coders that are parameters: they carry fuel, more than the length of the text, and the
  theorems show that it is never used up when the coder moves forward. \<open>cacheFrame\<close> recurses over a DAG
  it is given; its bound is the depth of the stack, and a DAG whose rank is below it is cached whole.
  Strings are shorter than \<open>npos\<close>.

  \<^bold>\<open>Granularity.\<close> Of threads that share a \<open>CogSimpleStorage\<close> a local step is one use of a field or one
  call on the atomspace, and \<open>do_send\<close> and \<open>do_recv\<close> are one step each; \<open>open\<close> and \<open>close\<close> run alone. In
  the system of the multi-threaded node a method of the application runs before the calls it makes on
  the buffer are carried out one by one, and a worker's turn is one step; what a turn does on its socket
  no other thread sees. A turn whose callback throws is no step: the run stops there. \<open>close\<close> is its
  three parts: the calls of \<open>proxy_close\<close> and \<open>barrier\<close> and then \<open>shut\<close>; \<open>open_connection\<close> runs in the thread
  of the application before the workers start.

  \<^bold>\<open>What is not modelled.\<close> The inside of \<open>async_buffer\<close> (cogutil), of the AtomSpace and of the coder: parameters. Short
  writes: a \<open>send\<close> takes the whole message. Socket options and the texts of error messages. The
  generated atom types and the scheme modules. The function-static \<open>_fid_map\<close> of \<open>decode_atom_list\<close> is a
  field of the one node of the system, and a turn uses it as a whole: that the workers and all nodes of
  a process share it without a lock is left to the findings. Loaded lists are assumed to name no new
  frames, and a fetch to leave the catalogue of the server as it is: stores and removals between a fetch
  and its barrier are not covered by the fetch machine. One \<open>open\<close> and \<open>close\<close> of the multi-threaded node
  are followed, not a series of them.
\<close>

section \<open>Stores through the buffer\<close>

lemma equiv_plain: "msg_equiv m (plain cb nr str d) \<Longrightarrow> m_str m = str"
  by (simp add: msg_equiv_iff plain_def)

text \<open>C12: when \<open>storeAtomSpace\<close> of the multi-threaded node returns, every atom of the space has been sent.
  In every run of the buffer and its four workers that makes the calls the method makes, for each atom
  a worker has taken a message with exactly the text of that atom's store request.\<close>

theorem cog_storeAtomSpace_durable:
  assumes "cog_connected s" and "cog_storeAtomSpace L table s = (Inr (), s')"
    and "async_buffer_ok msg_equiv B" and "bufrun B b0 evs b" and "calls_of evs = calls s'"
    and "h \<in> set (all_atoms L (g_as s) table)"
  shows "\<exists>t m. Work t m \<in> set evs \<and> m_str m = cog_storeAtom_msg L (g_as s) h"
proof -
  let ?ins = "\<lambda>h. BInsert (plain None True (cog_storeAtom_msg L (g_as s) h) zero_pkt)"
  from storeAtomSpace_run [OF assms(1), of L table] assms(2) obtain k where
    "calls s' = (calls s @ map ?ins (all_atoms L (g_as s) table)) @ BBarrierMsg k # []" by auto
  with assms(5) obtain xs ys where
    evs: "evs = xs @ Call (BBarrierMsg k) # ys" "calls_of xs = calls s @ map ?ins (all_atoms L (g_as s) table)"
    using calls_of_split by metis
  then have "Call (?ins h) \<in> set xs" using assms(6) by (simp flip: calls_of_mem)
  with barrier_fence [OF assms(3), of b0 xs k ys b] assms(4) evs(1) obtain us where
    "xs = us @ map (\<lambda>t. Work t k) [0..<NTHREADS]"
    "handled_in msg_equiv (plain None True (cog_storeAtom_msg L (g_as s) h) zero_pkt) us" by blast
  with evs(1) show ?thesis by (auto simp: handled_in_def dest!: equiv_plain)
qed

lemma small_all_atoms: "all_atoms small_lib w as = [1, 2]"
  by (simp add: small_lib_def)

theorem cog_storeAtomSpace_durable_witness:
  "\<exists>s' (evs :: (handler, nat Pkt) Msg bev list) t m. cog_storeAtomSpace small_lib 8 (small_cog []) = (Inr (), s') \<and> bufrun small_buffer [] evs [] \<and>
    Work t m \<in> set evs \<and> m_str m = cog_storeAtom_msg small_lib [] 2"
proof -
  from storeAtomSpace_run [of "small_cog []" small_lib 8] obtain s' k where
    s': "cog_storeAtomSpace small_lib 8 (small_cog []) = (Inr (), s')"
      "calls s' = [BInsert (plain None True (cog_storeAtom_msg small_lib [] 1) zero_pkt),
         BInsert (plain None True (cog_storeAtom_msg small_lib [] 2) zero_pkt), BBarrierMsg k]"
    by (auto simp: small_all_atoms)
  have "cog_storeAtom_msg small_lib [] 1 \<noteq> cog_storeAtom_msg small_lib [] 2"
    by (simp add: cog_storeAtom_msg_def small_lib_def num_text_def numeral_2_eq_2)
  then have "\<not> msg_equiv (plain None True (cog_storeAtom_msg small_lib [] 1) zero_pkt) (plain None True (cog_storeAtom_msg small_lib [] 2) zero_pkt)"
    by (simp add: msg_equiv_iff plain_def)
  from small_two_run [OF this, of k] obtain evs where r: "bufrun small_buffer [] evs []" "calls_of evs = calls s'"
    unfolding s'(2) by fastforce
  have "\<exists>t m. Work t m \<in> set evs \<and> m_str m = cog_storeAtom_msg small_lib (g_as (small_cog [])) 2"
    by (rule cog_storeAtomSpace_durable [OF _ s'(1) small_buffer_ok r]) (simp_all add: small_all_atoms)
  with s'(1) r(1) show ?thesis unfolding small_cog_simps by blast
qed

text \<open>C24: \<open>kill_data\<close> of the multi-threaded node is a fence on both sides. In every run that makes the
  node's calls, everything queued before it has been handled before the request to clear the
  atomspace is taken, and that request has been taken when \<open>kill_data\<close> returns.\<close>

theorem cog_kill_data_ordered:
  assumes "cog_connected s" and "cog_kill_data junk s = (Inr (), s')"
    and "async_buffer_ok msg_equiv B" and "bufrun B b0 evs b" and "calls_of evs = calls s'"
  shows "\<exists>us vs. evs = us @ vs \<and> (\<forall>m. BInsert m \<in> set (calls s) \<longrightarrow> handled_in msg_equiv m us) \<and>
    handled_in msg_equiv (clear_msg junk) vs"
proof -
  from kill_data_run [OF assms(1), of junk] assms(2) obtain k1 k2 where
    c: "calls s' = calls s @ BBarrierMsg k1 # [BInsert (clear_msg junk), BBarrierMsg k2]" by auto
  with assms(5) obtain xs ys where
    e1: "evs = xs @ Call (BBarrierMsg k1) # ys" "calls_of xs = calls s" "calls_of ys = [BInsert (clear_msg junk)] @ BBarrierMsg k2 # []"
    using calls_of_split [of evs "calls s"] by (metis append_Cons append_Nil)
  from calls_of_split [OF e1(3)] obtain zs ws where
    e2: "ys = zs @ Call (BBarrierMsg k2) # ws" "calls_of zs = [BInsert (clear_msg junk)]" by blast
  from bufrun_barrier_split [OF assms(4) e1(1)] obtain us b1 where
    us: "xs = us @ fence_works k1" "ab_pending B b1 = []" "bufrun B b1 ys b" by blast
  have "handled_in msg_equiv m xs" if "BInsert m \<in> set (calls s)" for m
  proof -
    have "Call (BInsert m) \<in> set xs" using that e1(2) by (simp flip: calls_of_mem)
    with barrier_fence [OF assms(3), of b0 xs k1 ys b] assms(4) e1(1) show ?thesis
      by (auto simp: handled_in_append)
  qed
  moreover have "handled_in msg_equiv (clear_msg junk) ys"
  proof -
    have "Call (BInsert (clear_msg junk)) \<in> set zs" using e2(2) by (simp flip: calls_of_mem)
    with barrier_fence [OF assms(3), of b1 zs k2 ws b] us(3) e2(1) show ?thesis
      by (auto simp: handled_in_append)
  qed
  ultimately show ?thesis
    using e1(1) by (intro exI [of _ xs] exI [of _ "Call (BBarrierMsg k1) # ys"]) (auto simp: handled_in_def)
qed

theorem cog_kill_data_ordered_witness:
  "\<exists>s' (evs :: (handler, nat Pkt) Msg bev list) us vs. cog_kill_data Null (small_cog []) = (Inr (), s') \<and>
    bufrun small_buffer [] evs [] \<and> calls_of evs = calls s' \<and> evs = us @ vs \<and> handled_in msg_equiv (clear_msg Null) vs"
proof -
  from kill_data_run [of "small_cog []" Null] obtain s' k1 k2 where
    s': "cog_kill_data Null (small_cog []) = (Inr (), s')" "calls s' = [BBarrierMsg k1, BInsert (clear_msg Null), BBarrierMsg k2]"
    by auto
  from small_fenced_run [of k1 "clear_msg Null" k2] s'(2) obtain evs where
    r: "bufrun small_buffer [] evs []" "calls_of evs = calls s'" by auto
  from cog_kill_data_ordered [OF _ s'(1) small_buffer_ok r] s'(1) r show ?thesis by fastforce
qed

text \<open>C28: updates get lost. If the same \<open>updateValue\<close> is called several times before a worker takes the
  message, the buffer keeps one of them: the server applies the increment once, however often it was
  asked for.\<close>

theorem cog_updates_lost:
  assumes "cog_connected s" and "calls s = []"
    and "for_each (\<lambda>_. cog_updateValue L h key delta) (replicate (Suc n) ()) s = (Inr (), s')"
    and "async_buffer_ok msg_equiv B" and "ab_pending B b0 = []"
    and "bufrun B b0 (map Call (calls s') @ ws) b" and "list_all is_work ws" and "ab_pending B b = []"
  shows "\<exists>t m. ws = [Work t m] \<and> m_str m = cog_updateValue_msg L (g_as s) h key delta"
proof -
  let ?m = "plain None True (cog_updateValue_msg L (g_as s) h key delta) zero_pkt"
  have run: "\<exists>s'. for_each (\<lambda>_. cog_updateValue L h key delta) (replicate k ()) t = (Inr (), s') \<and>
      calls s' = calls t @ replicate k (BInsert ?m)" if "cog_connected t" "g_as t = g_as s" for k t
    using that
  proof (induction k arbitrary: t)
    case (Suc k)
    from Suc.IH [of "add_call (BInsert ?m) t"] Suc.prems show ?case
      by (auto simp: updateValue_run seq_def bnd_def)
  qed (simp add: ret_def)
  from run [OF assms(1) refl, of "Suc n"] assms(2,3) have "calls s' = replicate (Suc n) (BInsert ?m)" by auto
  then have "map Call (calls s') = replicate (Suc n) (Call (BInsert ?m))" by (simp only: map_replicate)
  with inserted_often_handled_once [OF assms(4) mo.eqv_refl _ assms(7,5,8), of n ?m] assms(6) obtain t where
    "ws = [Work t ?m]" by auto
  then show ?thesis by (auto simp: plain_def)
qed

theorem cog_updates_lost_witness:
  "\<exists>s' t m. for_each (\<lambda>_. cog_updateValue small_lib 1 2 3) (replicate 2 ()) (small_cog []) = (Inr (), s') \<and>
    calls s' = [BInsert m, BInsert m] \<and>
    bufrun small_buffer [] (map Call (calls s') @ [Work t m]) [] \<and> m_str m = cog_updateValue_msg small_lib [] 1 2 3"
proof -
  let ?m = "plain None True (cog_updateValue_msg small_lib [] 1 2 3) zero_pkt :: (handler, nat Pkt) Msg"
  obtain s' where s': "for_each (\<lambda>_. cog_updateValue small_lib 1 2 3) (replicate 2 ()) (small_cog []) = (Inr (), s')"
    "calls s' = [BInsert ?m, BInsert ?m]"
    by (simp add: numeral_2_eq_2 seq_def bnd_def updateValue_run ret_def)
  have r: "bufrun small_buffer [] (map Call (calls s') @ [Work 0 ?m]) []"
    unfolding s'(2) using small_repeat_run [of ?m] by simp
  have "\<exists>t m. [Work 0 ?m] = [Work t m] \<and> m_str m = cog_updateValue_msg small_lib (g_as (small_cog [])) 1 2 3"
    by (rule cog_updates_lost [where n = 1, OF _ _ _ small_buffer_ok _ r])
       (use s'(1) in \<open>simp_all add: numeral_2_eq_2 small_buffer_def\<close>)
  with s' r show ?thesis by auto
qed

section \<open>The two nodes compared\<close>

text \<open>What the single-socket node loads from one list is a bulk load, so it is among the results that the
  multi-threaded node can have: freshly decoded atoms are in no atomspace, and an atom that is added to a
  table is then in that table.\<close>

lemma simple_load_is_bulk:
  assumes "\<forall>e \<in> set es. \<forall>w. getAtomSpace L w (en_atom e) = None"
    and "\<forall>e \<in> set es. \<forall>w h w'. add_nocheck L (Some table) (en_atom e) w = (h, w') \<longrightarrow> getAtomSpace L w' h = Some table"
  shows "bulk L (Some table) es0 w0 R {} w \<Longrightarrow> set es \<subseteq> R \<Longrightarrow> distinct es \<Longrightarrow>
    for_each (load_entry L (Some table)) es w = (Inr (), w') \<Longrightarrow> bulk L (Some table) es0 w0 (R - set es) {} w'"
  using assms
proof (induction es arbitrary: R w)
  case (Cons e es)
  obtain h w1 where h: "add_nocheck L (Some table) (en_atom e) w = (h, w1)" by fastforce
  from Cons.prems(2) have "bulk L (Some table) es0 w0 (R - {e}) {(e, h)} w1" by (intro bulk.add [OF Cons.prems(1) _ h]) simp
  moreover obtain w2 where w2: "attach_kvs L h (en_kvs e) w1 = (Inr (), w2)" using attach_returns by metis
  ultimately have "bulk L (Some table) es0 w0 (R - {e}) ({(e, h)} - {(e, h)}) w2" by (rule bulk.attach [OF _ singletonI])
  then have b: "bulk L (Some table) es0 w0 (R - {e}) {} w2" by simp
  have "getAtomSpace L w1 h = Some table" "getAtomSpace L w (en_atom e) = None" using Cons.prems(5,6) h by auto
  with w2 h have "load_entry L (Some table) e w = (Inr (), w2)" by (simp add: load_entry_place place_def attach_kvs_def bnd_def gets_def)
  with Cons.prems(4) have "for_each (load_entry L (Some table)) es w2 = (Inr (), w')" by (simp add: seq_def bnd_def)
  from Cons.IH [OF b _ _ this] Cons.prems(2,3,5,6) have "bulk L (Some table) es0 w0 (R - {e} - set es) {} w'" by auto
  moreover have "R - {e} - set es = R - set (e # es)" by auto
  ultimately show ?case by simp
qed (simp add: ret_def)

text \<open>The two nodes ask the server for the same things. For one and the same call, the
  multi-threaded node and the single-socket node in single-space mode send the same text.\<close>

lemma same_requests:
  "cog_storeAtom_msg L w h = simple_storeAtom_msg L w False h \<and>
   cog_storeValue_msg L w h key = simple_storeValue_msg L w False h key \<and>
   cog_updateValue_msg L w h key delta = simple_updateValue_msg L w False h key delta \<and>
   cog_loadValue_msg L w h key = simple_loadValue_msg L w h key \<and>
   cog_removeAtom_msg L w h recursive = simple_removeAtom_msg L w h recursive \<and>
   cog_iknow_msg L w h = simple_iknow_msg L w h \<and> cog_get_keys_msg L w h = simple_get_keys_msg L w h \<and>
   cog_runQuery_msg L w query key meta fresh = simple_runQuery_msg L w query key meta fresh"
  by (simp add: cog_storeAtom_msg_def simple_storeAtom_msg_def cog_storeValue_msg_def simple_storeValue_msg_def
      cog_updateValue_msg_def simple_updateValue_msg_def cog_loadValue_msg_def simple_loadValue_msg_def
      cog_removeAtom_msg_def simple_removeAtom_msg_def cog_iknow_msg_def simple_iknow_msg_def cog_typena_def simple_typena_def
      cog_get_keys_msg_def simple_get_keys_msg_def cog_runQuery_msg_def simple_runQuery_msg_def quoted_def cog_SQ_def SQ_def)

lemma decode_value_agrees:
  "cog_decode_value L m \<lparr>p_table = Null, p_h = Some h, p_key = Some key\<rparr> = g_on_as (simple_take_value L h key m)"
  by (simp add: cog_decode_value_def simple_take_value_def)

lemma take_value_returns:
  assumes "decode_value L m 0 = Inr (v, p)"
  shows "\<exists>w'. simple_take_value L h key m w = (Inr (), w')"
  using assms
  by (simp add: simple_take_value_def bnd_def lift_lib_def gets_def ret_def modify_def lib_call_def split: option.splits prod.splits)

lemma simple_loadValue_run:
  assumes "protocol E" and "in_sync s"
    and "is_reply (snd (on_data E (s_sockfd s) (simple_loadValue_msg L (s_as s) h key) (srv (s_net s)))) m"
    and "simple_take_value L h key m (s_as s) = (Inr (), w)"
  shows "\<exists>s'. simple_loadValue L E h key s = (Inr (), s') \<and> s_as s' = w \<and> in_sync s'"
proof -
  have "wp (simple_loadValue L E h key) (\<lambda>_ s'. s_as s' = w \<and> in_sync s') (\<lambda>_ _. False) s"
    unfolding simple_loadValue_def wp_bnd [of "gets (\<lambda>s. simple_loadValue_msg L (s_as s) h key)"] wp_gets
  proof (rule sl.wp_exchange [OF assms(1,2) fetch_reply(1)], goal_cases)
    case (1 n m')
    then have "m' = m" using is_reply_unique [OF _ assms(3)] by blast
    with 1 assms(4) show ?case by (simp add: wp_def zoom_def)
  qed
  from wp_returns [OF this] show ?thesis by auto
qed

lemma cog_work_loadValue:
  assumes "protocol E" and "worker_in_sync (g_x g)" and "wants_reply str"
    and "is_reply (snd (on_data E (x_fd (g_x g)) str (srv (x_net (g_x g))))) m"
    and "simple_take_value L h key m (g_as g) = (Inr (), w)"
  shows "\<exists>g'. cog_work L E (plain (Some DecodeValue) False str \<lparr>p_table = Null, p_h = Some h, p_key = Some key\<rparr>) g = (Inr (), g') \<and>
    g_as g' = w"
proof -
  from synchro_run [OF assms(1-4)] obtain n where "chan_synchro E str (g_x g) = (Inr m, (g_x g)\<lparr>x_net := n\<rparr>)" by blast
  then have "on_chan (chan_reply_handler E (plain (Some DecodeValue) False str \<lparr>p_table = Null, p_h = Some h, p_key = Some key\<rparr>)) g =
      (Inr (Some m), g\<lparr>g_x := (g_x g)\<lparr>x_net := n\<rparr>\<rparr>)"
    by (auto simp: chan_reply_handler_def chan_synchro_def plain_def zoom_def seq_def bnd_def ret_def split: prod.splits sum.splits)
  with assms(5) show ?thesis
    by (simp add: cog_work_def bnd_def plain_def decode_value_agrees zoom_def)
qed

text \<open>C22: fetching a value gives the same result through either node. If the server answers the request
  with the same line, then the call of the single-socket node, and the call of the multi-threaded node
  followed by a worker's turn on the message that the call queued, leave the same client state.\<close>

theorem load_value_agrees:
  assumes "protocol E" and "in_sync s" and "protocol E'" and "cog_connected g" and "worker_in_sync (g_x g)"
    and "g_as g = s_as s" and "decode_value L m 0 = Inr (v, p)"
    and "is_reply (snd (on_data E (s_sockfd s) (simple_loadValue_msg L (s_as s) h key) (srv (s_net s)))) m"
    and "is_reply (snd (on_data E' (x_fd (g_x g)) (simple_loadValue_msg L (s_as s) h key) (srv (x_net (g_x g))))) m"
  shows "\<exists>s' g1 g2 msg. simple_loadValue L E h key s = (Inr (), s') \<and> cog_loadValue L h key g = (Inr (), g1) \<and>
    calls g1 = calls g @ [BInsert msg] \<and> cog_work L E' msg g1 = (Inr (), g2) \<and> g_as g2 = s_as s'"
proof -
  obtain w where w: "simple_take_value L h key m (s_as s) = (Inr (), w)" using take_value_returns [OF assms(7)] by blast
  let ?str = "cog_loadValue_msg L (g_as g) h key"
  let ?msg = "plain (Some DecodeValue) False ?str \<lparr>p_table = Null, p_h = Some h, p_key = Some key\<rparr>"
  let ?g = "add_call (BInsert ?msg) g"
  have str: "?str = simple_loadValue_msg L (s_as s) h key"
    by (simp add: cog_loadValue_msg_def simple_loadValue_msg_def assms(6))
  have "?str \<noteq> ''(cog-update-value!''" by (rule line_not_update) (simp add: cog_loadValue_msg_def)
  then have l: "cog_loadValue L h key g = (Inr (), ?g)"
    using assms(4) by (simp add: cog_loadValue_def CHECK_OPEN_run seq_def bnd_def gets_def enqueue_run)
  have "worker_in_sync (g_x ?g)" using assms(5) by (simp add: worker_in_sync_def)
  then have "\<exists>g'. cog_work L E' ?msg ?g = (Inr (), g') \<and> g_as g' = w"
    by (rule cog_work_loadValue [OF assms(3)]) (use assms(6,9) w str fetch_reply(1) in simp_all)
  then obtain g2 where "cog_work L E' ?msg ?g = (Inr (), g2)" "g_as g2 = w" by blast
  with simple_loadValue_run [OF assms(1,2,8) w] l show ?thesis by fastforce
qed

text \<open>A server that answers every request for a value with the value 3.\<close>

definition small_values :: "string \<Rightarrow> recv_ev list" where
  "small_values msg = (if wants_reply msg then [Seg (num_text 3 @ [NL])] else [])"

lemma small_value_reply: "is_reply [Seg (num_text 3 @ [NL])] (num_text 3 @ [NL])"
  by (simp add: is_reply_def num_text_def clean_def strip_def lstrip_def rstrip_def SYN_def NL_def NUL_def numeral_3_eq_3)

lemma small_values_protocol: "protocol (small_env small_values)"
  unfolding protocol_def using small_value_reply by (auto simp: small_env_def small_values_def wants_reply_def)

theorem load_value_agrees_witness:
  "\<exists>s' g1 g2 msg. simple_loadValue small_lib (small_env small_values) 1 2 (small_simple []) = (Inr (), s') \<and>
    cog_loadValue small_lib 1 2 (small_cog []) = (Inr (), g1) \<and> calls g1 = [BInsert msg] \<and>
    cog_work small_lib (small_env small_values) msg g1 = (Inr (), g2) \<and> g_as g2 = s_as s'"
proof -
  have r: "is_reply (snd (on_data (small_env small_values) fd (simple_loadValue_msg small_lib [] 1 2) ())) (num_text 3 @ [NL])" for fd
    using small_value_reply by (simp add: small_env_def small_values_def fetch_reply)
  have a: "s_as (small_simple []) = []" by (simp add: small_simple_def)
  show ?thesis
    using load_value_agrees [OF small_values_protocol small_in_sync small_values_protocol small_cog_simps(1) small_worker _ small_decode,
        of 1 2] r
    by (simp add: a)
qed

end
